(* ===== verification/WS_Prelude.thy ===== *)
theory WS_Prelude
  imports Main "HOL-Library.Word"
begin

section \<open>Prelude: machine types, spans and shared lemmas\<close>

text \<open>
  This theory holds what every component of the WireSpaces model shares: the machine
  integer types of the C++ sources, the model of \<^verbatim>\<open>memcpy\<close> into a fixed buffer
  (\<open>span_write\<close>), the little-endian byte order of 16 and 32 bit fields, and the generic
  lemmas on lists and words that the component proofs use.  Three collections are
  declared: \<open>ws_simps\<close> for rewriting facts the components contribute (definitions of
  small accessors), \<open>ws_invars\<close> for the preservation lemmas of the state invariants, and
  \<open>ws_unats\<close> for the facts that move word arithmetic to the natural numbers.
\<close>

unbundle bit_operations_syntax

named_theorems ws_simps \<open>unfolding rules of small accessors\<close>
named_theorems ws_invars \<open>preservation of component invariants\<close>
named_theorems ws_unats \<open>word arithmetic carried to the natural numbers\<close>

subsection \<open>Machine types\<close>

type_synonym u8 = "8 word"
type_synonym u16 = "16 word"
type_synonym u32 = "32 word"
type_synonym u64 = "64 word"
type_synonym bytes = "8 word list"

subsection \<open>Spans\<close>

text \<open>
  A \<^verbatim>\<open>foundation::Span\<close> (\<^verbatim>\<open>foundation/span.h\<close>) is a pointer and a size; the model
  carries the bytes the span denotes.  \<open>subspan\<close> and \<open>subspan_from\<close> are its two
  \<^verbatim>\<open>subspan\<close> members.  A \<^verbatim>\<open>std::memcpy\<close> of \<open>src\<close> into a buffer at offset \<open>off\<close> is
  \<open>span_write\<close>; every use in the model is accompanied by the lemma that the write stays
  inside the destination, since writing past the end is undefined in the source.
\<close>

definition subspan :: "'a list \<Rightarrow> nat \<Rightarrow> nat \<Rightarrow> 'a list" where
  "subspan xs start len = take len (drop start xs)"

definition subspan_from :: "'a list \<Rightarrow> nat \<Rightarrow> 'a list" where
  "subspan_from xs start = drop start xs"

definition span_write :: "nat \<Rightarrow> 'a list \<Rightarrow> 'a list \<Rightarrow> 'a list" where
  "span_write off src dst = take off dst @ src @ drop (off + length src) dst"

lemma length_span_write [simp]:
  "off + length src \<le> length dst \<Longrightarrow> length (span_write off src dst) = length dst"
  by (simp add: span_write_def)

lemma span_write_Nil [simp]: "off \<le> length dst \<Longrightarrow> span_write off [] dst = dst"
  by (simp add: span_write_def)

lemma take_span_write_0 [simp]:
  "length src \<le> length dst \<Longrightarrow> take (length src) (span_write 0 src dst) = src"
  by (simp add: span_write_def)

lemma span_write_full [simp]: "length src = length dst \<Longrightarrow> span_write 0 src dst = src"
  by (simp add: span_write_def)

lemma nth_span_write:
  assumes "off + length src \<le> length dst" and "i < length dst"
  shows "span_write off src dst ! i =
    (if off \<le> i \<and> i < off + length src then src ! (i - off) else dst ! i)"
  using assms by (auto simp: span_write_def nth_append min_def)

lemma take_span_write_0':
  "length src = n \<Longrightarrow> n \<le> length dst \<Longrightarrow> take n (span_write 0 src dst) = src"
  by (simp add: span_write_def)

lemma take_span_write:
  "off + length src \<le> n \<Longrightarrow> n \<le> length dst \<Longrightarrow>
     take n (span_write off src dst) = span_write off src (take n dst)"
  by (rule nth_equalityI) (auto simp: nth_span_write)

lemma subspan_span_write [simp]:
  "off + length src \<le> length dst \<Longrightarrow> subspan (span_write off src dst) off (length src) = src"
  by (simp add: subspan_def span_write_def)

lemma list_update_span_write: "n < length f \<Longrightarrow> f[n := b] = span_write n [b] f"
  by (simp add: span_write_def upd_conv_take_nth_drop)

lemma span_write_append:
  assumes "n + length a + length b \<le> length f"
  shows "span_write (n + length a) b (span_write n a f) = span_write n (a @ b) f"
proof -
  have "length (take n f) = n" using assms by simp
  then show ?thesis by (simp add: span_write_def ac_simps)
qed

lemma nth_subspan:
  "start + i < length xs \<Longrightarrow> i < len \<Longrightarrow> subspan xs start len ! i = xs ! (start + i)"
  by (simp add: subspan_def)

lemma length_subspan [simp]: "length (subspan xs start len) = min len (length xs - start)"
  by (simp add: subspan_def min.commute)

subsection \<open>Little-endian fields\<close>

text \<open>
  The sources write 16-bit wire fields low byte first.  \<open>lo8\<close> and \<open>hi8\<close> are the casts
  \<^verbatim>\<open>static_cast<uint8_t>(v)\<close> and \<^verbatim>\<open>static_cast<uint8_t>(v >> 8U)\<close>; \<open>le16\<close> is the inverse
  composition.
\<close>

definition lo8 :: "16 word \<Rightarrow> 8 word" where
  "lo8 v = ucast v"

definition hi8 :: "16 word \<Rightarrow> 8 word" where
  "hi8 v = ucast (drop_bit 8 v)"

definition le16 :: "8 word \<Rightarrow> 8 word \<Rightarrow> 16 word" where
  "le16 l h = ucast l OR push_bit 8 (ucast h)"

lemma le16_lo8_hi8 [simp]: "le16 (lo8 v) (hi8 v) = v"
  unfolding le16_def lo8_def hi8_def
  by (rule bit_word_eqI) (auto simp: bit_simps)

lemma lo8_le16 [simp]: "lo8 (le16 l h) = l"
  unfolding le16_def lo8_def
  by (rule bit_word_eqI) (auto simp: bit_simps dest: bit_imp_le_length)

lemma hi8_le16 [simp]: "hi8 (le16 l h) = h"
  unfolding le16_def hi8_def
  by (rule bit_word_eqI) (auto simp: bit_simps dest: bit_imp_le_length)

lemma le16_inject [simp]: "le16 a b = le16 c d \<longleftrightarrow> a = c \<and> b = d"
  by (metis lo8_le16 hi8_le16)

text \<open>The four bytes of a 32-bit value, in the memory order of a little-endian target.\<close>

definition le32_bytes :: "32 word \<Rightarrow> 8 word list" where
  "le32_bytes v = [ucast v, ucast (drop_bit 8 v), ucast (drop_bit 16 v), ucast (drop_bit 24 v)]"

lemma length_le32_bytes [simp]: "length (le32_bytes v) = 4"
  by (simp add: le32_bytes_def)

subsection \<open>Words and natural numbers\<close>

lemma unat_ucast_up [ws_unats]:
  fixes x :: "'a::len word"
  assumes "LENGTH('a) \<le> LENGTH('b::len)"
  shows "unat (ucast x :: 'b word) = unat x"
proof -
  have "unat x < 2 ^ LENGTH('a)" by simp
  also have "\<dots> \<le> 2 ^ LENGTH('b)" using assms by (simp add: power_increasing)
  finally show ?thesis by (simp add: unsigned_ucast_eq take_bit_nat_eq_self)
qed

lemma unat_Suc_less [ws_unats]:
  fixes v w :: "'a::len word"
  assumes "unat w < unat v"
  shows "unat (w + 1) = Suc (unat w)"
proof -
  have v: "unat v < 2 ^ LENGTH('a)" by simp
  have "Suc (unat w) < 2 ^ LENGTH('a)"
    using assms v by linarith
  then show ?thesis by (simp add: unat_word_ariths)
qed

lemma unat_add_le [ws_unats]:
  fixes a b :: "'a::len word"
  assumes "unat a + unat b < 2 ^ LENGTH('a)"
  shows "unat (a + b) = unat a + unat b"
  using assms by (simp add: unat_word_ariths)

lemma unat_sub_le [ws_unats]:
  fixes a b :: "'a::len word"
  assumes "unat b \<le> unat a"
  shows "unat (a - b) = unat a - unat b"
  using assms by (simp add: unat_sub word_le_nat_alt)

lemma unat_u8_le: "unat (x :: u8) \<le> 255"
  using unsigned_less [of x, where ?'a = nat] by simp

lemma unat_u16_le: "unat (x :: u16) \<le> 65535"
  using unsigned_less [of x, where ?'a = nat] by simp

lemma word_eq_of_nat: "unat x = n \<Longrightarrow> x = of_nat n"
  by (drule sym) simp

lemma unat_eq_iff: "unat a = unat b \<longleftrightarrow> a = b"
  by (simp add: word_unat_eq_iff)

subsection \<open>Bits of words\<close>

lemma word8_eqI:
  fixes a b :: u8
  assumes "bit a 0 = bit b 0" "bit a 1 = bit b 1" "bit a 2 = bit b 2" "bit a 3 = bit b 3"
    "bit a 4 = bit b 4" "bit a 5 = bit b 5" "bit a 6 = bit b 6" "bit a 7 = bit b 7"
  shows "a = b"
proof (rule bit_word_eqI)
  fix n
  assume "n < LENGTH(8)"
  then have "n \<in> {0, 1, 2, 3, 4, 5, 6, 7}" by auto
  with assms show "bit a n = bit b n" by auto
qed

text \<open>A word below \<open>2 ^ k\<close> has no bit at \<open>k\<close> or above, and conversely.\<close>

lemma word_less_exp_iff_take_bit:
  fixes x :: "'a::len word"
  assumes "k < LENGTH('a)"
  shows "x < 2 ^ k \<longleftrightarrow> take_bit k x = x"
proof -
  have "uint (2 ^ k :: 'a word) = 2 ^ k"
    using assms by (intro uint_2p) (simp add: word_neq_0_conv [symmetric])
  then have "x < 2 ^ k \<longleftrightarrow> uint x < 2 ^ k"
    by (simp add: word_less_def)
  also have "\<dots> \<longleftrightarrow> take_bit k (uint x) = uint x"
    by (simp add: take_bit_int_eq_self_iff)
  also have "\<dots> \<longleftrightarrow> take_bit k x = x"
    by (simp add: word_uint_eq_iff unsigned_take_bit_eq)
  finally show ?thesis .
qed

lemma small_word_bits:
  fixes x :: "'a::len word"
  assumes "x < 2 ^ k" and "k \<le> n"
  shows "\<not> bit x n"
proof (cases "k < LENGTH('a)")
  case True
  with assms(1) have "bit x n = bit (take_bit k x) n"
    by (simp add: word_less_exp_iff_take_bit)
  then show ?thesis
    using assms(2) by (simp add: bit_take_bit_iff)
next
  case False
  then show ?thesis
    using assms(2) by (auto dest: bit_imp_le_length)
qed

lemma small_wordI:
  fixes x :: "'a::len word"
  assumes "k < LENGTH('a)" and "\<And>n. k \<le> n \<Longrightarrow> n < LENGTH('a) \<Longrightarrow> \<not> bit x n"
  shows "x < 2 ^ k"
proof -
  have "take_bit k x = x"
    using assms(2) by (intro bit_word_eqI) (auto simp: bit_simps not_less [symmetric])
  then show ?thesis
    using assms(1) by (simp add: word_less_exp_iff_take_bit)
qed

end
