(* ===== verification/Containers.thy ===== *)
theory Containers
  imports WS_Prelude
begin

section \<open>Bounded containers\<close>

text \<open>
  The two fixed-capacity FIFOs of \<^verbatim>\<open>lib/wirespaces/containers\<close>: \<^verbatim>\<open>RingBuffer\<close>
  (\<^verbatim>\<open>ring_buffer.h\<close>, one spare slot, indices of a configurable unsigned type) and
  \<^verbatim>\<open>Queue\<close> (\<^verbatim>\<open>queue.h\<close>, an explicit 16-bit element count and a lock policy).  Both are
  shown to implement one interface, the locale \<open>bounded_fifo\<close>, whose client lemmas say
  that any sequence of operations answers as a bounded list does.
\<close>

subsection \<open>Circular storage\<close>

text \<open>The \<open>n\<close> elements of a circular store of \<open>m\<close> slots that start at slot \<open>r\<close>.\<close>

definition ring_list :: "'a list \<Rightarrow> nat \<Rightarrow> nat \<Rightarrow> nat \<Rightarrow> 'a list" where
  "ring_list buf m r n = map (\<lambda>i. buf ! ((r + i) mod m)) [0..<n]"

lemma length_ring_list [simp]: "length (ring_list buf m r n) = n"
  by (simp add: ring_list_def)

lemma ring_list_0 [simp]: "ring_list buf m r 0 = []"
  by (simp add: ring_list_def)

lemma ring_index_inj:
  fixes r i j m :: nat
  assumes "(r + i) mod m = (r + j) mod m" and "i < m" and "j < m"
  shows "i = j"
proof -
  have "m dvd j - i" if "i \<le> j"
    using that assms(1) mod_eq_dvd_iff_nat [of "r + i" "r + j" m] by simp
  moreover have "m dvd i - j" if "j \<le> i"
    using that assms(1) mod_eq_dvd_iff_nat [of "r + j" "r + i" m] by simp
  ultimately show ?thesis
    using assms(2,3) by (metis dvd_imp_le diff_is_0_eq le_antisym less_imp_diff_less nat_le_linear
        not_less zero_less_diff)
qed

lemma ring_list_snoc:
  assumes "n < m" and "m \<le> length buf"
  shows "ring_list (buf[(r + n) mod m := x]) m r (Suc n) = ring_list buf m r n @ [x]"
proof -
  have "(r + n) mod m < length buf"
    using assms mod_less_divisor [of m "r + n"] by linarith
  moreover have "(r + n) mod m \<noteq> (r + i) mod m" if "i < n" for i
    using that assms(1) ring_index_inj [of r i m n] by auto
  ultimately show ?thesis by (simp add: ring_list_def nth_list_update)
qed

lemma ring_list_Cons:
  "ring_list buf m r (Suc n) = buf ! (r mod m) # ring_list buf m ((r + 1) mod m) n"
proof -
  have "[0..<Suc n] = 0 # map Suc [0..<n]"
    by (metis upt_conv_Cons zero_less_Suc map_Suc_upt)
  then show ?thesis
    by (simp add: ring_list_def o_def mod_simps)
qed

subsection \<open>The interface of a bounded FIFO\<close>

text \<open>
  The operations a client calls (\<open>enq\<close> answers whether the item was stored, \<open>deq\<close> answers
  the removed item if there is one) and what a provider promises of them.
\<close>

locale bounded_fifo =
  fixes enq :: "'q \<Rightarrow> 'a \<Rightarrow> bool \<times> 'q"
    and deq :: "'q \<Rightarrow> 'a option \<times> 'q"
    and contents :: "'q \<Rightarrow> 'a list"
    and invar :: "'q \<Rightarrow> bool"
    and cap :: nat
  assumes enq_room: "invar q \<Longrightarrow> length (contents q) < cap \<Longrightarrow>
      fst (enq q x) \<and> invar (snd (enq q x)) \<and> contents (snd (enq q x)) = contents q @ [x]"
    and enq_full: "invar q \<Longrightarrow> cap \<le> length (contents q) \<Longrightarrow>
      \<not> fst (enq q x) \<and> invar (snd (enq q x)) \<and> contents (snd (enq q x)) = contents q"
    and deq_nonempty: "invar q \<Longrightarrow> contents q = y # ys \<Longrightarrow>
      fst (deq q) = Some y \<and> invar (snd (deq q)) \<and> contents (snd (deq q)) = ys"
    and deq_empty: "invar q \<Longrightarrow> contents q = [] \<Longrightarrow>
      fst (deq q) = None \<and> invar (snd (deq q)) \<and> contents (snd (deq q)) = []"
    and within_cap: "invar q \<Longrightarrow> length (contents q) \<le> cap"

text \<open>
  A client's run: a list of operations and the answer to each.  \<open>fifo_run\<close> runs them on
  a given queue, \<open>spec_fifo_run\<close> on the abstract bounded list.
\<close>

datatype 'a fifo_op = Enq 'a | Deq

datatype 'a fifo_ans = Stored bool | Got "'a option"

fun fifo_run :: "('q \<Rightarrow> 'a \<Rightarrow> bool \<times> 'q) \<Rightarrow> ('q \<Rightarrow> 'a option \<times> 'q) \<Rightarrow> 'q \<Rightarrow> 'a fifo_op list
    \<Rightarrow> 'a fifo_ans list \<times> 'q" where
  "fifo_run enq deq q [] = ([], q)"
| "fifo_run enq deq q (Enq x # ops) =
     (let (b, q1) = enq q x; (as, q2) = fifo_run enq deq q1 ops in (Stored b # as, q2))"
| "fifo_run enq deq q (Deq # ops) =
     (let (r, q1) = deq q; (as, q2) = fifo_run enq deq q1 ops in (Got r # as, q2))"

fun spec_fifo_run :: "nat \<Rightarrow> 'a list \<Rightarrow> 'a fifo_op list \<Rightarrow> 'a fifo_ans list \<times> 'a list" where
  "spec_fifo_run cap xs [] = ([], xs)"
| "spec_fifo_run cap xs (Enq x # ops) =
     (if length xs < cap
      then (let (as, ys) = spec_fifo_run cap (xs @ [x]) ops in (Stored True # as, ys))
      else (let (as, ys) = spec_fifo_run cap xs ops in (Stored False # as, ys)))"
| "spec_fifo_run cap [] (Deq # ops) =
     (let (as, ys) = spec_fifo_run cap [] ops in (Got None # as, ys))"
| "spec_fifo_run cap (x # xs) (Deq # ops) =
     (let (as, ys) = spec_fifo_run cap xs ops in (Got (Some x) # as, ys))"

context bounded_fifo
begin

lemma run_refines:
  "invar q \<Longrightarrow> fst (fifo_run enq deq q ops) = fst (spec_fifo_run cap (contents q) ops)
     \<and> contents (snd (fifo_run enq deq q ops)) = snd (spec_fifo_run cap (contents q) ops)
     \<and> invar (snd (fifo_run enq deq q ops))"
proof (induction ops arbitrary: q)
  case Nil
  then show ?case by simp
next
  case (Cons p ops)
  show ?case
  proof (cases p)
    case (Enq x)
    obtain b q1 where e: "enq q x = (b, q1)" by (cases "enq q x")
    show ?thesis
    proof (cases "length (contents q) < cap")
      case True
      with enq_room [OF Cons.prems True, of x] e
      have "b" "invar q1" "contents q1 = contents q @ [x]" by auto
      with Cons.IH [of q1] True Enq e show ?thesis by (auto split: prod.splits)
    next
      case False
      with enq_full [OF Cons.prems, of x] e
      have "\<not> b" "invar q1" "contents q1 = contents q" by auto
      with Cons.IH [of q1] False Enq e show ?thesis by (auto split: prod.splits)
    qed
  next
    case Deq
    obtain r q1 where d: "deq q = (r, q1)" by (cases "deq q")
    show ?thesis
    proof (cases "contents q")
      case Nil
      with deq_empty [OF Cons.prems Nil] d
      have "r = None" "invar q1" "contents q1 = []" by auto
      with Cons.IH [of q1] Nil Deq d show ?thesis by (auto split: prod.splits)
    next
      case c: (Cons y ys)
      with deq_nonempty [OF Cons.prems c] d
      have "r = Some y" "invar q1" "contents q1 = ys" by auto
      with Cons.IH [of q1] c Deq d show ?thesis by (auto split: prod.splits)
    qed
  qed
qed

end

subsection \<open>Queue\<close>

text \<open>
  \<^verbatim>\<open>Queue<T, kCapacity, LockType>\<close>: the storage, the 16-bit read and write positions and
  element count, and the lock object.  The lock policy is a template parameter of the
  source and here a pair of functions on the lock's state; \<open>NoLock\<close> is the default.
  The capacity is the template parameter \<open>cap\<close>.
\<close>

record 'l lock_policy =
  lock :: "'l \<Rightarrow> 'l"
  unlock :: "'l \<Rightarrow> 'l"

definition NoLock :: "unit lock_policy" where
  "NoLock = \<lparr>lock = (\<lambda>l. l), unlock = (\<lambda>l. l)\<rparr>"

record ('a, 'l) Queue =
  q_items :: "'a list"
  q_read_index :: u16
  q_write_index :: u16
  q_size :: u16
  q_lock :: 'l

definition Queue_init :: "nat \<Rightarrow> 'a \<Rightarrow> 'l \<Rightarrow> ('a, 'l) Queue" where
  "Queue_init cap dflt l = \<lparr>q_items = replicate (if cap = 0 then 1 else cap) dflt,
     q_read_index = 0, q_write_index = 0, q_size = 0, q_lock = l\<rparr>"

definition Queue_isFull :: "nat \<Rightarrow> ('a, 'l) Queue \<Rightarrow> bool" where
  "Queue_isFull cap q = (unat (q_size q) = cap)"

definition Queue_isEmpty :: "('a, 'l) Queue \<Rightarrow> bool" where
  "Queue_isEmpty q = (q_size q = 0)"

definition Queue_increment :: "nat \<Rightarrow> u16 \<Rightarrow> u16" where
  "Queue_increment cap index =
     (let result = index + 1 in if cap \<le> unat result then 0 else result)"

definition Queue_enqueueImpl :: "nat \<Rightarrow> ('a, 'l) Queue \<Rightarrow> 'a \<Rightarrow> bool \<times> ('a, 'l) Queue" where
  "Queue_enqueueImpl cap q item =
     (if Queue_isFull cap q then (False, q)
      else (True, q\<lparr>q_items := (q_items q)[unat (q_write_index q) := item],
                    q_write_index := Queue_increment cap (q_write_index q),
                    q_size := q_size q + 1\<rparr>))"

definition Queue_dequeueImpl :: "nat \<Rightarrow> ('a, 'l) Queue \<Rightarrow> 'a option \<times> ('a, 'l) Queue" where
  "Queue_dequeueImpl cap q =
     (if Queue_isEmpty q then (None, q)
      else (Some (q_items q ! unat (q_read_index q)),
            q\<lparr>q_read_index := Queue_increment cap (q_read_index q),
              q_size := q_size q - 1\<rparr>))"

definition Queue_enqueue ::
  "'l lock_policy \<Rightarrow> nat \<Rightarrow> ('a, 'l) Queue \<Rightarrow> 'a \<Rightarrow> bool \<times> ('a, 'l) Queue" where
  "Queue_enqueue lp cap q item =
     (let q1 = q\<lparr>q_lock := lock lp (q_lock q)\<rparr>;
          (result, q2) = Queue_enqueueImpl cap q1 item
      in (result, q2\<lparr>q_lock := unlock lp (q_lock q2)\<rparr>))"

definition Queue_dequeue ::
  "'l lock_policy \<Rightarrow> nat \<Rightarrow> ('a, 'l) Queue \<Rightarrow> 'a option \<times> ('a, 'l) Queue" where
  "Queue_dequeue lp cap q =
     (let q1 = q\<lparr>q_lock := lock lp (q_lock q)\<rparr>;
          (result, q2) = Queue_dequeueImpl cap q1
      in (result, q2\<lparr>q_lock := unlock lp (q_lock q2)\<rparr>))"

text \<open>The well-formed queues, and the list a queue stands for.\<close>

definition Queue_invar :: "nat \<Rightarrow> ('a, 'l) Queue \<Rightarrow> bool" where
  "Queue_invar cap q \<longleftrightarrow> 0 < cap \<and> cap < 2 ^ 16 \<and> length (q_items q) = cap
     \<and> unat (q_read_index q) < cap \<and> unat (q_size q) \<le> cap
     \<and> unat (q_write_index q) = (unat (q_read_index q) + unat (q_size q)) mod cap"

definition Queue_contents :: "nat \<Rightarrow> ('a, 'l) Queue \<Rightarrow> 'a list" where
  "Queue_contents cap q = ring_list (q_items q) cap (unat (q_read_index q)) (unat (q_size q))"

lemma Queue_init_invar [ws_invars]:
  "0 < cap \<Longrightarrow> cap < 2 ^ 16 \<Longrightarrow> Queue_invar cap (Queue_init cap d l)"
  by (simp add: Queue_invar_def Queue_init_def)

lemma unat_Queue_increment:
  assumes "unat i < cap" and "cap < 2 ^ 16"
  shows "unat (Queue_increment cap i) = (unat i + 1) mod cap"
proof -
  have "unat (i + 1) = unat i + 1"
    using assms by (simp add: unat_word_ariths)
  with assms show ?thesis
    by (auto simp: Queue_increment_def Let_def mod_if)
qed

lemma Queue_enqueueImpl_room:
  assumes inv: "Queue_invar cap q" and room: "unat (q_size q) < cap"
  shows "fst (Queue_enqueueImpl cap q x) \<and> Queue_invar cap (snd (Queue_enqueueImpl cap q x))
    \<and> Queue_contents cap (snd (Queue_enqueueImpl cap q x)) = Queue_contents cap q @ [x]"
proof -
  let ?r = "unat (q_read_index q)" and ?n = "unat (q_size q)" and ?w = "unat (q_write_index q)"
  from inv have w: "?w = (?r + ?n) mod cap" and c: "0 < cap" "cap < 2 ^ 16"
    and l: "length (q_items q) = cap" and r: "?r < cap" by (auto simp: Queue_invar_def)
  have wlt: "?w < cap" using w c by simp
  have s: "unat (q_size q + 1) = Suc ?n"
    using room c by (simp add: unat_word_ariths)
  have w': "unat (Queue_increment cap (q_write_index q)) = (?r + Suc ?n) mod cap"
    using unat_Queue_increment [OF wlt c(2)] w by (simp add: mod_simps)
  have "ring_list ((q_items q)[?w := x]) cap ?r (Suc ?n) = ring_list (q_items q) cap ?r ?n @ [x]"
    unfolding w by (rule ring_list_snoc) (use room l in auto)
  then show ?thesis
    using room c l r s w'
    by (simp add: Queue_enqueueImpl_def Queue_isFull_def Queue_invar_def Queue_contents_def)
qed

lemma Queue_dequeueImpl_nonempty:
  assumes inv: "Queue_invar cap q" and ne: "Queue_contents cap q = y # ys"
  shows "fst (Queue_dequeueImpl cap q) = Some y \<and> Queue_invar cap (snd (Queue_dequeueImpl cap q))
    \<and> Queue_contents cap (snd (Queue_dequeueImpl cap q)) = ys"
proof -
  let ?r = "unat (q_read_index q)" and ?n = "unat (q_size q)"
  from inv have w: "unat (q_write_index q) = (?r + ?n) mod cap" and c: "0 < cap" "cap < 2 ^ 16"
    and l: "length (q_items q) = cap" and r: "?r < cap" and n: "?n \<le> cap"
    by (auto simp: Queue_invar_def)
  have "length (Queue_contents cap q) = ?n" by (simp add: Queue_contents_def)
  with ne obtain k where k: "?n = Suc k" by (metis length_Cons)
  then have nz: "q_size q \<noteq> 0" by auto
  have s: "unat (q_size q - 1) = k"
    using k by (simp add: unat_sub_le)
  have r': "unat (Queue_increment cap (q_read_index q)) = (?r + 1) mod cap"
    by (rule unat_Queue_increment [OF r c(2)])
  have "ring_list (q_items q) cap ?r (Suc k)
      = q_items q ! ?r # ring_list (q_items q) cap ((?r + 1) mod cap) k"
    using r by (simp add: ring_list_Cons)
  with ne k have "q_items q ! ?r = y" "ring_list (q_items q) cap ((?r + 1) mod cap) k = ys"
    by (auto simp: Queue_contents_def)
  moreover have "(?r + ?n) mod cap = ((?r + 1) mod cap + k) mod cap"
    using k by (simp add: mod_simps)
  ultimately show ?thesis
    using nz s r' c l w n k
    by (simp add: Queue_dequeueImpl_def Queue_isEmpty_def Queue_invar_def Queue_contents_def)
qed

text \<open>The lock policy does not influence the answers, and the lock is released again.\<close>

lemma Queue_lock_irrelevant [simp]:
  "Queue_invar cap (q\<lparr>q_lock := l\<rparr>) = Queue_invar cap q"
  "Queue_contents cap (q\<lparr>q_lock := l\<rparr>) = Queue_contents cap q"
  by (simp_all add: Queue_invar_def Queue_contents_def)

lemma Queue_length_contents [simp]: "length (Queue_contents cap q) = unat (q_size q)"
  by (simp add: Queue_contents_def)

lemma Queue_enqueue_room:
  assumes "Queue_invar cap q" and "length (Queue_contents cap q) < cap"
  shows "fst (Queue_enqueue lp cap q x) \<and> Queue_invar cap (snd (Queue_enqueue lp cap q x))
    \<and> Queue_contents cap (snd (Queue_enqueue lp cap q x)) = Queue_contents cap q @ [x]"
  using Queue_enqueueImpl_room [of cap "q\<lparr>q_lock := lock lp (q_lock q)\<rparr>" x] assms
  by (auto simp: Queue_enqueue_def split: prod.splits)

lemma Queue_enqueue_full:
  assumes "Queue_invar cap q" and "cap \<le> length (Queue_contents cap q)"
  shows "\<not> fst (Queue_enqueue lp cap q x) \<and> Queue_invar cap (snd (Queue_enqueue lp cap q x))
    \<and> Queue_contents cap (snd (Queue_enqueue lp cap q x)) = Queue_contents cap q"
  using assms
  by (auto simp: Queue_enqueue_def Queue_enqueueImpl_def Queue_isFull_def Queue_invar_def)

lemma Queue_dequeue_nonempty:
  assumes "Queue_invar cap q" and "Queue_contents cap q = y # ys"
  shows "fst (Queue_dequeue lp cap q) = Some y \<and> Queue_invar cap (snd (Queue_dequeue lp cap q))
    \<and> Queue_contents cap (snd (Queue_dequeue lp cap q)) = ys"
  using Queue_dequeueImpl_nonempty [of cap "q\<lparr>q_lock := lock lp (q_lock q)\<rparr>" y ys] assms
  by (auto simp: Queue_dequeue_def split: prod.splits)

lemma Queue_dequeue_empty:
  assumes "Queue_invar cap q" and "Queue_contents cap q = []"
  shows "fst (Queue_dequeue lp cap q) = None \<and> Queue_invar cap (snd (Queue_dequeue lp cap q))
    \<and> Queue_contents cap (snd (Queue_dequeue lp cap q)) = []"
proof -
  have "q_size q = 0"
    using arg_cong [OF assms(2), of length] by (simp add: unat_eq_0)
  with assms show ?thesis
    by (simp add: Queue_dequeue_def Queue_dequeueImpl_def Queue_isEmpty_def)
qed

interpretation queue_fifo:
  bounded_fifo "Queue_enqueue lp cap" "Queue_dequeue lp cap" "Queue_contents cap"
    "Queue_invar cap" cap
  for lp :: "'l lock_policy" and cap
proof (unfold_locales, goal_cases)
  case (1 q x)
  then show ?case by (rule Queue_enqueue_room)
next
  case (2 q x)
  then show ?case by (rule Queue_enqueue_full)
next
  case (3 q y ys)
  then show ?case by (rule Queue_dequeue_nonempty)
next
  case (4 q)
  then show ?case by (rule Queue_dequeue_empty)
next
  case (5 q)
  then show ?case by (simp add: Queue_invar_def)
qed

subsection \<open>RingBuffer\<close>

text \<open>
  \<^verbatim>\<open>RingBuffer<T, kCapacity, IndexType>\<close>: \<open>kCapacity + 1\<close> slots and two indices of the
  unsigned type \<open>IndexType\<close> (\<open>'i word\<close>); one slot stays free so that equal indices mean
  empty.
\<close>

record ('a, 'index) RingBuffer =
  rb_buffer :: "'a list"
  rb_write_index :: 'index
  rb_read_index :: 'index

definition RingBuffer_init :: "nat \<Rightarrow> 'a \<Rightarrow> ('a, 'i::len word) RingBuffer" where
  "RingBuffer_init cap dflt =
     \<lparr>rb_buffer = replicate (cap + 1) dflt, rb_write_index = 0, rb_read_index = 0\<rparr>"

definition RingBuffer_increment :: "nat \<Rightarrow> 'i::len word \<Rightarrow> 'i word" where
  "RingBuffer_increment cap index = (if unat index = cap then 0 else index + 1)"

definition RingBuffer_isEmpty :: "('a, 'i::len word) RingBuffer \<Rightarrow> bool" where
  "RingBuffer_isEmpty rb = (rb_write_index rb = rb_read_index rb)"

definition RingBuffer_isFull :: "nat \<Rightarrow> ('a, 'i::len word) RingBuffer \<Rightarrow> bool" where
  "RingBuffer_isFull cap rb = (RingBuffer_increment cap (rb_write_index rb) = rb_read_index rb)"

definition RingBuffer_size :: "nat \<Rightarrow> ('a, 'i::len word) RingBuffer \<Rightarrow> 'i word" where
  "RingBuffer_size cap rb =
     (let writer = rb_write_index rb; reader = rb_read_index rb
      in if reader \<le> writer then writer - reader
         else word_of_int ((int cap + 1 - uint reader) + uint writer))"

definition RingBuffer_enqueue ::
  "nat \<Rightarrow> ('a, 'i::len word) RingBuffer \<Rightarrow> 'a \<Rightarrow> bool \<times> ('a, 'i word) RingBuffer" where
  "RingBuffer_enqueue cap rb item =
     (if RingBuffer_isFull cap rb then (False, rb)
      else (True, rb\<lparr>rb_buffer := (rb_buffer rb)[unat (rb_write_index rb) := item],
                     rb_write_index := RingBuffer_increment cap (rb_write_index rb)\<rparr>))"

fun RingBuffer_enqueue_span ::
  "nat \<Rightarrow> ('a, 'i::len word) RingBuffer \<Rightarrow> 'a list \<Rightarrow> bool \<times> ('a, 'i word) RingBuffer" where
  "RingBuffer_enqueue_span cap rb [] = (True, rb)"
| "RingBuffer_enqueue_span cap rb (item # items) =
     (case RingBuffer_enqueue cap rb item of
        (False, rb1) \<Rightarrow> (False, rb1)
      | (True, rb1) \<Rightarrow> RingBuffer_enqueue_span cap rb1 items)"

definition RingBuffer_dequeue ::
  "nat \<Rightarrow> ('a, 'i::len word) RingBuffer \<Rightarrow> 'a option \<times> ('a, 'i word) RingBuffer" where
  "RingBuffer_dequeue cap rb =
     (if RingBuffer_isEmpty rb then (None, rb)
      else (Some (rb_buffer rb ! unat (rb_read_index rb)),
            rb\<lparr>rb_read_index := RingBuffer_increment cap (rb_read_index rb)\<rparr>))"

text \<open>
  The span form of \<^verbatim>\<open>dequeue\<close> fills an output of \<open>n\<close> slots and answers how many it
  filled; the model answers the list of items written.  \<^verbatim>\<open>clear\<close> dequeues until the
  buffer is empty; a loop, so the model answers an option.
\<close>

fun RingBuffer_dequeue_span ::
  "nat \<Rightarrow> ('a, 'i::len word) RingBuffer \<Rightarrow> nat \<Rightarrow> 'a list \<times> ('a, 'i word) RingBuffer" where
  "RingBuffer_dequeue_span cap rb 0 = ([], rb)"
| "RingBuffer_dequeue_span cap rb (Suc n) =
     (case RingBuffer_dequeue cap rb of
        (None, rb1) \<Rightarrow> ([], rb1)
      | (Some x, rb1) \<Rightarrow> (let (xs, rb2) = RingBuffer_dequeue_span cap rb1 n in (x # xs, rb2)))"

definition RingBuffer_peek :: "('a, 'i::len word) RingBuffer \<Rightarrow> 'a option" where
  "RingBuffer_peek rb =
     (if RingBuffer_isEmpty rb then None else Some (rb_buffer rb ! unat (rb_read_index rb)))"

partial_function (option) RingBuffer_clear ::
  "nat \<Rightarrow> ('a, 'i::len word) RingBuffer \<Rightarrow> ('a, 'i word) RingBuffer option" where
  "RingBuffer_clear cap rb =
     (if RingBuffer_isEmpty rb then Some rb
      else RingBuffer_clear cap (snd (RingBuffer_dequeue cap rb)))"

definition RingBuffer_count :: "nat \<Rightarrow> ('a, 'i::len word) RingBuffer \<Rightarrow> nat" where
  "RingBuffer_count cap rb =
     (unat (rb_write_index rb) + (cap + 1) - unat (rb_read_index rb)) mod (cap + 1)"

definition RingBuffer_invar :: "nat \<Rightarrow> ('a, 'i::len word) RingBuffer \<Rightarrow> bool" where
  "RingBuffer_invar cap rb \<longleftrightarrow> 0 < cap \<and> cap < 2 ^ LENGTH('i)
     \<and> length (rb_buffer rb) = cap + 1
     \<and> unat (rb_write_index rb) \<le> cap \<and> unat (rb_read_index rb) \<le> cap"

definition RingBuffer_contents :: "nat \<Rightarrow> ('a, 'i::len word) RingBuffer \<Rightarrow> 'a list" where
  "RingBuffer_contents cap rb =
     ring_list (rb_buffer rb) (cap + 1) (unat (rb_read_index rb)) (RingBuffer_count cap rb)"

lemma RingBuffer_length_contents [simp]:
  "length (RingBuffer_contents cap rb) = RingBuffer_count cap rb"
  by (simp add: RingBuffer_contents_def)

lemma RingBuffer_init_invar [ws_invars]:
  "0 < cap \<Longrightarrow> cap < 2 ^ LENGTH('i) \<Longrightarrow>
     RingBuffer_invar cap (RingBuffer_init cap d :: ('a, 'i::len word) RingBuffer)"
  by (simp add: RingBuffer_invar_def RingBuffer_init_def)

lemma unat_RingBuffer_increment:
  fixes i :: "'i::len word"
  assumes "unat i \<le> cap" and "cap < 2 ^ LENGTH('i)"
  shows "unat (RingBuffer_increment cap i) = (unat i + 1) mod (cap + 1)"
proof (cases "unat i = cap")
  case True
  then show ?thesis by (simp add: RingBuffer_increment_def)
next
  case False
  then have "unat (i + 1) = unat i + 1"
    using assms by (simp add: unat_word_ariths)
  with False assms(1) show ?thesis by (simp add: RingBuffer_increment_def)
qed

text \<open>Arithmetic of the two indices of a ring of \<open>m\<close> slots.\<close>

lemma ring_count_cases:
  fixes w r m :: nat
  assumes "w < m" and "r < m"
  shows "(w + m - r) mod m = (if r \<le> w then w - r else w + m - r)"
  using assms by (auto simp: mod_if)

lemma ring_count_incr_write:
  fixes w r m :: nat
  assumes "w < m" and "r < m" and "(w + 1) mod m \<noteq> r"
  shows "((w + 1) mod m + m - r) mod m = Suc ((w + m - r) mod m)"
  using assms by (auto simp: mod_if split: if_splits)

lemma ring_count_incr_read:
  fixes w r m :: nat
  assumes "w < m" and "r < m" and "w \<noteq> r"
  shows "(w + m - r) mod m = Suc ((w + m - (r + 1) mod m) mod m)"
  using assms by (auto simp: mod_if split: if_splits)

lemma ring_write_pos:
  fixes w r m :: nat
  assumes "w < m" and "r < m"
  shows "(r + (w + m - r) mod m) mod m = w"
  using assms by (auto simp: mod_if split: if_splits)

lemma RingBuffer_isFull_iff:
  assumes "RingBuffer_invar cap rb"
  shows "RingBuffer_isFull cap rb \<longleftrightarrow> RingBuffer_count cap rb = cap"
proof -
  let ?w = "unat (rb_write_index rb)" and ?r = "unat (rb_read_index rb)"
  have b: "?w < cap + 1" "?r < cap + 1"
    using assms by (auto simp: RingBuffer_invar_def)
  have "RingBuffer_isFull cap rb \<longleftrightarrow> (?w + 1) mod (cap + 1) = ?r"
    unfolding RingBuffer_isFull_def unat_eq_iff [symmetric]
    using assms unat_RingBuffer_increment [of "rb_write_index rb" cap]
    by (auto simp: RingBuffer_invar_def)
  also have "\<dots> \<longleftrightarrow> (?w + (cap + 1) - ?r) mod (cap + 1) = cap"
    unfolding ring_count_cases [OF b] using b by (auto simp: mod_if)
  finally show ?thesis by (simp add: RingBuffer_count_def)
qed

lemma RingBuffer_isEmpty_iff:
  assumes "RingBuffer_invar cap rb"
  shows "RingBuffer_isEmpty rb \<longleftrightarrow> RingBuffer_count cap rb = 0"
proof -
  let ?w = "unat (rb_write_index rb)" and ?r = "unat (rb_read_index rb)"
  have b: "?w < cap + 1" "?r < cap + 1"
    using assms by (auto simp: RingBuffer_invar_def)
  have "RingBuffer_isEmpty rb \<longleftrightarrow> ?w = ?r"
    by (simp add: RingBuffer_isEmpty_def unat_eq_iff)
  then show ?thesis
    unfolding RingBuffer_count_def ring_count_cases [OF b] using b by auto
qed

lemma RingBuffer_bounds:
  assumes "RingBuffer_invar cap rb"
  shows "unat (rb_write_index rb) < cap + 1" and "unat (rb_read_index rb) < cap + 1"
  using assms by (auto simp: RingBuffer_invar_def)

lemma RingBuffer_count_le: "RingBuffer_count cap rb \<le> cap"
  by (simp add: RingBuffer_count_def less_Suc_eq_le [symmetric])

lemma RingBuffer_incr_index:
  fixes rb :: "('a, 'i::len word) RingBuffer"
  assumes "RingBuffer_invar cap rb"
  shows "unat (RingBuffer_increment cap (rb_write_index rb)) = (unat (rb_write_index rb) + 1) mod (cap + 1)"
    and "unat (RingBuffer_increment cap (rb_read_index rb)) = (unat (rb_read_index rb) + 1) mod (cap + 1)"
  using assms unat_RingBuffer_increment [of "rb_write_index rb" cap]
    unat_RingBuffer_increment [of "rb_read_index rb" cap]
  by (simp_all add: RingBuffer_invar_def)

text \<open>Publishing the slot at the write index, once its item is stored, appends the item.\<close>

lemma RingBuffer_publish:
  assumes inv: "RingBuffer_invar cap rb" and room: "RingBuffer_count cap rb < cap"
    and stored: "rb_buffer rb ! unat (rb_write_index rb) = x"
  defines "rb' \<equiv> rb\<lparr>rb_write_index := RingBuffer_increment cap (rb_write_index rb)\<rparr>"
  shows "RingBuffer_invar cap rb'" and "RingBuffer_count cap rb' = Suc (RingBuffer_count cap rb)"
    and "RingBuffer_contents cap rb' = RingBuffer_contents cap rb @ [x]"
proof -
  let ?w = "unat (rb_write_index rb)" and ?r = "unat (rb_read_index rb)" and ?m = "cap + 1"
  let ?n = "RingBuffer_count cap rb"
  note b = RingBuffer_bounds [OF inv] and i = RingBuffer_incr_index(1) [OF inv]
  have "\<not> RingBuffer_isFull cap rb"
    using RingBuffer_isFull_iff [OF inv] room by simp
  then have nf: "(?w + 1) mod ?m \<noteq> ?r"
    unfolding RingBuffer_isFull_def unat_eq_iff [symmetric] i .
  show c: "RingBuffer_count cap rb' = Suc ?n"
    using ring_count_incr_write [OF b nf] i by (simp add: rb'_def RingBuffer_count_def)
  show "RingBuffer_invar cap rb'"
    using inv i by (simp add: RingBuffer_invar_def rb'_def less_Suc_eq_le [symmetric])
  have pos: "(?r + ?n) mod ?m = ?w"
    using ring_write_pos [OF b] by (simp add: RingBuffer_count_def)
  have "rb_buffer rb = (rb_buffer rb)[(?r + ?n) mod ?m := x]"
    using stored pos by (metis list_update_id)
  moreover have "ring_list ((rb_buffer rb)[(?r + ?n) mod ?m := x]) ?m ?r (Suc ?n)
      = ring_list (rb_buffer rb) ?m ?r ?n @ [x]"
    by (rule ring_list_snoc) (use room inv in \<open>auto simp: RingBuffer_invar_def\<close>)
  ultimately have "ring_list (rb_buffer rb) ?m ?r (Suc ?n) = ring_list (rb_buffer rb) ?m ?r ?n @ [x]"
    by simp
  then show "RingBuffer_contents cap rb' = RingBuffer_contents cap rb @ [x]"
    using c by (simp add: RingBuffer_contents_def rb'_def)
qed

text \<open>Storing an item in the free slot at the write index changes no visible element.\<close>

lemma RingBuffer_store_slot:
  fixes x :: 'a
  assumes inv: "RingBuffer_invar cap rb"
  defines "rb' \<equiv> rb\<lparr>rb_buffer := (rb_buffer rb)[unat (rb_write_index rb) := x]\<rparr>"
  shows "RingBuffer_invar cap rb'" and "RingBuffer_count cap rb' = RingBuffer_count cap rb"
    and "RingBuffer_contents cap rb' = RingBuffer_contents cap rb"
    and "rb_buffer rb' ! unat (rb_write_index rb') = x"
proof -
  let ?w = "unat (rb_write_index rb)" and ?r = "unat (rb_read_index rb)" and ?m = "cap + 1"
  note b = RingBuffer_bounds [OF inv]
  show "RingBuffer_invar cap rb'" and c: "RingBuffer_count cap rb' = RingBuffer_count cap rb"
    using inv by (simp_all add: RingBuffer_invar_def RingBuffer_count_def rb'_def)
  show "rb_buffer rb' ! unat (rb_write_index rb') = x"
    using inv b by (simp add: rb'_def RingBuffer_invar_def)
  have "(?r + j) mod ?m \<noteq> ?w" if "j < RingBuffer_count cap rb" for j
  proof -
    have "(?r + RingBuffer_count cap rb) mod ?m = ?w"
      using ring_write_pos [OF b] by (simp add: RingBuffer_count_def)
    with that show ?thesis
      using ring_index_inj [of ?r j ?m "RingBuffer_count cap rb"] RingBuffer_count_le [of cap rb]
      by auto
  qed
  then show "RingBuffer_contents cap rb' = RingBuffer_contents cap rb"
    using c by (auto simp: RingBuffer_contents_def ring_list_def rb'_def nth_list_update_neq
        [OF not_sym])
qed

text \<open>Advancing the read index drops the head, which is the item in the slot it left.\<close>

lemma RingBuffer_release:
  assumes inv: "RingBuffer_invar cap rb" and ne: "0 < RingBuffer_count cap rb"
  defines "rb' \<equiv> rb\<lparr>rb_read_index := RingBuffer_increment cap (rb_read_index rb)\<rparr>"
  shows "RingBuffer_invar cap rb'" and "Suc (RingBuffer_count cap rb') = RingBuffer_count cap rb"
    and "RingBuffer_contents cap rb
      = rb_buffer rb ! unat (rb_read_index rb) # RingBuffer_contents cap rb'"
proof -
  let ?w = "unat (rb_write_index rb)" and ?r = "unat (rb_read_index rb)" and ?m = "cap + 1"
  note b = RingBuffer_bounds [OF inv] and i = RingBuffer_incr_index(2) [OF inv]
  have "?w \<noteq> ?r"
    using RingBuffer_isEmpty_iff [OF inv] ne by (auto simp: RingBuffer_isEmpty_def unat_eq_iff)
  then show c: "Suc (RingBuffer_count cap rb') = RingBuffer_count cap rb"
    using ring_count_incr_read [OF b] i by (simp add: rb'_def RingBuffer_count_def)
  show "RingBuffer_invar cap rb'"
    using inv i by (simp add: RingBuffer_invar_def rb'_def less_Suc_eq_le [symmetric])
  show "RingBuffer_contents cap rb
      = rb_buffer rb ! unat (rb_read_index rb) # RingBuffer_contents cap rb'"
    unfolding RingBuffer_contents_def c [symmetric] ring_list_Cons
    using b i by (simp add: rb'_def)
qed

lemma RingBuffer_enqueue_room:
  assumes inv: "RingBuffer_invar cap rb" and room: "length (RingBuffer_contents cap rb) < cap"
  shows "fst (RingBuffer_enqueue cap rb x) \<and> RingBuffer_invar cap (snd (RingBuffer_enqueue cap rb x))
    \<and> RingBuffer_contents cap (snd (RingBuffer_enqueue cap rb x)) = RingBuffer_contents cap rb @ [x]"
proof -
  let ?rb1 = "rb\<lparr>rb_buffer := (rb_buffer rb)[unat (rb_write_index rb) := x]\<rparr>"
  note s = RingBuffer_store_slot [OF inv, of x]
  have "RingBuffer_count cap ?rb1 < cap" using room s(2) by simp
  from RingBuffer_publish [OF s(1) this s(4)] s(3) room show ?thesis
    by (simp add: RingBuffer_enqueue_def RingBuffer_isFull_iff [OF inv])
qed

lemma RingBuffer_dequeue_nonempty:
  assumes inv: "RingBuffer_invar cap rb" and ne: "RingBuffer_contents cap rb = y # ys"
  shows "fst (RingBuffer_dequeue cap rb) = Some y
    \<and> RingBuffer_invar cap (snd (RingBuffer_dequeue cap rb))
    \<and> RingBuffer_contents cap (snd (RingBuffer_dequeue cap rb)) = ys"
proof -
  have c: "0 < RingBuffer_count cap rb"
    using arg_cong [OF ne, of length] by simp
  from RingBuffer_release [OF inv c] ne c show ?thesis
    by (simp add: RingBuffer_dequeue_def RingBuffer_isEmpty_iff [OF inv])
qed

interpretation ring_fifo:
  bounded_fifo "RingBuffer_enqueue cap" "RingBuffer_dequeue cap" "RingBuffer_contents cap"
    "RingBuffer_invar cap" cap
  for cap
proof (unfold_locales, goal_cases)
  case (1 q x)
  then show ?case by (rule RingBuffer_enqueue_room)
next
  case (2 q x)
  then show ?case
    using RingBuffer_isFull_iff [of cap q] RingBuffer_count_le [of cap q]
    by (simp add: RingBuffer_enqueue_def)
next
  case (3 q y ys)
  then show ?case by (rule RingBuffer_dequeue_nonempty)
next
  case (4 q)
  then have "RingBuffer_count cap q = 0"
    by (metis RingBuffer_length_contents list.size(3))
  with 4 show ?case
    by (simp add: RingBuffer_dequeue_def RingBuffer_isEmpty_iff)
next
  case (5 q)
  then show ?case by (simp add: RingBuffer_count_le)
qed

subsection \<open>Properties of the containers\<close>

lemma RingBuffer_size_count:
  fixes rb :: "('a, 'i::len word) RingBuffer"
  assumes inv: "RingBuffer_invar cap rb"
  shows "unat (RingBuffer_size cap rb) = length (RingBuffer_contents cap rb)"
proof -
  let ?w = "unat (rb_write_index rb)" and ?r = "unat (rb_read_index rb)"
  note b = RingBuffer_bounds [OF inv]
  have c: "cap < 2 ^ LENGTH('i)" using inv by (simp add: RingBuffer_invar_def)
  show ?thesis
  proof (cases "?r \<le> ?w")
    case True
    then show ?thesis
      using ring_count_cases [OF b]
      by (simp add: RingBuffer_size_def RingBuffer_count_def word_le_nat_alt unat_sub_le)
  next
    case False
    have "(int cap + 1 - uint (rb_read_index rb)) + uint (rb_write_index rb) = int (?w + (cap + 1) - ?r)"
      using b by (simp add: of_nat_diff)
    then have "RingBuffer_size cap rb = word_of_nat (?w + (cap + 1) - ?r)"
      using False by (simp add: RingBuffer_size_def word_le_nat_alt Let_def)
    moreover have "?w + (cap + 1) - ?r < 2 ^ LENGTH('i)"
      using False c by linarith
    ultimately show ?thesis
      using ring_count_cases [OF b] False
      by (simp add: RingBuffer_count_def unat_of_nat take_bit_nat_eq_self)
  qed
qed

lemma RingBuffer_clear_returns:
  assumes "RingBuffer_invar cap rb"
  shows "\<exists>rb'. RingBuffer_clear cap rb = Some rb' \<and> RingBuffer_invar cap rb'
    \<and> RingBuffer_contents cap rb' = []"
  using assms
proof (induction "length (RingBuffer_contents cap rb)" arbitrary: rb)
  case 0
  then have "RingBuffer_isEmpty rb"
    by (simp add: RingBuffer_isEmpty_iff)
  moreover have "RingBuffer_contents cap rb = []"
    using "0.hyps" by (metis length_0_conv)
  ultimately show ?case
    using "0.prems" by (subst RingBuffer_clear.simps) simp
next
  case (Suc n)
  then obtain y ys where ys: "RingBuffer_contents cap rb = y # ys"
    by (metis length_Suc_conv)
  note d = RingBuffer_dequeue_nonempty [OF Suc.prems ys]
  have "\<not> RingBuffer_isEmpty rb"
    using Suc by (simp add: RingBuffer_isEmpty_iff)
  then have "RingBuffer_clear cap rb = RingBuffer_clear cap (snd (RingBuffer_dequeue cap rb))"
    by (subst RingBuffer_clear.simps) simp
  with Suc.hyps(1) [of "snd (RingBuffer_dequeue cap rb)"] d ys Suc.hyps(2) show ?case
    by (simp del: RingBuffer_length_contents)
qed

lemma RingBuffer_enqueue_span_ok:
  assumes "RingBuffer_invar cap rb"
    and "length (RingBuffer_contents cap rb) + length xs \<le> cap"
  shows "fst (RingBuffer_enqueue_span cap rb xs)
    \<and> RingBuffer_invar cap (snd (RingBuffer_enqueue_span cap rb xs))
    \<and> RingBuffer_contents cap (snd (RingBuffer_enqueue_span cap rb xs))
        = RingBuffer_contents cap rb @ xs"
  using assms
proof (induction xs arbitrary: rb)
  case Nil
  then show ?case by simp
next
  case (Cons x xs)
  then have e: "length (RingBuffer_contents cap rb) < cap" by simp
  obtain rb1 where rb1: "RingBuffer_enqueue cap rb x = (True, rb1)" "RingBuffer_invar cap rb1"
    "RingBuffer_contents cap rb1 = RingBuffer_contents cap rb @ [x]"
    using RingBuffer_enqueue_room [OF Cons.prems(1) e, of x]
    by (cases "RingBuffer_enqueue cap rb x") auto
  have "length (RingBuffer_contents cap rb1) + length xs \<le> cap"
    using Cons.prems(2) unfolding rb1(3) by simp
  from Cons.IH [OF rb1(2) this] rb1 show ?case by simp
qed

lemma RingBuffer_dequeue_span_ok:
  assumes "RingBuffer_invar cap rb"
  shows "fst (RingBuffer_dequeue_span cap rb n) = take n (RingBuffer_contents cap rb)
    \<and> RingBuffer_invar cap (snd (RingBuffer_dequeue_span cap rb n))
    \<and> RingBuffer_contents cap (snd (RingBuffer_dequeue_span cap rb n))
        = drop n (RingBuffer_contents cap rb)"
  using assms
proof (induction n arbitrary: rb)
  case 0
  then show ?case by simp
next
  case (Suc n)
  show ?case
  proof (cases "RingBuffer_contents cap rb")
    case Nil
    with ring_fifo.deq_empty [OF Suc.prems Nil] show ?thesis
      by (auto split: prod.splits option.splits)
  next
    case (Cons y ys)
    note d = RingBuffer_dequeue_nonempty [OF Suc.prems Cons]
    with Suc.IH [of "snd (RingBuffer_dequeue cap rb)"] Cons show ?thesis
      by (auto split: prod.splits option.splits)
  qed
qed

lemma RingBuffer_peek_dequeue:
  "RingBuffer_peek rb = fst (RingBuffer_dequeue cap rb)"
  by (simp add: RingBuffer_peek_def RingBuffer_dequeue_def)

end
