(* ===== verification/Spsc.thy ===== *)
theory Spsc
  imports Containers
begin

section \<open>The ring buffer under one producer and one consumer\<close>

text \<open>
  \<^verbatim>\<open>ring_buffer.h\<close> promises a FIFO that is thread-safe for one producer and one
  consumer, with sequentially consistent atomic indices and an unprotected array.  Here
  \<open>enqueue\<close> and \<open>dequeue\<close> are cut at their accesses of shared memory and the two threads
  interleave: the producer tests for room, stores into the array, then publishes the new
  write index; the consumer tests for an element, reads the array, then publishes the
  new read index.  The ghost fields record the items whose \<open>enqueue\<close> and \<open>dequeue\<close>
  have taken effect.
\<close>

datatype 'a producer_pc = PIdle | PStore 'a | PPublish 'a

datatype 'a consumer_pc = CIdle | CLoad | CRelease 'a

record ('a, 'index) spsc =
  sp_ring :: "('a, 'index) RingBuffer"
  sp_producer :: "'a producer_pc"
  sp_consumer :: "'a consumer_pc"
  sp_enqueued :: "'a list"
  sp_dequeued :: "'a list"

definition spsc_init :: "nat \<Rightarrow> 'a \<Rightarrow> ('a, 'i::len word) spsc" where
  "spsc_init cap dflt = \<lparr>sp_ring = RingBuffer_init cap dflt, sp_producer = PIdle,
     sp_consumer = CIdle, sp_enqueued = [], sp_dequeued = []\<rparr>"

inductive spsc_step :: "nat \<Rightarrow> ('a, 'i::len word) spsc \<Rightarrow> ('a, 'i word) spsc \<Rightarrow> bool" for cap where
  enqueue_full: "sp_producer s = PIdle \<Longrightarrow> RingBuffer_isFull cap (sp_ring s) \<Longrightarrow>
     spsc_step cap s s"
| enqueue_room: "sp_producer s = PIdle \<Longrightarrow> \<not> RingBuffer_isFull cap (sp_ring s) \<Longrightarrow>
     spsc_step cap s (s\<lparr>sp_producer := PStore item\<rparr>)"
| enqueue_store: "sp_producer s = PStore item \<Longrightarrow> rb = sp_ring s \<Longrightarrow>
     spsc_step cap s (s\<lparr>sp_producer := PPublish item,
       sp_ring := rb\<lparr>rb_buffer := (rb_buffer rb)[unat (rb_write_index rb) := item]\<rparr>\<rparr>)"
| enqueue_publish: "sp_producer s = PPublish item \<Longrightarrow> rb = sp_ring s \<Longrightarrow>
     spsc_step cap s (s\<lparr>sp_producer := PIdle,
       sp_ring := rb\<lparr>rb_write_index := RingBuffer_increment cap (rb_write_index rb)\<rparr>,
       sp_enqueued := sp_enqueued s @ [item]\<rparr>)"
| dequeue_empty: "sp_consumer s = CIdle \<Longrightarrow> RingBuffer_isEmpty (sp_ring s) \<Longrightarrow>
     spsc_step cap s s"
| dequeue_item: "sp_consumer s = CIdle \<Longrightarrow> \<not> RingBuffer_isEmpty (sp_ring s) \<Longrightarrow>
     spsc_step cap s (s\<lparr>sp_consumer := CLoad\<rparr>)"
| dequeue_load: "sp_consumer s = CLoad \<Longrightarrow> rb = sp_ring s \<Longrightarrow>
     spsc_step cap s (s\<lparr>sp_consumer := CRelease (rb_buffer rb ! unat (rb_read_index rb))\<rparr>)"
| dequeue_release: "sp_consumer s = CRelease item \<Longrightarrow> rb = sp_ring s \<Longrightarrow>
     spsc_step cap s (s\<lparr>sp_consumer := CIdle,
       sp_ring := rb\<lparr>rb_read_index := RingBuffer_increment cap (rb_read_index rb)\<rparr>,
       sp_dequeued := sp_dequeued s @ [item]\<rparr>)"

inductive spsc_reachable :: "nat \<Rightarrow> 'a \<Rightarrow> ('a, 'i::len word) spsc \<Rightarrow> bool" for cap dflt where
  start: "spsc_reachable cap dflt (spsc_init cap dflt)"
| step: "spsc_reachable cap dflt s \<Longrightarrow> spsc_step cap s t \<Longrightarrow> spsc_reachable cap dflt t"

text \<open>
  What holds at every interleaving point: the items taken out followed by the items
  stored are the items put in; a producer past its test still has room and a consumer
  past its test still has an element, whatever the other thread did meanwhile.
\<close>

definition producer_ok :: "nat \<Rightarrow> ('a, 'i::len word) spsc \<Rightarrow> bool" where
  "producer_ok cap s = (case sp_producer s of PIdle \<Rightarrow> True
     | PStore item \<Rightarrow> RingBuffer_count cap (sp_ring s) < cap
     | PPublish item \<Rightarrow> RingBuffer_count cap (sp_ring s) < cap
         \<and> rb_buffer (sp_ring s) ! unat (rb_write_index (sp_ring s)) = item)"

definition consumer_ok :: "nat \<Rightarrow> ('a, 'i::len word) spsc \<Rightarrow> bool" where
  "consumer_ok cap s = (case sp_consumer s of CIdle \<Rightarrow> True
     | CLoad \<Rightarrow> 0 < RingBuffer_count cap (sp_ring s)
     | CRelease item \<Rightarrow> 0 < RingBuffer_count cap (sp_ring s)
         \<and> rb_buffer (sp_ring s) ! unat (rb_read_index (sp_ring s)) = item)"

definition spsc_invar :: "nat \<Rightarrow> ('a, 'i::len word) spsc \<Rightarrow> bool" where
  "spsc_invar cap s \<longleftrightarrow> RingBuffer_invar cap (sp_ring s) \<and> producer_ok cap s \<and> consumer_ok cap s
     \<and> sp_enqueued s = sp_dequeued s @ RingBuffer_contents cap (sp_ring s)"

lemma spsc_invar_init:
  "0 < cap \<Longrightarrow> cap < 2 ^ LENGTH('i) \<Longrightarrow> spsc_invar cap (spsc_init cap d :: ('a, 'i::len word) spsc)"
  by (simp add: spsc_invar_def spsc_init_def RingBuffer_invar_def producer_ok_def consumer_ok_def
      RingBuffer_contents_def RingBuffer_count_def RingBuffer_init_def)

text \<open>The slot being filled is not the slot being emptied.\<close>

lemma RingBuffer_slots_distinct:
  assumes "RingBuffer_invar cap rb" and "0 < RingBuffer_count cap rb"
  shows "unat (rb_write_index rb) \<noteq> unat (rb_read_index rb)"
  using RingBuffer_isEmpty_iff [OF assms(1)] assms(2)
  by (auto simp: RingBuffer_isEmpty_def unat_eq_iff)

lemma spsc_store_invar:
  assumes "spsc_invar cap s" and "sp_producer s = PStore item"
  shows "spsc_invar cap (s\<lparr>sp_producer := PPublish item,
    sp_ring := (sp_ring s)\<lparr>rb_buffer := (rb_buffer (sp_ring s))[unat (rb_write_index (sp_ring s)) := item]\<rparr>\<rparr>)"
proof -
  from assms have inv: "RingBuffer_invar cap (sp_ring s)"
    and room: "RingBuffer_count cap (sp_ring s) < cap"
    by (auto simp: spsc_invar_def producer_ok_def)
  note st = RingBuffer_store_slot [OF inv, of item]
  have "consumer_ok cap (s\<lparr>sp_ring := (sp_ring s)\<lparr>rb_buffer :=
      (rb_buffer (sp_ring s))[unat (rb_write_index (sp_ring s)) := item]\<rparr>\<rparr>)"
    using assms(1) st(2) RingBuffer_slots_distinct [OF inv]
    by (auto simp: consumer_ok_def spsc_invar_def nth_list_update_neq split: consumer_pc.splits)
  then show ?thesis
    using assms st room
    by (simp add: spsc_invar_def producer_ok_def) (simp add: consumer_ok_def split: consumer_pc.splits)
qed

lemma spsc_publish_invar:
  assumes "spsc_invar cap s" and "sp_producer s = PPublish item"
  shows "spsc_invar cap (s\<lparr>sp_producer := PIdle,
    sp_ring := (sp_ring s)\<lparr>rb_write_index := RingBuffer_increment cap (rb_write_index (sp_ring s))\<rparr>,
    sp_enqueued := sp_enqueued s @ [item]\<rparr>)"
proof -
  from assms have inv: "RingBuffer_invar cap (sp_ring s)"
    and room: "RingBuffer_count cap (sp_ring s) < cap"
    and st: "rb_buffer (sp_ring s) ! unat (rb_write_index (sp_ring s)) = item"
    by (auto simp: spsc_invar_def producer_ok_def)
  from RingBuffer_publish [OF inv room st] assms show ?thesis
    by (auto simp: spsc_invar_def producer_ok_def consumer_ok_def split: consumer_pc.splits)
qed

lemma spsc_release_invar:
  assumes "spsc_invar cap s" and "sp_consumer s = CRelease item"
  shows "spsc_invar cap (s\<lparr>sp_consumer := CIdle,
    sp_ring := (sp_ring s)\<lparr>rb_read_index := RingBuffer_increment cap (rb_read_index (sp_ring s))\<rparr>,
    sp_dequeued := sp_dequeued s @ [item]\<rparr>)"
proof -
  from assms have inv: "RingBuffer_invar cap (sp_ring s)"
    and ne: "0 < RingBuffer_count cap (sp_ring s)"
    and it: "rb_buffer (sp_ring s) ! unat (rb_read_index (sp_ring s)) = item"
    by (auto simp: spsc_invar_def consumer_ok_def)
  from RingBuffer_release [OF inv ne] assms it show ?thesis
    by (auto simp: spsc_invar_def producer_ok_def consumer_ok_def split: producer_pc.splits)
qed

lemma spsc_step_invar [ws_invars]:
  assumes "spsc_step cap s t" and "spsc_invar cap s"
  shows "spsc_invar cap t"
  using assms
proof (induction rule: spsc_step.induct)
  case (enqueue_room s item)
  then show ?case
    using RingBuffer_isFull_iff [of cap "sp_ring s"] RingBuffer_count_le [of cap "sp_ring s"]
    by (auto simp: spsc_invar_def producer_ok_def consumer_ok_def split: consumer_pc.splits)
next
  case (enqueue_store s item rb)
  from spsc_store_invar [OF enqueue_store.prems enqueue_store.hyps(1)] enqueue_store.hyps(2) show ?case by simp
next
  case (enqueue_publish s item rb)
  from spsc_publish_invar [OF enqueue_publish.prems enqueue_publish.hyps(1)] enqueue_publish.hyps(2) show ?case by simp
next
  case (dequeue_item s)
  then show ?case
    using RingBuffer_isEmpty_iff [of cap "sp_ring s"]
    by (auto simp: spsc_invar_def producer_ok_def consumer_ok_def split: producer_pc.splits)
next
  case (dequeue_load s rb)
  then show ?case
    by (auto simp: spsc_invar_def producer_ok_def consumer_ok_def split: producer_pc.splits)
next
  case (dequeue_release s item rb)
  from spsc_release_invar [OF dequeue_release.prems dequeue_release.hyps(1)] dequeue_release.hyps(2) show ?case by simp
qed simp_all

lemma spsc_reachable_invar:
  fixes s :: "('a, 'i::len word) spsc"
  assumes "spsc_reachable cap dflt s" and "0 < cap" and "cap < 2 ^ LENGTH('i)"
  shows "spsc_invar cap s"
  using assms by (induction rule: spsc_reachable.induct) (auto intro: spsc_invar_init spsc_step_invar)

end
