(* ===== verification/Packet.thy ===== *)
theory Packet
  imports WS_Prelude
begin

section \<open>Packets\<close>

text \<open>
  \<^verbatim>\<open>core/packet.h\<close>, \<^verbatim>\<open>core/packet.cpp\<close> and \<^verbatim>\<open>core/ws_constants.h\<close>: identities, the packed
  six-byte header with its control byte, and the fixed-storage packet buffer.  One-field
  structs (\<^verbatim>\<open>HostId\<close>, \<^verbatim>\<open>WireNumber\<close>, \<^verbatim>\<open>EndpointAddress\<close>) are their field.  The bytes that
  follow a \<^verbatim>\<open>PacketBuffer\<close> object in memory are its field \<open>pb_storage\<close>, as many as its
  capacity.
\<close>

subsection \<open>Identities\<close>

type_synonym HostId = u8
type_synonym WireNumber = u8
type_synonym EndpointAddress = u16

definition kLocalWireValue :: u8 where
  "kLocalWireValue = 0x00"

definition kBroadcastHostValue :: u8 where
  "kBroadcastHostValue = 0xFF"

definition kDefaultEndpointStorageCapacity :: u16 where
  "kDefaultEndpointStorageCapacity = 64"

definition HostId_isBroadcast :: "HostId \<Rightarrow> bool" where
  "HostId_isBroadcast h = (h = kBroadcastHostValue)"

datatype QoS = kCritical | kHigh | kNormal | kBackground

fun QoS_value :: "QoS \<Rightarrow> u8" where
  "QoS_value kCritical = 0"
| "QoS_value kHigh = 1"
| "QoS_value kNormal = 2"
| "QoS_value kBackground = 3"

text \<open>\<^verbatim>\<open>static_cast<QoS>\<close> of a two-bit value.\<close>

definition QoS_of :: "u8 \<Rightarrow> QoS" where
  "QoS_of v = (if v = 0 then kCritical else if v = 1 then kHigh else if v = 2 then kNormal
     else kBackground)"

text \<open>
  \<^verbatim>\<open>TransportType\<close> keeps its underlying byte: the cast in \<^verbatim>\<open>Header::transportType\<close> also
  yields the values 3 to 7, which no enumerator names.
\<close>

type_synonym TransportType = u8

definition kSimple :: TransportType where
  "kSimple = 0"

definition kBits :: TransportType where
  "kBits = 1"

definition kNumTransportTypes :: TransportType where
  "kNumTransportTypes = 2"

datatype Namespace = kUser0 | kUser1 | kUser2 | kCommon

fun Namespace_value :: "Namespace \<Rightarrow> u16" where
  "Namespace_value kUser0 = 0"
| "Namespace_value kUser1 = 1"
| "Namespace_value kUser2 = 2"
| "Namespace_value kCommon = 3"

definition Namespace_of :: "u16 \<Rightarrow> Namespace" where
  "Namespace_of v = (if v = 0 then kUser0 else if v = 1 then kUser1 else if v = 2 then kUser2
     else kCommon)"

definition EndpointAddress_from :: "Namespace \<Rightarrow> u16 \<Rightarrow> EndpointAddress" where
  "EndpointAddress_from namespace_id endpoint_id =
     push_bit 14 (Namespace_value namespace_id) OR (endpoint_id AND 0x3FFF)"

definition EndpointAddress_namespaceId :: "EndpointAddress \<Rightarrow> Namespace" where
  "EndpointAddress_namespaceId e = Namespace_of (drop_bit 14 (e AND 0xC000))"

definition EndpointAddress_endpointId :: "EndpointAddress \<Rightarrow> u16" where
  "EndpointAddress_endpointId e = e AND 0x3FFF"

record ControlFields =
  cf_qos :: QoS
  cf_has_extensions :: bool
  cf_transport_type :: TransportType

definition ControlFields_simple :: "QoS \<Rightarrow> ControlFields" where
  "ControlFields_simple qos =
     \<lparr>cf_qos = qos, cf_has_extensions = False, cf_transport_type = kSimple\<rparr>"

definition ControlFields_bits :: "QoS \<Rightarrow> ControlFields" where
  "ControlFields_bits qos =
     \<lparr>cf_qos = qos, cf_has_extensions = False, cf_transport_type = kBits\<rparr>"

definition defaultControlFields :: ControlFields where
  "defaultControlFields = ControlFields_simple kNormal"

record ConnectionAddress =
  ca_wire :: WireNumber
  ca_local_host :: HostId
  ca_remote_host :: HostId
  ca_endpoint :: EndpointAddress

subsection \<open>Header\<close>

record Header =
  h_control :: u8
  h_wire :: WireNumber
  h_source :: HostId
  h_destination :: HostId
  h_endpoint :: EndpointAddress

definition Header_zero :: Header where
  "Header_zero = \<lparr>h_control = 0, h_wire = 0, h_source = 0, h_destination = 0, h_endpoint = 0\<rparr>"

definition hasSupportedControl :: "Header \<Rightarrow> bool" where
  "hasSupportedControl h = (h_control h AND 0x3F < kNumTransportTypes)"

definition Header_qos :: "Header \<Rightarrow> QoS" where
  "Header_qos h = QoS_of (drop_bit 6 (h_control h AND 0xC0))"

definition Header_hasExtensions :: "Header \<Rightarrow> bool" where
  "Header_hasExtensions h = (h_control h AND 0x08 \<noteq> 0)"

definition Header_transportType :: "Header \<Rightarrow> TransportType" where
  "Header_transportType h = h_control h AND 0x07"

definition setQoS :: "QoS \<Rightarrow> Header \<Rightarrow> Header" where
  "setQoS qos h = h\<lparr>h_control := (h_control h AND NOT 0xC0) OR push_bit 6 (QoS_value qos)\<rparr>"

definition setHasExtensions :: "bool \<Rightarrow> Header \<Rightarrow> Header" where
  "setHasExtensions has h =
     (if has then h\<lparr>h_control := h_control h OR 0x08\<rparr>
      else h\<lparr>h_control := h_control h AND NOT 0x08\<rparr>)"

definition setTransportType :: "TransportType \<Rightarrow> Header \<Rightarrow> Header" where
  "setTransportType t h = h\<lparr>h_control := (h_control h AND NOT 0x07) OR t\<rparr>"

definition setControlFields :: "ControlFields \<Rightarrow> Header \<Rightarrow> Header" where
  "setControlFields cf h =
     setTransportType (cf_transport_type cf)
       (setHasExtensions (cf_has_extensions cf) (setQoS (cf_qos cf) h))"

text \<open>
  The header is packed and the targets are little-endian, so the six bytes in memory are
  the control byte, the three identities and the endpoint, low byte first.
  \<open>header_of_bytes\<close> is the \<^verbatim>\<open>memcpy\<close> of six bytes over a header object.
\<close>

definition header_bytes :: "Header \<Rightarrow> bytes" where
  "header_bytes h = [h_control h, h_wire h, h_source h, h_destination h,
     lo8 (h_endpoint h), hi8 (h_endpoint h)]"

definition header_of_bytes :: "bytes \<Rightarrow> Header" where
  "header_of_bytes bs = \<lparr>h_control = bs ! 0, h_wire = bs ! 1, h_source = bs ! 2,
     h_destination = bs ! 3, h_endpoint = le16 (bs ! 4) (bs ! 5)\<rparr>"

lemma length_header_bytes [simp]: "length (header_bytes h) = 6"
  by (simp add: header_bytes_def)

lemma header_of_bytes_append [simp]: "header_of_bytes (header_bytes h @ bs) = h"
  by (simp add: header_of_bytes_def header_bytes_def)

subsection \<open>Packet buffer\<close>

record PacketBuffer =
  pb_capacity :: u16
  pb_size :: u16
  pb_ingress_index :: u8
  pb_header :: Header
  pb_storage :: bytes

text \<open>A buffer defined by \<^verbatim>\<open>WS_PACKET_BUFFER_DEFINE\<close>: zeroed storage of the capacity.\<close>

definition PacketBuffer_new :: "u16 \<Rightarrow> PacketBuffer" where
  "PacketBuffer_new capacity = \<lparr>pb_capacity = capacity, pb_size = 0, pb_ingress_index = 0,
     pb_header = Header_zero, pb_storage = replicate (unat capacity) 0\<rparr>"

definition totalSize :: "PacketBuffer \<Rightarrow> u16" where
  "totalSize p = pb_size p + 6"

definition setIngressIndex :: "u8 \<Rightarrow> PacketBuffer \<Rightarrow> PacketBuffer" where
  "setIngressIndex index p = p\<lparr>pb_ingress_index := index\<rparr>"

definition payload :: "PacketBuffer \<Rightarrow> bytes" where
  "payload p = take (unat (pb_size p)) (pb_storage p)"

definition headerAndPayload :: "PacketBuffer \<Rightarrow> bytes" where
  "headerAndPayload p = take (unat (totalSize p)) (header_bytes (pb_header p) @ pb_storage p)"

text \<open>A write through the mutable span of \<^verbatim>\<open>payload()\<close>, at an offset of the payload.\<close>

definition write_payload :: "nat \<Rightarrow> bytes \<Rightarrow> PacketBuffer \<Rightarrow> PacketBuffer" where
  "write_payload off bs p = p\<lparr>pb_storage := span_write off bs (pb_storage p)\<rparr>"

definition resize :: "u16 \<Rightarrow> PacketBuffer \<Rightarrow> bool \<times> PacketBuffer" where
  "resize new_size p = (if pb_capacity p < new_size then (False, p) else (True, p\<lparr>pb_size := new_size\<rparr>))"

text \<open>
  Copying a buffer onto itself is the identity either way, so the model needs no test of
  the two addresses (\<open>copyFrom_self\<close>).
\<close>

definition copyFrom :: "PacketBuffer \<Rightarrow> PacketBuffer \<Rightarrow> bool \<times> PacketBuffer" where
  "copyFrom source p =
     (if pb_capacity p < pb_size source then (False, p)
      else (True,
        (let p1 = p\<lparr>pb_header := pb_header source, pb_size := pb_size source,
                   pb_ingress_index := pb_ingress_index source\<rparr>
         in if 0 < pb_size p1 then write_payload 0 (payload source) p1 else p1)))"

definition initialize :: "u16 \<Rightarrow> ControlFields \<Rightarrow> PacketBuffer \<Rightarrow> bool \<times> PacketBuffer" where
  "initialize new_size cf p =
     (case resize new_size p of
        (False, p1) \<Rightarrow> (False, p1)
      | (True, p1) \<Rightarrow> (True, p1\<lparr>pb_header := setControlFields cf (pb_header p1),
                              pb_ingress_index := 0\<rparr>))"

definition initializeConnection ::
  "u16 \<Rightarrow> ConnectionAddress \<Rightarrow> ControlFields \<Rightarrow> PacketBuffer \<Rightarrow> bool \<times> PacketBuffer" where
  "initializeConnection new_size connection cf p =
     (case initialize new_size cf p of
        (False, p1) \<Rightarrow> (False, p1)
      | (True, p1) \<Rightarrow> (True, p1\<lparr>pb_header := (pb_header p1)\<lparr>h_wire := ca_wire connection,
           h_source := ca_local_host connection, h_destination := ca_remote_host connection,
           h_endpoint := ca_endpoint connection\<rparr>\<rparr>))"

definition initializeResponseTo ::
  "Header \<Rightarrow> u16 \<Rightarrow> ControlFields \<Rightarrow> PacketBuffer \<Rightarrow> bool \<times> PacketBuffer" where
  "initializeResponseTo request new_size cf p =
     (case initialize new_size cf p of
        (False, p1) \<Rightarrow> (False, p1)
      | (True, p1) \<Rightarrow> (True, p1\<lparr>pb_header := (pb_header p1)\<lparr>h_wire := h_wire request,
           h_source := h_destination request, h_destination := h_source request,
           h_endpoint := h_endpoint request\<rparr>\<rparr>))"

definition packet_invar :: "PacketBuffer \<Rightarrow> bool" where
  "packet_invar p \<longleftrightarrow> length (pb_storage p) = unat (pb_capacity p) \<and> pb_size p \<le> pb_capacity p"

subsection \<open>Lemmas on headers\<close>

lemma control_setControlFields:
  "h_control (setControlFields cf h) =
     ((((h_control h AND NOT 0xC0) OR push_bit 6 (QoS_value (cf_qos cf)))
       AND (if cf_has_extensions cf then -1 else NOT 0x08)
       OR (if cf_has_extensions cf then 0x08 else 0)) AND NOT 0x07) OR cf_transport_type cf"
  by (simp add: setControlFields_def setTransportType_def setHasExtensions_def setQoS_def)

lemma setControlFields_frame [simp]:
  "h_wire (setControlFields cf h) = h_wire h"
  "h_source (setControlFields cf h) = h_source h"
  "h_destination (setControlFields cf h) = h_destination h"
  "h_endpoint (setControlFields cf h) = h_endpoint h"
  by (simp_all add: setControlFields_def setTransportType_def setHasExtensions_def setQoS_def)

text \<open>The control byte read back, bit by bit.\<close>

lemma Header_qos_setControlFields [simp]:
  assumes "cf_transport_type cf < 8"
  shows "Header_qos (setControlFields cf h) = cf_qos cf"
proof -
  have t: "\<not> bit (cf_transport_type cf) 6" "\<not> bit (cf_transport_type cf) 7"
    using small_word_bits [of "cf_transport_type cf" 3] assms by auto
  have "drop_bit 6 (h_control (setControlFields cf h) AND 0xC0) = QoS_value (cf_qos cf)"
    by (rule word8_eqI; cases "cf_qos cf")
      (simp_all add: control_setControlFields bit_simps t)
  then show ?thesis
    by (cases "cf_qos cf") (simp_all add: Header_qos_def QoS_of_def)
qed

lemma Header_hasExtensions_setControlFields [simp]:
  assumes "cf_transport_type cf < 8"
  shows "Header_hasExtensions (setControlFields cf h) = cf_has_extensions cf"
proof -
  have t: "\<not> bit (cf_transport_type cf) 3"
    using small_word_bits [of "cf_transport_type cf" 3] assms by auto
  have "h_control (setControlFields cf h) AND 0x08 = (if cf_has_extensions cf then 0x08 else 0)"
    by (rule word8_eqI; cases "cf_qos cf"; cases "cf_has_extensions cf")
      (simp_all add: control_setControlFields bit_simps t)
  then show ?thesis
    by (simp add: Header_hasExtensions_def)
qed

lemma Header_transportType_setControlFields [simp]:
  assumes "cf_transport_type cf < 8"
  shows "Header_transportType (setControlFields cf h) = cf_transport_type cf"
proof -
  have t: "\<And>n. 3 \<le> n \<Longrightarrow> \<not> bit (cf_transport_type cf) n"
    using small_word_bits [of "cf_transport_type cf" 3] assms by auto
  show ?thesis
    unfolding Header_transportType_def
    by (rule word8_eqI; cases "cf_qos cf"; cases "cf_has_extensions cf")
      (simp_all add: control_setControlFields bit_simps t)
qed

text \<open>The two reserved bits 4 and 5 survive: no setter clears them.\<close>

lemma reserved_setControlFields:
  assumes "cf_transport_type cf < 8"
  shows "h_control (setControlFields cf h) AND 0x30 = h_control h AND 0x30"
proof -
  have t: "\<And>n. 3 \<le> n \<Longrightarrow> \<not> bit (cf_transport_type cf) n"
    using small_word_bits [of "cf_transport_type cf" 3] assms by auto
  show ?thesis
    by (rule word8_eqI; cases "cf_qos cf"; cases "cf_has_extensions cf")
      (simp_all add: control_setControlFields bit_simps t)
qed

lemma supported_control_iff:
  "hasSupportedControl h \<longleftrightarrow>
     h_control h AND 0x30 = 0 \<and> \<not> Header_hasExtensions h \<and> Header_transportType h < 2"
proof -
  have lt2: "x < 2 \<longleftrightarrow> (\<forall>n \<in> {1..<8}. \<not> bit x n)" for x :: u8
    using small_word_bits [of x 1] small_wordI [of 1 x] by (auto simp: bit_simps)
  have e8: "{1..<8::nat} = {1, 2, 3, 4, 5, 6, 7}" by auto
  have z: "x = 0 \<longleftrightarrow> (\<forall>n \<in> {0..<8}. \<not> bit x n)" for x :: u8
    using word8_eqI [of x 0] by auto
  have f8: "{0..<8::nat} = {0, 1, 2, 3, 4, 5, 6, 7}" by auto
  show ?thesis
    unfolding hasSupportedControl_def Header_hasExtensions_def Header_transportType_def
      kNumTransportTypes_def lt2 z e8 f8
    by (simp add: bit_simps) blast
qed

subsection \<open>Lemmas on packet buffers\<close>

lemma length_payload [simp]:
  "packet_invar p \<Longrightarrow> length (payload p) = unat (pb_size p)"
  by (simp add: payload_def packet_invar_def word_le_nat_alt)

lemma packet_invar_new [simp, ws_invars]: "packet_invar (PacketBuffer_new c)"
  by (simp add: packet_invar_def PacketBuffer_new_def)

lemma packet_invar_write_payload [simp, ws_invars]:
  "packet_invar p \<Longrightarrow> off + length bs \<le> unat (pb_size p) \<Longrightarrow> packet_invar (write_payload off bs p)"
  by (simp add: packet_invar_def write_payload_def word_le_nat_alt)

lemma write_payload_frame [simp]:
  "pb_capacity (write_payload off bs p) = pb_capacity p"
  "pb_size (write_payload off bs p) = pb_size p"
  "pb_ingress_index (write_payload off bs p) = pb_ingress_index p"
  "pb_header (write_payload off bs p) = pb_header p"
  by (simp_all add: write_payload_def)

lemma payload_write_payload:
  "packet_invar p \<Longrightarrow> off + length bs \<le> unat (pb_size p) \<Longrightarrow>
     payload (write_payload off bs p) = span_write off bs (payload p)"
  by (simp add: payload_def write_payload_def packet_invar_def word_le_nat_alt take_span_write)

lemma packet_invar_header [simp]:
  "packet_invar (p\<lparr>pb_header := h\<rparr>) = packet_invar p"
  "packet_invar (p\<lparr>pb_ingress_index := i\<rparr>) = packet_invar p"
  by (simp_all add: packet_invar_def)

lemma payload_header [simp]:
  "payload (p\<lparr>pb_header := h\<rparr>) = payload p"
  "payload (p\<lparr>pb_ingress_index := i\<rparr>) = payload p"
  by (simp_all add: payload_def)

lemma resize_invar [ws_invars]: "packet_invar p \<Longrightarrow> packet_invar (snd (resize n p))"
  by (auto simp: resize_def packet_invar_def)

lemma initialize_invar [ws_invars]: "packet_invar p \<Longrightarrow> packet_invar (snd (initialize n cf p))"
  using resize_invar [of p n]
  by (auto simp: initialize_def split: prod.splits bool.splits)

lemma initializeConnection_invar [ws_invars]:
  "packet_invar p \<Longrightarrow> packet_invar (snd (initializeConnection n c cf p))"
  using initialize_invar [of p n cf]
  by (auto simp: initializeConnection_def split: prod.splits bool.splits)

lemma initializeResponseTo_invar [ws_invars]:
  "packet_invar p \<Longrightarrow> packet_invar (snd (initializeResponseTo h n cf p))"
  using initialize_invar [of p n cf]
  by (auto simp: initializeResponseTo_def split: prod.splits bool.splits)

lemma copyFrom_invar [ws_invars]:
  "packet_invar src \<Longrightarrow> packet_invar p \<Longrightarrow> packet_invar (snd (copyFrom src p))"
  by (auto simp: copyFrom_def Let_def packet_invar_def write_payload_def not_less
      payload_def word_le_nat_alt)

lemma copyFrom_self: "packet_invar p \<Longrightarrow> copyFrom p p = (True, p)"
  by (cases p) (auto simp: copyFrom_def packet_invar_def write_payload_def payload_def
      span_write_def word_le_nat_alt not_less Let_def)

lemma copyFrom_success:
  assumes "packet_invar src" and "packet_invar p" and "pb_size src \<le> pb_capacity p"
  shows "fst (copyFrom src p)" and "pb_header (snd (copyFrom src p)) = pb_header src"
    and "pb_size (snd (copyFrom src p)) = pb_size src"
    and "pb_ingress_index (snd (copyFrom src p)) = pb_ingress_index src"
    and "pb_capacity (snd (copyFrom src p)) = pb_capacity p"
    and "payload (snd (copyFrom src p)) = payload src"
proof -
  have l: "length (payload src) = unat (pb_size src)" using assms(1) by simp
  have s: "unat (pb_size src) \<le> length (pb_storage p)"
    using assms(2,3) by (simp add: packet_invar_def word_le_nat_alt)
  show "fst (copyFrom src p)" "pb_header (snd (copyFrom src p)) = pb_header src"
    "pb_size (snd (copyFrom src p)) = pb_size src"
    "pb_ingress_index (snd (copyFrom src p)) = pb_ingress_index src"
    "pb_capacity (snd (copyFrom src p)) = pb_capacity p"
    using assms(3) by (auto simp: copyFrom_def Let_def not_less)
  show "payload (snd (copyFrom src p)) = payload src"
  proof (cases "pb_size src = 0")
    case True
    then show ?thesis using assms(3) by (simp add: copyFrom_def payload_def not_less)
  next
    case False
    then have "0 < pb_size src" by (simp add: word_neq_0_conv)
    with assms(3) have "pb_storage (snd (copyFrom src p)) = span_write 0 (payload src) (pb_storage p)
        \<and> pb_size (snd (copyFrom src p)) = pb_size src"
      by (simp add: copyFrom_def leD write_payload_def Let_def)
    with s l show ?thesis
      by (simp add: payload_def [of "snd (copyFrom src p)"] take_span_write_0' [OF l])
  qed
qed

lemma copyFrom_failure: "pb_capacity p < pb_size src \<Longrightarrow> copyFrom src p = (False, p)"
  by (simp add: copyFrom_def)

text \<open>The serialised form is the header bytes and the payload, for every size that fits.\<close>

lemma headerAndPayload_eq:
  assumes "packet_invar p" and "unat (pb_size p) + 6 < 2 ^ 16"
  shows "headerAndPayload p = header_bytes (pb_header p) @ payload p"
proof -
  have "unat (totalSize p) = unat (pb_size p) + 6"
    using assms(2) by (simp add: totalSize_def unat_word_ariths)
  with assms(1) show ?thesis
    by (simp add: headerAndPayload_def payload_def)
qed

text \<open>What a successful initialisation fixes, and what it leaves alone.\<close>

lemma initializeConnection_success:
  assumes "initializeConnection n c cf p = (True, p')"
  shows "pb_size p' = n" and "n \<le> pb_capacity p" and "pb_capacity p' = pb_capacity p"
    and "pb_storage p' = pb_storage p" and "pb_ingress_index p' = 0"
    and "pb_header p' = (setControlFields cf (pb_header p))\<lparr>h_wire := ca_wire c,
      h_source := ca_local_host c, h_destination := ca_remote_host c, h_endpoint := ca_endpoint c\<rparr>"
  using assms by (auto simp: initializeConnection_def initialize_def resize_def split: if_splits)

lemma initializeConnection_fst: "fst (initializeConnection n c cf p) \<longleftrightarrow> n \<le> pb_capacity p"
  by (auto simp: initializeConnection_def initialize_def resize_def not_less)

lemma initializeConnection_capacity: "pb_capacity (snd (initializeConnection n c cf p)) = pb_capacity p"
  by (auto simp: initializeConnection_def initialize_def resize_def)

end
