(* ===== verification/Dispatch.thy ===== *)
theory Dispatch
  imports Packet Containers
begin

section \<open>Hosts, endpoint receivers and dispatch\<close>

text \<open>
  \<^verbatim>\<open>core/host\<close>, \<^verbatim>\<open>core/dispatch\<close>, \<^verbatim>\<open>core/mailbox\<close> and \<^verbatim>\<open>core/endpoint_queue.h\<close>.  The
  virtual call \<^verbatim>\<open>receiver->receive(packet)\<close> is a function \<open>recv\<close> of the receiver (a name
  for the object), the packet and the memory \<open>'w\<close> that holds all receiver objects; it
  answers a \<open>ReceiveResult\<close> and the new memory.
\<close>

subsection \<open>Host\<close>

definition kMaximumHostWires :: nat where
  "kMaximumHostWires = 6"

record HostInfo =
  hi_id :: HostId
  hi_wire_count :: u8
  hi_wires :: "WireNumber list"

definition isMemberOf :: "HostInfo \<Rightarrow> WireNumber \<Rightarrow> bool" where
  "isMemberOf host wire =
     list_ex (\<lambda>w. w = wire) (take (min (unat (hi_wire_count host)) kMaximumHostWires) (hi_wires host))"

record process_globals =
  g_host_info :: HostInfo

definition localHostInfo :: "process_globals \<Rightarrow> HostInfo" where
  "localHostInfo g = g_host_info g"

definition setLocalHostInfo :: "HostInfo \<Rightarrow> process_globals \<Rightarrow> process_globals" where
  "setLocalHostInfo host_info g = g\<lparr>g_host_info := host_info\<rparr>"

subsection \<open>Receivers and dispatcher\<close>

datatype ReceiveResult = RX_kAccepted | RX_kFull | RX_kRejected

datatype DispatchResult = DR_kAccepted | DR_kFull | DR_kRejected | DR_kNoEndpoint

type_synonym ('r, 'w) receive_fun = "'r \<Rightarrow> PacketBuffer \<Rightarrow> 'w \<Rightarrow> ReceiveResult \<times> 'w"

definition TransportFilterReceiver_receive ::
  "(PacketBuffer \<Rightarrow> 'w \<Rightarrow> ReceiveResult \<times> 'w) \<Rightarrow> TransportType \<Rightarrow> PacketBuffer \<Rightarrow> 'w
    \<Rightarrow> ReceiveResult \<times> 'w" where
  "TransportFilterReceiver_receive receiver transport packet w =
     (let header = pb_header packet
      in if \<not> hasSupportedControl header \<or> Header_transportType header \<noteq> transport
         then (RX_kRejected, w)
         else receiver packet w)"

record 'r DispatchTableEntry =
  dte_endpoint :: EndpointAddress
  dte_receiver :: "'r option"

fun toDispatchResult :: "ReceiveResult \<Rightarrow> DispatchResult" where
  "toDispatchResult RX_kAccepted = DR_kAccepted"
| "toDispatchResult RX_kFull = DR_kFull"
| "toDispatchResult RX_kRejected = DR_kRejected"

fun resultPriority :: "DispatchResult \<Rightarrow> u8" where
  "resultPriority DR_kAccepted = 3"
| "resultPriority DR_kFull = 2"
| "resultPriority DR_kRejected = 1"
| "resultPriority DR_kNoEndpoint = 0"

text \<open>The loop over the table, from the current entry on, with the aggregate so far.\<close>

fun dispatch_loop ::
  "('r, 'w) receive_fun \<Rightarrow> 'r DispatchTableEntry list \<Rightarrow> PacketBuffer \<Rightarrow> HostInfo \<Rightarrow> bool
    \<Rightarrow> DispatchResult \<Rightarrow> 'w \<Rightarrow> DispatchResult \<times> 'w" where
  "dispatch_loop recv [] packet host broadcast aggregate w = (aggregate, w)"
| "dispatch_loop recv (entry # entries) packet host broadcast aggregate w =
     (case dte_receiver entry of
        None \<Rightarrow> dispatch_loop recv entries packet host broadcast aggregate w
      | Some receiver \<Rightarrow>
          if dte_endpoint entry \<noteq> h_endpoint (pb_header packet)
          then dispatch_loop recv entries packet host broadcast aggregate w
          else if \<not> broadcast \<and> hi_id host \<noteq> h_destination (pb_header packet)
          then dispatch_loop recv entries packet host broadcast aggregate w
          else (let (received, w1) = recv receiver packet w;
                    result = toDispatchResult received
                in if \<not> broadcast then (result, w1)
                   else dispatch_loop recv entries packet host broadcast
                     (if resultPriority aggregate < resultPriority result then result else aggregate)
                     w1))"

definition dispatch ::
  "('r, 'w) receive_fun \<Rightarrow> 'r DispatchTableEntry list \<Rightarrow> PacketBuffer \<Rightarrow> HostInfo \<Rightarrow> 'w
    \<Rightarrow> DispatchResult \<times> 'w" where
  "dispatch recv entries packet host w =
     (let header = pb_header packet
      in if \<not> hasSupportedControl header then (DR_kRejected, w)
         else (let broadcast = HostId_isBroadcast (h_destination header)
               in if broadcast \<and> \<not> isMemberOf host (h_wire header) then (DR_kNoEndpoint, w)
                  else dispatch_loop recv entries packet host broadcast DR_kNoEndpoint w))"

definition dispatch_global ::
  "('r, 'w) receive_fun \<Rightarrow> 'r DispatchTableEntry list \<Rightarrow> PacketBuffer \<Rightarrow> process_globals \<Rightarrow> 'w
    \<Rightarrow> DispatchResult \<times> 'w" where
  "dispatch_global recv entries packet g w = dispatch recv entries packet (localHostInfo g) w"

subsection \<open>Snapshot mailbox\<close>

record EndpointSnapshotReceiver =
  sn_data :: bytes
  sn_length :: u16
  sn_occupied :: bool
  sn_generation :: u32

definition Snapshot_init :: EndpointSnapshotReceiver where
  "Snapshot_init = \<lparr>sn_data = replicate (unat kDefaultEndpointStorageCapacity) 0, sn_length = 0,
     sn_occupied = False, sn_generation = 0\<rparr>"

definition Snapshot_receive ::
  "PacketBuffer \<Rightarrow> EndpointSnapshotReceiver \<Rightarrow> ReceiveResult \<times> EndpointSnapshotReceiver" where
  "Snapshot_receive packet s =
     (let input = payload packet
      in if length (sn_data s) < length input then (RX_kRejected, s)
         else (RX_kAccepted,
               s\<lparr>sn_data := (if input = [] then sn_data s else span_write 0 input (sn_data s)),
                 sn_length := word_of_nat (length input), sn_occupied := True,
                 sn_generation := sn_generation s + 1\<rparr>))"

text \<open>\<^verbatim>\<open>read\<close> fills the caller's buffer and sets the length and generation, or refuses.\<close>

definition Snapshot_read ::
  "EndpointSnapshotReceiver \<Rightarrow> bytes \<Rightarrow> (bytes \<times> u16 \<times> u32) option" where
  "Snapshot_read s out_bytes =
     (if \<not> sn_occupied s \<or> length out_bytes < unat (sn_length s) then None
      else Some ((if 0 < sn_length s
                  then span_write 0 (take (unat (sn_length s)) (sn_data s)) out_bytes
                  else out_bytes),
                 sn_length s, sn_generation s))"

definition Snapshot_invar :: "EndpointSnapshotReceiver \<Rightarrow> bool" where
  "Snapshot_invar s \<longleftrightarrow> length (sn_data s) = 64 \<and> unat (sn_length s) \<le> 64"

subsection \<open>Queued endpoint\<close>

text \<open>
  \<^verbatim>\<open>EndpointReceiverQueue<kPayloadCapacity, kQueueCapacity, LockType>\<close>: a \<open>Queue\<close> of stored
  packets.  \<open>pc\<close> and \<open>qc\<close> are the two capacities.
\<close>

type_synonym 'l endpoint_queue = "(PacketBuffer, 'l) Queue"

definition EndpointReceiverQueue_init :: "u16 \<Rightarrow> nat \<Rightarrow> 'l \<Rightarrow> 'l endpoint_queue" where
  "EndpointReceiverQueue_init pc qc l = Queue_init qc (PacketBuffer_new pc) l"

definition EndpointReceiverQueue_receive ::
  "'l lock_policy \<Rightarrow> u16 \<Rightarrow> nat \<Rightarrow> PacketBuffer \<Rightarrow> 'l endpoint_queue
    \<Rightarrow> ReceiveResult \<times> 'l endpoint_queue" where
  "EndpointReceiverQueue_receive lp pc qc packet q =
     (case copyFrom packet (PacketBuffer_new pc) of
        (False, _) \<Rightarrow> (RX_kRejected, q)
      | (True, stored) \<Rightarrow>
          (let (ok, q1) = Queue_enqueue lp qc q stored
           in (if ok then RX_kAccepted else RX_kFull, q1)))"

definition EndpointReceiverQueue_dequeue ::
  "'l lock_policy \<Rightarrow> u16 \<Rightarrow> nat \<Rightarrow> PacketBuffer \<Rightarrow> 'l endpoint_queue
    \<Rightarrow> bool \<times> PacketBuffer \<times> 'l endpoint_queue" where
  "EndpointReceiverQueue_dequeue lp pc qc out_packet q =
     (if pb_capacity out_packet < pc then (False, out_packet, q)
      else (case Queue_dequeue lp qc q of
              (None, q1) \<Rightarrow> (False, out_packet, q1)
            | (Some stored, q1) \<Rightarrow>
                (let (ok, p1) = copyFrom stored out_packet in (ok, p1, q1))))"

subsection \<open>What dispatch does\<close>

text \<open>
  The receivers a packet selects, in table order, and the delivery to a list of
  receivers, one after the other.
\<close>

definition selected ::
  "'r DispatchTableEntry list \<Rightarrow> PacketBuffer \<Rightarrow> HostInfo \<Rightarrow> 'r list" where
  "selected entries packet host =
     List.map_filter (\<lambda>e. if dte_endpoint e = h_endpoint (pb_header packet)
          \<and> (HostId_isBroadcast (h_destination (pb_header packet))
             \<or> hi_id host = h_destination (pb_header packet))
        then dte_receiver e else None) entries"

fun deliver_all :: "('r, 'w) receive_fun \<Rightarrow> 'r list \<Rightarrow> PacketBuffer \<Rightarrow> 'w
    \<Rightarrow> ReceiveResult list \<times> 'w" where
  "deliver_all recv [] packet w = ([], w)"
| "deliver_all recv (r # rs) packet w =
     (let (res, w1) = recv r packet w; (ress, w2) = deliver_all recv rs packet w1
      in (res # ress, w2))"

definition best_result :: "ReceiveResult list \<Rightarrow> DispatchResult" where
  "best_result rs = (if RX_kAccepted \<in> set rs then DR_kAccepted
     else if RX_kFull \<in> set rs then DR_kFull
     else if RX_kRejected \<in> set rs then DR_kRejected else DR_kNoEndpoint)"

definition higher :: "DispatchResult \<Rightarrow> DispatchResult \<Rightarrow> DispatchResult" where
  "higher a b = (if resultPriority a < resultPriority b then b else a)"

lemma higher_simps [simp]:
  "higher DR_kAccepted b = DR_kAccepted" "higher a DR_kNoEndpoint = a"
  "higher DR_kNoEndpoint b = b" "higher a DR_kAccepted = DR_kAccepted"
  "higher DR_kFull DR_kRejected = DR_kFull" "higher DR_kRejected DR_kFull = DR_kFull"
  "higher a a = a"
  by (simp_all add: higher_def) (cases a; cases b; simp)+

lemma higher_assoc: "higher (higher a b) c = higher a (higher b c)"
  by (cases a; cases b; cases c; simp)

lemma best_result_Cons: "best_result (r # rs) = higher (toDispatchResult r) (best_result rs)"
  by (cases r) (auto simp: best_result_def)

lemma selected_Cons:
  "selected (e # es) packet host =
     (case dte_receiver e of None \<Rightarrow> selected es packet host
      | Some r \<Rightarrow> if dte_endpoint e = h_endpoint (pb_header packet)
          \<and> (HostId_isBroadcast (h_destination (pb_header packet))
             \<or> hi_id host = h_destination (pb_header packet))
        then r # selected es packet host else selected es packet host)"
  by (auto simp: selected_def map_filter_simps split: option.splits)

lemma dispatch_loop_broadcast:
  assumes "HostId_isBroadcast (h_destination (pb_header packet))"
  shows "dispatch_loop recv es packet host True agg w =
    (let (rs, w') = deliver_all recv (selected es packet host) packet w
     in (higher agg (best_result rs), w'))"
proof (induction es arbitrary: agg w)
  case Nil
  then show ?case by (simp add: selected_def map_filter_simps best_result_def)
next
  case (Cons e es)
  have h: "(if resultPriority agg < resultPriority x then x else agg) = higher agg x" for agg x
    by (simp add: higher_def)
  show ?case
    using assms
    by (cases "dte_receiver e")
      (simp_all add: Cons.IH selected_Cons h best_result_Cons higher_assoc split_def Let_def)
qed

lemma dispatch_loop_unicast:
  assumes "\<not> HostId_isBroadcast (h_destination (pb_header packet))"
  shows "dispatch_loop recv es packet host False agg w =
    (case selected es packet host of [] \<Rightarrow> (agg, w)
     | r # _ \<Rightarrow> (let (x, w') = recv r packet w in (toDispatchResult x, w')))"
  using assms
  by (induction es) (auto simp: selected_Cons selected_def map_filter_simps split: option.splits)

subsection \<open>Receiver objects in memory\<close>

text \<open>
  What the dispatcher may rely on when receivers are distinct objects: a call changes the
  object it is made on and no other, and its answer depends on that object only.
\<close>

locale receiver_memory =
  fixes recv :: "('r, 'w) receive_fun"
    and look :: "'r \<Rightarrow> 'w \<Rightarrow> 's"
    and step :: "PacketBuffer \<Rightarrow> 's \<Rightarrow> ReceiveResult \<times> 's"
  assumes recv_own: "look r (snd (recv r p w)) = snd (step p (look r w))"
    and recv_answer: "fst (recv r p w) = fst (step p (look r w))"
    and recv_other: "r' \<noteq> r \<Longrightarrow> look r' (snd (recv r p w)) = look r' w"
begin

lemma deliver_all_other:
  "r \<notin> set rs \<Longrightarrow> look r (snd (deliver_all recv rs p w)) = look r w"
proof (induction rs arbitrary: w)
  case (Cons a rs)
  then have "look r (snd (deliver_all recv rs p (snd (recv a p w)))) = look r (snd (recv a p w))"
    by simp
  also have "\<dots> = look r w" using Cons.prems by (simp add: recv_other)
  finally show ?case by (simp add: split_def Let_def)
qed simp

lemma deliver_all_each:
  assumes "distinct rs"
  shows "fst (deliver_all recv rs p w) = map (\<lambda>r. fst (step p (look r w))) rs
    \<and> (\<forall>r \<in> set rs. look r (snd (deliver_all recv rs p w)) = snd (step p (look r w)))"
  using assms
proof (induction rs arbitrary: w)
  case (Cons a rs)
  let ?w1 = "snd (recv a p w)"
  have same: "look r ?w1 = look r w" if "r \<in> set rs" for r
    using that Cons.prems recv_other [of r a p w] by auto
  have IH: "fst (deliver_all recv rs p ?w1) = map (\<lambda>r. fst (step p (look r ?w1))) rs
    \<and> (\<forall>r \<in> set rs. look r (snd (deliver_all recv rs p ?w1)) = snd (step p (look r ?w1)))"
    using Cons by simp
  have "look a (snd (deliver_all recv rs p ?w1)) = snd (step p (look a w))"
    using Cons.prems deliver_all_other [of a rs p ?w1] by (simp add: recv_own)
  with IH same show ?case
    by (auto simp: split_def Let_def recv_answer cong: map_cong)
qed simp

lemma dispatch_changes_selected_only:
  assumes "r \<notin> set (selected es p host)"
  shows "look r (snd (dispatch recv es p host w)) = look r w"
proof (cases "HostId_isBroadcast (h_destination (pb_header p))")
  case True
  with deliver_all_other [OF assms] show ?thesis
    by (simp add: dispatch_def dispatch_loop_broadcast split_def Let_def)
next
  case False
  then show ?thesis
    using assms
    by (auto simp: dispatch_def dispatch_loop_unicast split_def Let_def recv_other
        split: list.splits)
qed

lemma dispatch_broadcast_each_once:
  assumes "HostId_isBroadcast (h_destination (pb_header p))" and "hasSupportedControl (pb_header p)"
    and "isMemberOf host (h_wire (pb_header p))" and "distinct (selected es p host)"
  shows "fst (dispatch recv es p host w)
      = best_result (map (\<lambda>r. fst (step p (look r w))) (selected es p host))
    \<and> (\<forall>r \<in> set (selected es p host).
        look r (snd (dispatch recv es p host w)) = snd (step p (look r w)))"
  using assms deliver_all_each [OF assms(4), of p w]
  by (simp add: dispatch_def dispatch_loop_broadcast split_def Let_def)

end

text \<open>
  The receiver objects of the library: a queued endpoint, a snapshot mailbox, and the
  transport filter in front of another receiver.  A heap maps object names to objects;
  \<open>heap_receive\<close> is the virtual call.
\<close>

datatype receiver_object =
    QueueReceiver u16 nat "unit endpoint_queue"
  | SnapshotReceiver EndpointSnapshotReceiver
  | FilterReceiver TransportType receiver_object

fun object_receive :: "PacketBuffer \<Rightarrow> receiver_object \<Rightarrow> ReceiveResult \<times> receiver_object" where
  "object_receive p (QueueReceiver pc qc q) =
     (let (r, q1) = EndpointReceiverQueue_receive NoLock pc qc p q in (r, QueueReceiver pc qc q1))"
| "object_receive p (SnapshotReceiver s) =
     (let (r, s1) = Snapshot_receive p s in (r, SnapshotReceiver s1))"
| "object_receive p (FilterReceiver t inner) =
     (let (r, inner1) = TransportFilterReceiver_receive (\<lambda>_ _. object_receive p inner) t p inner
      in (r, FilterReceiver t inner1))"

definition heap_receive :: "('r, 'r \<Rightarrow> receiver_object) receive_fun" where
  "heap_receive r p heap = (let (x, obj) = object_receive p (heap r) in (x, heap(r := obj)))"

interpretation heap: receiver_memory heap_receive "\<lambda>r heap. heap r" object_receive
  by unfold_locales (simp_all add: heap_receive_def split_def Let_def)

subsection \<open>What a queued endpoint holds\<close>

text \<open>What a receiver keeps of a packet: header, ingress tag and payload.\<close>

definition packet_view :: "PacketBuffer \<Rightarrow> Header \<times> u8 \<times> bytes" where
  "packet_view p = (pb_header p, pb_ingress_index p, payload p)"

definition EQ_invar :: "u16 \<Rightarrow> nat \<Rightarrow> 'l endpoint_queue \<Rightarrow> bool" where
  "EQ_invar pc qc q \<longleftrightarrow> Queue_invar qc q
     \<and> (\<forall>p \<in> set (Queue_contents qc q). packet_invar p \<and> pb_capacity p = pc)"

definition EQ_views :: "nat \<Rightarrow> 'l endpoint_queue \<Rightarrow> (Header \<times> u8 \<times> bytes) list" where
  "EQ_views qc q = map packet_view (Queue_contents qc q)"

lemma copyFrom_view:
  assumes "packet_invar src" and "packet_invar p" and "pb_size src \<le> pb_capacity p"
  shows "packet_view (snd (copyFrom src p)) = packet_view src"
  using copyFrom_success [OF assms] by (simp add: packet_view_def)

lemma EQ_init_invar [ws_invars]:
  assumes "0 < qc" and "qc < 2 ^ 16"
  shows "EQ_invar pc qc (EndpointReceiverQueue_init pc qc l)"
    and "EQ_views qc (EndpointReceiverQueue_init pc qc l) = []"
  using Queue_init_invar [OF assms, of "PacketBuffer_new pc" l]
  by (simp_all add: EQ_invar_def EQ_views_def EndpointReceiverQueue_init_def Queue_contents_def
      Queue_init_def)

lemma EQ_receive_accepts:
  assumes inv: "EQ_invar pc qc q" and p: "packet_invar p"
    and fits: "pb_size p \<le> pc" and room: "length (EQ_views qc q) < qc"
  shows "fst (EndpointReceiverQueue_receive lp pc qc p q) = RX_kAccepted
    \<and> EQ_invar pc qc (snd (EndpointReceiverQueue_receive lp pc qc p q))
    \<and> EQ_views qc (snd (EndpointReceiverQueue_receive lp pc qc p q)) = EQ_views qc q @ [packet_view p]"
proof -
  let ?n = "PacketBuffer_new pc"
  have f: "pb_size p \<le> pb_capacity ?n" using fits by (simp add: PacketBuffer_new_def)
  obtain stored where st: "copyFrom p ?n = (True, stored)" "packet_view stored = packet_view p"
    "packet_invar stored" "pb_capacity stored = pc"
    using copyFrom_success [OF p packet_invar_new f] copyFrom_view [OF p packet_invar_new f]
      copyFrom_invar [OF p packet_invar_new, of pc]
    by (cases "copyFrom p ?n") (auto simp: PacketBuffer_new_def)
  have "Queue_invar qc q" "length (Queue_contents qc q) < qc"
    using inv room by (auto simp: EQ_invar_def EQ_views_def)
  from Queue_enqueue_room [OF this, of lp stored] st inv show ?thesis
    by (auto simp: EndpointReceiverQueue_receive_def EQ_invar_def EQ_views_def split_def)
qed

lemma EQ_receive_full:
  assumes inv: "EQ_invar pc qc q" and p: "packet_invar p"
    and fits: "pb_size p \<le> pc" and room: "qc \<le> length (EQ_views qc q)"
  shows "fst (EndpointReceiverQueue_receive lp pc qc p q) = RX_kFull
    \<and> EQ_invar pc qc (snd (EndpointReceiverQueue_receive lp pc qc p q))
    \<and> EQ_views qc (snd (EndpointReceiverQueue_receive lp pc qc p q)) = EQ_views qc q"
proof -
  have f: "pb_size p \<le> pb_capacity (PacketBuffer_new pc)" using fits by (simp add: PacketBuffer_new_def)
  have "fst (copyFrom p (PacketBuffer_new pc))"
    using copyFrom_success(1) [OF p packet_invar_new f] .
  moreover have "Queue_invar qc q" "qc \<le> length (Queue_contents qc q)"
    using inv room by (auto simp: EQ_invar_def EQ_views_def)
  note Queue_enqueue_full [OF this, of lp "snd (copyFrom p (PacketBuffer_new pc))"]
  ultimately show ?thesis
    using inv
    by (auto simp: EndpointReceiverQueue_receive_def EQ_invar_def EQ_views_def split_def
        split: prod.splits bool.splits)
qed

lemma EQ_receive_too_large:
  "pc < pb_size p \<Longrightarrow> EndpointReceiverQueue_receive lp pc qc p q = (RX_kRejected, q)"
  by (simp add: EndpointReceiverQueue_receive_def copyFrom_def PacketBuffer_new_def)

lemma EQ_dequeue_next:
  assumes inv: "EQ_invar pc qc q" and out: "packet_invar p" "pc \<le> pb_capacity p"
    and ne: "EQ_views qc q = v # vs"
  shows "\<exists>p' q'. EndpointReceiverQueue_dequeue lp pc qc p q = (True, p', q')
    \<and> packet_view p' = v \<and> packet_invar p' \<and> pb_capacity p' = pb_capacity p
    \<and> EQ_invar pc qc q' \<and> EQ_views qc q' = vs"
proof -
  obtain st rest where c: "Queue_contents qc q = st # rest" "packet_view st = v"
    "map packet_view rest = vs"
    using ne by (auto simp: EQ_views_def)
  have q: "Queue_invar qc q" and st: "packet_invar st" "pb_capacity st = pc"
    using inv c by (auto simp: EQ_invar_def)
  obtain q' where q': "Queue_dequeue lp qc q = (Some st, q')" "Queue_invar qc q'"
    "Queue_contents qc q' = rest"
    using Queue_dequeue_nonempty [OF q c(1), of lp] by (cases "Queue_dequeue lp qc q") auto
  have fits: "pb_size st \<le> pb_capacity p"
    using st out(2) unfolding packet_invar_def by (metis order_trans)
  obtain p' where "copyFrom st p = (True, p')" "packet_view p' = v" "packet_invar p'"
    "pb_capacity p' = pb_capacity p"
    using copyFrom_success [OF st(1) out(1) fits] copyFrom_view [OF st(1) out(1) fits]
      copyFrom_invar [OF st(1) out(1)] c(2)
    by (cases "copyFrom st p") auto
  then show ?thesis
    using q' c inv out(2)
    by (auto simp: EndpointReceiverQueue_dequeue_def EQ_invar_def EQ_views_def leD)
qed

lemma EQ_dequeue_empty:
  assumes inv: "EQ_invar pc qc q" and out: "pc \<le> pb_capacity p" and ne: "EQ_views qc q = []"
  shows "\<exists>q'. EndpointReceiverQueue_dequeue lp pc qc p q = (False, p, q')
    \<and> EQ_invar pc qc q' \<and> EQ_views qc q' = []"
proof -
  have q: "Queue_invar qc q" "Queue_contents qc q = []"
    using inv ne by (auto simp: EQ_invar_def EQ_views_def)
  from Queue_dequeue_empty [OF q, of lp] show ?thesis
    using out by (cases "Queue_dequeue lp qc q")
      (auto simp: EndpointReceiverQueue_dequeue_def EQ_invar_def EQ_views_def leD)
qed

lemma Snapshot_init_invar [ws_invars]: "Snapshot_invar Snapshot_init"
  by (simp add: Snapshot_invar_def Snapshot_init_def kDefaultEndpointStorageCapacity_def)

lemma Snapshot_receive_invar [ws_invars]:
  "Snapshot_invar s \<Longrightarrow> Snapshot_invar (snd (Snapshot_receive p s))"
  by (auto simp: Snapshot_invar_def Snapshot_receive_def Let_def unat_of_nat take_bit_nat_eq_self)

lemma Snapshot_read_after_receive:
  assumes inv: "Snapshot_invar s" and acc: "Snapshot_receive p s = (RX_kAccepted, s')"
    and out: "length (payload p) \<le> length out_bytes"
  shows "Snapshot_read s' out_bytes
    = Some (span_write 0 (payload p) out_bytes, word_of_nat (length (payload p)), sn_generation s + 1)"
proof -
  let ?n = "length (payload p)"
  have n: "?n \<le> 64" and l: "length (sn_data s) = 64"
    using inv acc by (auto simp: Snapshot_invar_def Snapshot_receive_def Let_def split: if_splits)
  have u: "unat (word_of_nat ?n :: u16) = ?n"
    using n by (simp add: unat_of_nat take_bit_nat_eq_self)
  have s': "s' = s\<lparr>sn_data := (if payload p = [] then sn_data s else span_write 0 (payload p) (sn_data s)),
      sn_length := word_of_nat ?n, sn_occupied := True, sn_generation := sn_generation s + 1\<rparr>"
    using acc n l by (auto simp: Snapshot_receive_def Let_def split: if_splits)
  show ?thesis
  proof (cases "payload p = []")
    case True
    then show ?thesis by (simp add: s' Snapshot_read_def)
  next
    case False
    then have "0 < (word_of_nat ?n :: u16)"
      using u by (metis length_greater_0_conv unat_0 word_neq_0_conv less_numeral_extra(3))
    with False u out n l show ?thesis
      by (simp add: s' Snapshot_read_def take_span_write_0')
  qed
qed

end
