(* ===== verification/Routing.thy ===== *)
theory Routing
  imports Dispatch
begin

section \<open>Forwarding, routing and domains\<close>

text \<open>
  \<^verbatim>\<open>core/forwarding.h\<close>, \<^verbatim>\<open>core/router\<close>, \<^verbatim>\<open>core/domain\<close> and the generated fan-out of
  \<^verbatim>\<open>examples/arduino-uno/demo_wiring.h\<close>.  The virtual calls of \<^verbatim>\<open>PacketForwarder\<close> and
  \<^verbatim>\<open>PacketLink\<close> are functions on the memory \<open>'w\<close> that holds links and receivers.
\<close>

subsection \<open>Admission\<close>

type_synonym InterfaceSet = u8

definition kNoEgress :: InterfaceSet where
  "kNoEgress = 0"

datatype LinkAdmission = LA_kAccepted | LA_kFull | LA_kTooLarge | LA_kRejected

datatype RouteResult = RR_kAccepted | RR_kPartial | RR_kFull | RR_kTooLarge | RR_kRejected
  | RR_kNoRoute | RR_kNoEgress | RR_kInvalidIngress

type_synonym 'w forward_fun = "PacketBuffer \<Rightarrow> InterfaceSet \<Rightarrow> 'w \<Rightarrow> RouteResult \<times> 'w"
type_synonym 'w send_fun = "PacketBuffer \<Rightarrow> 'w \<Rightarrow> LinkAdmission \<times> 'w"

fun admission_result :: "LinkAdmission \<Rightarrow> RouteResult" where
  "admission_result LA_kAccepted = RR_kAccepted"
| "admission_result LA_kFull = RR_kFull"
| "admission_result LA_kTooLarge = RR_kTooLarge"
| "admission_result LA_kRejected = RR_kRejected"

definition combineAdmission :: "RouteResult \<Rightarrow> LinkAdmission \<Rightarrow> RouteResult" where
  "combineAdmission current admission =
     (let nxt = admission_result admission
      in if current = RR_kNoEgress \<or> current = nxt then nxt
         else if current = RR_kPartial \<or> current = RR_kAccepted \<or> nxt = RR_kAccepted
         then RR_kPartial
         else if current = RR_kRejected \<or> nxt = RR_kRejected then RR_kRejected
         else RR_kTooLarge)"

text \<open>The outcome of a fan-out: the admissions folded from \<open>kNoEgress\<close>.\<close>

definition fan_out_result :: "LinkAdmission list \<Rightarrow> RouteResult" where
  "fan_out_result as = foldl combineAdmission RR_kNoEgress as"

text \<open>The documented meaning of the coarse outcome, independent of the order of the links.\<close>

definition fan_out_spec :: "LinkAdmission set \<Rightarrow> RouteResult" where
  "fan_out_spec A = (if A = {} then RR_kNoEgress
     else if A = {LA_kAccepted} then RR_kAccepted
     else if LA_kAccepted \<in> A then RR_kPartial
     else if LA_kRejected \<in> A then RR_kRejected
     else if LA_kTooLarge \<in> A then RR_kTooLarge
     else RR_kFull)"

lemma LinkAdmission_set_eq:
  "A = B \<longleftrightarrow> (LA_kAccepted \<in> A \<longleftrightarrow> LA_kAccepted \<in> B) \<and> (LA_kFull \<in> A \<longleftrightarrow> LA_kFull \<in> B)
     \<and> (LA_kTooLarge \<in> A \<longleftrightarrow> LA_kTooLarge \<in> B) \<and> (LA_kRejected \<in> A \<longleftrightarrow> LA_kRejected \<in> B)"
  by (metis (full_types) LinkAdmission.exhaust set_eq_iff)

lemma fan_out_spec_members:
  "fan_out_spec A =
     (if LA_kAccepted \<in> A
      then if LA_kFull \<in> A \<or> LA_kTooLarge \<in> A \<or> LA_kRejected \<in> A then RR_kPartial else RR_kAccepted
      else if LA_kRejected \<in> A then RR_kRejected
      else if LA_kTooLarge \<in> A then RR_kTooLarge
      else if LA_kFull \<in> A then RR_kFull else RR_kNoEgress)"
  by (simp add: fan_out_spec_def LinkAdmission_set_eq [of A])

lemma combine_fan_out_spec:
  "combineAdmission (fan_out_spec A) a = fan_out_spec (insert a A)"
  by (cases a) (simp_all add: fan_out_spec_members combineAdmission_def)

lemma fan_out_result_spec: "fan_out_result as = fan_out_spec (set as)"
proof (induction as rule: rev_induct)
  case Nil
  then show ?case by (simp add: fan_out_result_def fan_out_spec_def)
next
  case (snoc a as)
  then show ?case
    by (simp add: fan_out_result_def combine_fan_out_spec)
qed

subsection \<open>Router\<close>

record RouteTableEntry =
  rte_wire :: WireNumber
  rte_wire_interfaces :: InterfaceSet

record IngressResult =
  ir_routing :: RouteResult
  ir_delivery :: DispatchResult

fun Router_forward_loop ::
  "'w forward_fun \<Rightarrow> RouteTableEntry list \<Rightarrow> PacketBuffer \<Rightarrow> u8 \<Rightarrow> InterfaceSet \<Rightarrow> 'w
    \<Rightarrow> RouteResult \<times> 'w" where
  "Router_forward_loop fwd [] packet ingress ingress_mask w = (RR_kNoRoute, w)"
| "Router_forward_loop fwd (entry # entries) packet ingress ingress_mask w =
     (if rte_wire entry \<noteq> h_wire (pb_header packet)
      then Router_forward_loop fwd entries packet ingress ingress_mask w
      else if ingress_mask \<noteq> 0 \<and> rte_wire_interfaces entry AND ingress_mask = 0
      then (RR_kInvalidIngress, w)
      else (let egress = rte_wire_interfaces entry AND NOT ingress_mask
            in if egress = kNoEgress \<and> ingress \<noteq> 0 then (RR_kNoEgress, w)
               else fwd packet egress w))"

definition Router_forward ::
  "'w forward_fun \<Rightarrow> RouteTableEntry list \<Rightarrow> PacketBuffer \<Rightarrow> 'w \<Rightarrow> RouteResult \<times> 'w" where
  "Router_forward fwd entries packet w =
     (let ingress = pb_ingress_index packet
      in if 8 < ingress then (RR_kInvalidIngress, w)
         else (let ingress_mask = (if ingress = 0 then 0 else push_bit (unat (ingress - 1)) 1)
               in Router_forward_loop fwd entries packet ingress ingress_mask w))"

definition Router_receive ::
  "'w forward_fun \<Rightarrow> RouteTableEntry list \<Rightarrow> ('r, 'w) receive_fun \<Rightarrow> 'r DispatchTableEntry list
    \<Rightarrow> HostInfo \<Rightarrow> u8 \<Rightarrow> PacketBuffer \<Rightarrow> 'w \<Rightarrow> IngressResult \<times> PacketBuffer \<times> 'w" where
  "Router_receive fwd entries recv table host ingress_index packet0 w0 =
     (let packet = setIngressIndex ingress_index packet0
      in if ingress_index = 0
         then (\<lparr>ir_routing = RR_kInvalidIngress, ir_delivery = DR_kNoEndpoint\<rparr>, packet, w0)
         else (let (routing, w1) = Router_forward fwd entries packet w0
               in if (routing = RR_kNoRoute \<or> routing = RR_kInvalidIngress)
                    \<or> \<not> isMemberOf host (h_wire (pb_header packet))
                  then (\<lparr>ir_routing = routing, ir_delivery = DR_kNoEndpoint\<rparr>, packet, w1)
                  else (let (delivery, w2) = dispatch recv table packet host w1
                        in (\<lparr>ir_routing = routing, ir_delivery = delivery\<rparr>, packet, w2))))"

definition Router_receive_global ::
  "'w forward_fun \<Rightarrow> RouteTableEntry list \<Rightarrow> ('r, 'w) receive_fun \<Rightarrow> 'r DispatchTableEntry list
    \<Rightarrow> process_globals \<Rightarrow> u8 \<Rightarrow> PacketBuffer \<Rightarrow> 'w \<Rightarrow> IngressResult \<times> PacketBuffer \<times> 'w" where
  "Router_receive_global fwd entries recv table g ingress_index packet w =
     Router_receive fwd entries recv table (localHostInfo g) ingress_index packet w"

subsection \<open>Domain\<close>

record PublicationConfig =
  pc_wire :: WireNumber
  pc_destination :: HostId

record 'w DomainContext =
  dc_host :: HostInfo
  dc_routes :: "RouteTableEntry list"
  dc_forwarder :: "'w forward_fun"

definition DomainContext_connection ::
  "'w DomainContext \<Rightarrow> PublicationConfig \<Rightarrow> EndpointAddress \<Rightarrow> ConnectionAddress" where
  "DomainContext_connection d publication endpoint =
     \<lparr>ca_wire = pc_wire publication, ca_local_host = hi_id (dc_host d),
      ca_remote_host = pc_destination publication, ca_endpoint = endpoint\<rparr>"

definition DomainContext_receive ::
  "'w DomainContext \<Rightarrow> PacketBuffer \<Rightarrow> u8 \<Rightarrow> ('r, 'w) receive_fun \<Rightarrow> 'r DispatchTableEntry list
    \<Rightarrow> 'w \<Rightarrow> IngressResult \<times> PacketBuffer \<times> 'w" where
  "DomainContext_receive d packet ingress_index recv table w =
     Router_receive (dc_forwarder d) (dc_routes d) recv table (dc_host d) ingress_index packet w"

text \<open>
  The forwarder that delivers into a local dispatcher.  It keeps the last dispatch result
  and reads the process-wide identity, as \<^verbatim>\<open>domain.cpp\<close> does.
\<close>

definition LocalDispatchForwarder_forward ::
  "('r, 'w) receive_fun \<Rightarrow> 'r DispatchTableEntry list \<Rightarrow> process_globals
    \<Rightarrow> (DispatchResult \<times> 'w) forward_fun" where
  "LocalDispatchForwarder_forward recv table g packet egress_set s =
     (let (last_result, w) = dispatch_global recv table packet g (snd s)
      in ((if last_result = DR_kAccepted then RR_kAccepted
           else if last_result = DR_kFull then RR_kFull else RR_kRejected), (last_result, w)))"

subsection \<open>Generated fan-out of the demonstration wiring\<close>

definition kUartEgress :: InterfaceSet where
  "kUartEgress = 0x01"

definition demo_Forwarder_forward :: "'w send_fun \<Rightarrow> 'w forward_fun" where
  "demo_Forwarder_forward trySend packet sel w =
     (let (result, w1) =
        (if sel AND kUartEgress \<noteq> 0
         then (let (a, w') = trySend packet w in (combineAdmission RR_kNoEgress a, w'))
         else (RR_kNoEgress, w))
      in (if result = RR_kNoEgress then RR_kAccepted else result, w1))"

subsection \<open>Bits of interface sets\<close>

lemma ingress_bit_u8:
  assumes "i \<noteq> 0" and "i \<le> (8::u8)"
  shows "unat (i - 1) < 8" and "unat (i - 1) = unat i - 1"
proof -
  have i: "1 \<le> unat i" "unat i \<le> 8"
    using assms by (auto simp: word_le_nat_alt Suc_le_eq unat_gt_0)
  show e: "unat (i - 1) = unat i - 1"
    using i(1) by (simp add: unat_sub_le)
  show "unat (i - 1) < 8" using e i by simp
qed

lemma exp_word_nonzero: "n < LENGTH('a) \<Longrightarrow> (2 :: 'a::len word) ^ n \<noteq> 0"
  using bit_exp_iff [where ?'a = "'a word", of n n] by auto

lemma and_exp_eq_0_iff: "(x AND 2 ^ n = 0) \<longleftrightarrow> \<not> bit x n" if "n < LENGTH('a)"
  for x :: "'a::len word"
proof -
  have "x AND 2 ^ n = (if bit x n then 2 ^ n else 0)"
    by (rule bit_word_eqI) (auto simp: bit_simps)
  then show ?thesis using exp_word_nonzero [OF that] by auto
qed

lemma bit_split_horizon:
  "bit (x AND NOT (2 ^ n)) m \<longleftrightarrow> bit x m \<and> m \<noteq> n" for x :: "'a::len word"
  by (auto simp: bit_simps dest: bit_imp_le_length)

text \<open>The route taken is the first entry of the packet's wire.\<close>

definition route_of :: "RouteTableEntry list \<Rightarrow> PacketBuffer \<Rightarrow> RouteTableEntry option" where
  "route_of entries packet = find (\<lambda>e. rte_wire e = h_wire (pb_header packet)) entries"

lemma Router_forward_loop_route:
  "Router_forward_loop fwd entries packet ingress m w =
     (case route_of entries packet of None \<Rightarrow> (RR_kNoRoute, w)
      | Some e \<Rightarrow> if m \<noteq> 0 \<and> rte_wire_interfaces e AND m = 0 then (RR_kInvalidIngress, w)
         else if rte_wire_interfaces e AND NOT m = 0 \<and> ingress \<noteq> 0 then (RR_kNoEgress, w)
         else fwd packet (rte_wire_interfaces e AND NOT m) w)"
  by (induction entries) (auto simp: route_of_def kNoEgress_def Let_def)

lemma Router_forward_local:
  assumes "pb_ingress_index packet = 0"
  shows "Router_forward fwd entries packet w =
    (case route_of entries packet of None \<Rightarrow> (RR_kNoRoute, w)
     | Some e \<Rightarrow> fwd packet (rte_wire_interfaces e) w)"
  using assms
  by (auto simp: Router_forward_def Router_forward_loop_route split: option.splits)

lemma Router_forward_ingress:
  assumes "pb_ingress_index packet = i" and "i \<noteq> 0" and "i \<le> 8"
  shows "Router_forward fwd entries packet w =
    (case route_of entries packet of None \<Rightarrow> (RR_kNoRoute, w)
     | Some e \<Rightarrow> if \<not> bit (rte_wire_interfaces e) (unat i - 1) then (RR_kInvalidIngress, w)
        else if rte_wire_interfaces e AND NOT (push_bit (unat i - 1) 1) = 0 then (RR_kNoEgress, w)
        else fwd packet (rte_wire_interfaces e AND NOT (push_bit (unat i - 1) 1)) w)"
proof -
  have n: "unat (i - 1) < LENGTH(8)" using ingress_bit_u8 [OF assms(2,3)] by simp
  show ?thesis
    using assms n ingress_bit_u8(2) [OF assms(2,3)]
    by (auto simp: Router_forward_def Router_forward_loop_route and_exp_eq_0_iff leD Let_def
        exp_word_nonzero split: option.splits)
qed

subsection \<open>The contract of a forwarder\<close>

text \<open>
  A forwarder answers an admission outcome, never a routing refusal.  Under that contract
  a routing refusal of the router means that nothing was forwarded.
\<close>

locale packet_forwarder =
  fixes fwd :: "'w forward_fun"
  assumes fwd_admission: "fst (fwd p e w) \<notin> {RR_kNoRoute, RR_kNoEgress, RR_kInvalidIngress}"
begin

lemma refusal_keeps_memory:
  assumes "fst (Router_forward fwd entries p w) \<in> {RR_kNoRoute, RR_kNoEgress, RR_kInvalidIngress}"
  shows "snd (Router_forward fwd entries p w) = w"
  using assms fwd_admission [of p]
  by (auto simp: Router_forward_def Router_forward_loop_route Let_def split: option.splits if_splits)

lemma receive_refused:
  assumes "Router_receive fwd entries recv table host i p w = (res, p', w')"
    and "ir_routing res \<in> {RR_kNoRoute, RR_kInvalidIngress}"
  shows "w' = w \<and> ir_delivery res = DR_kNoEndpoint"
proof (cases "i = 0")
  case True
  with assms show ?thesis by (auto simp: Router_receive_def Let_def)
next
  case False
  obtain rr w1 where f: "Router_forward fwd entries (setIngressIndex i p) w = (rr, w1)"
    by (cases "Router_forward fwd entries (setIngressIndex i p) w")
  have "ir_routing res = rr"
    using assms(1) False f by (auto simp: Router_receive_def Let_def split: if_splits prod.splits)
  with assms(2) have rr: "rr \<in> {RR_kNoRoute, RR_kInvalidIngress}" by simp
  then have "w1 = w"
    using refusal_keeps_memory [of entries "setIngressIndex i p" w] f by auto
  with assms(1) False f rr show ?thesis
    by (auto simp: Router_receive_def Let_def split: if_splits prod.splits)
qed

end

interpretation demo_fwd: packet_forwarder "demo_Forwarder_forward trySend"
  for trySend :: "'w send_fun"
proof unfold_locales
  fix p e and w :: 'w
  obtain a w' where "trySend p w = (a, w')" by (cases "trySend p w")
  then show "fst (demo_Forwarder_forward trySend p e w)
      \<notin> {RR_kNoRoute, RR_kNoEgress, RR_kInvalidIngress}"
    by (cases a) (auto simp: demo_Forwarder_forward_def combineAdmission_def)
qed

interpretation local_fwd: packet_forwarder "LocalDispatchForwarder_forward recv table g"
  for recv :: "('r, 'w) receive_fun" and table g
  by unfold_locales (auto simp: LocalDispatchForwarder_forward_def split_def Let_def)

end
