(* ===== verification/Services.thy ===== *)
theory Services
  imports Routing
begin

section \<open>Polled services\<close>

text \<open>
  \<^verbatim>\<open>services/heartbeat\<close>, \<^verbatim>\<open>services/stack_report\<close>, \<^verbatim>\<open>services/ping\<close> and
  \<^verbatim>\<open>services/led_control\<close>.  A service's router pointer is an option; the router, the LED output
  and whatever they drive live in the memory \<open>'w\<close>.  Each reading of the
  millisecond clock is an argument of its own.
\<close>

type_synonym 'w router_ref = "(PacketBuffer \<Rightarrow> 'w \<Rightarrow> RouteResult \<times> 'w) option"

definition service_forward :: "(PacketBuffer \<Rightarrow> 'w \<Rightarrow> RouteResult \<times> 'w) \<Rightarrow> PacketBuffer \<Rightarrow> 'w \<Rightarrow> 'w" where
  "service_forward forward packet w = snd (forward packet w)"

subsection \<open>Periodic publications\<close>

record PublicationService =
  ps_wire :: WireNumber
  ps_source_host :: HostId
  ps_destination_host :: HostId
  ps_last_send_time_ms :: u32

definition address_header :: "PublicationService \<Rightarrow> EndpointAddress \<Rightarrow> Header \<Rightarrow> Header" where
  "address_header s endpoint h = h\<lparr>h_wire := ps_wire s, h_source := ps_source_host s,
     h_destination := ps_destination_host s, h_endpoint := endpoint\<rparr>"

definition kHeartbeatEndpoint :: EndpointAddress where
  "kHeartbeatEndpoint = EndpointAddress_from kCommon 0x3FFE"

definition heartbeat_packet :: "PublicationService \<Rightarrow> u32 \<Rightarrow> PacketBuffer" where
  "heartbeat_packet s now_ms =
     (let p = snd (initialize 4 defaultControlFields (PacketBuffer_new 4))
      in write_payload 0 (le32_bytes now_ms)
           (p\<lparr>pb_header := address_header s kHeartbeatEndpoint (pb_header p)\<rparr>))"

definition sendHeartbeat :: "'w router_ref \<Rightarrow> PublicationService \<Rightarrow> u32 \<Rightarrow> 'w \<Rightarrow> 'w" where
  "sendHeartbeat router s now_ms w =
     (case router of None \<Rightarrow> w | Some forward \<Rightarrow> service_forward forward (heartbeat_packet s now_ms) w)"

text \<open>
  \<^verbatim>\<open>run\<close> reads the clock for its check, and \<^verbatim>\<open>sendHeartbeat\<close> reads it again for the message; the
  clock may tick in between.
\<close>

definition HeartbeatService_run ::
  "u32 \<Rightarrow> 'w router_ref \<Rightarrow> u32 \<Rightarrow> u32 \<Rightarrow> PublicationService \<Rightarrow> 'w \<Rightarrow> PublicationService \<times> 'w" where
  "HeartbeatService_run period_ms router now_ms send_now_ms s w =
     (if period_ms \<le> now_ms - ps_last_send_time_ms s
      then (let s1 = s\<lparr>ps_last_send_time_ms := now_ms\<rparr> in (s1, sendHeartbeat router s1 send_now_ms w))
      else (s, w))"

definition kStackReportEndpoint :: EndpointAddress where
  "kStackReportEndpoint = EndpointAddress_from kCommon 0x3FFC"

definition stack_report_packet :: "PublicationService \<Rightarrow> u16 \<Rightarrow> u16 \<Rightarrow> PacketBuffer" where
  "stack_report_packet s peak_used_bytes capacity_bytes =
     (let p = snd (initialize 4 \<lparr>cf_qos = kBackground, cf_has_extensions = False, cf_transport_type = kSimple\<rparr>
                (PacketBuffer_new 4))
      in write_payload 0 [lo8 peak_used_bytes, hi8 peak_used_bytes, lo8 capacity_bytes, hi8 capacity_bytes]
           (p\<lparr>pb_header := address_header s kStackReportEndpoint (pb_header p)\<rparr>))"

definition sendReport :: "'w router_ref \<Rightarrow> PublicationService \<Rightarrow> u16 \<Rightarrow> u16 \<Rightarrow> 'w \<Rightarrow> 'w" where
  "sendReport router s peak_used_bytes capacity_bytes w =
     (case router of None \<Rightarrow> w
      | Some forward \<Rightarrow> service_forward forward (stack_report_packet s peak_used_bytes capacity_bytes) w)"

definition StackReportService_run ::
  "u32 \<Rightarrow> 'w router_ref \<Rightarrow> u32 \<Rightarrow> u16 \<Rightarrow> u16 \<Rightarrow> PublicationService \<Rightarrow> 'w \<Rightarrow> PublicationService \<times> 'w" where
  "StackReportService_run period_ms router now_ms peak_used_bytes capacity_bytes s w =
     (if now_ms - ps_last_send_time_ms s < period_ms then (s, w)
      else (let s1 = s\<lparr>ps_last_send_time_ms := now_ms\<rparr>
            in (s1, sendReport router s1 peak_used_bytes capacity_bytes w)))"

subsection \<open>Ping\<close>

definition kPingMagic :: u8 where "kPingMagic = 0xAB"
definition kTypeRequest :: u8 where "kTypeRequest = 0x01"
definition kTypeResponse :: u8 where "kTypeResponse = 0x02"

definition ping_response :: "Header \<Rightarrow> u16 \<Rightarrow> PacketBuffer" where
  "ping_response request_header sequence_number =
     write_payload 0 [kPingMagic, kTypeResponse, lo8 sequence_number, hi8 sequence_number]
       (snd (initializeResponseTo request_header 4 defaultControlFields (PacketBuffer_new 4)))"

definition Ping_processRequest :: "'w router_ref \<Rightarrow> PacketBuffer \<Rightarrow> 'w \<Rightarrow> 'w" where
  "Ping_processRequest router packet w =
     (case router of None \<Rightarrow> w
      | Some forward \<Rightarrow>
          if pb_size packet \<noteq> 4 \<or> HostId_isBroadcast (h_destination (pb_header packet)) then w
          else (let request = payload packet
                in if request ! 0 \<noteq> kPingMagic \<or> request ! 1 \<noteq> kTypeRequest then w
                   else service_forward forward
                          (ping_response (pb_header packet) (le16 (request ! 2) (request ! 3))) w))"

subsection \<open>LED control\<close>

definition kLedMagic :: u8 where "kLedMagic = 0x4C"

definition kLedControlEndpoint :: EndpointAddress where
  "kLedControlEndpoint = EndpointAddress_from kCommon 0x3FFB"

definition led_response :: "Header \<Rightarrow> u8 \<Rightarrow> u8 \<Rightarrow> PacketBuffer" where
  "led_response request_header brightness sequence_number =
     (let p = snd (initialize 4 \<lparr>cf_qos = kNormal, cf_has_extensions = False, cf_transport_type = kSimple\<rparr>
                (PacketBuffer_new 4))
      in write_payload 0 [kLedMagic, kTypeResponse, brightness, sequence_number]
           (p\<lparr>pb_header := (pb_header p)\<lparr>h_wire := h_wire request_header,
              h_source := h_destination request_header, h_destination := h_source request_header,
              h_endpoint := kLedControlEndpoint\<rparr>\<rparr>))"

definition Led_processRequest ::
  "'w router_ref \<Rightarrow> (u8 \<Rightarrow> 'w \<Rightarrow> 'w) option \<Rightarrow> PacketBuffer \<Rightarrow> 'w \<Rightarrow> 'w" where
  "Led_processRequest router set_brightness packet w =
     (case router of None \<Rightarrow> w
      | Some forward \<Rightarrow>
          (case set_brightness of None \<Rightarrow> w
           | Some set_output \<Rightarrow>
               if pb_size packet \<noteq> 4 \<or> HostId_isBroadcast (h_destination (pb_header packet)) then w
               else (let request = payload packet
                     in if request ! 0 \<noteq> kLedMagic \<or> request ! 1 \<noteq> kTypeRequest then w
                        else service_forward forward
                               (led_response (pb_header packet) (request ! 2) (request ! 3))
                               (set_output (request ! 2) w))))"

subsection \<open>The polling loop\<close>

text \<open>
  \<^verbatim>\<open>run\<close> of both services: dequeue into one packet and process it, until the queue is empty.
  The packet is reused, as in the source.
\<close>

partial_function (option) service_run ::
  "(PacketBuffer \<Rightarrow> 'w \<Rightarrow> 'w) \<Rightarrow> u16 \<Rightarrow> nat \<Rightarrow> PacketBuffer \<Rightarrow> unit endpoint_queue \<Rightarrow> 'w
    \<Rightarrow> (unit endpoint_queue \<times> 'w) option" where
  "service_run process pc qc packet q w =
     (case EndpointReceiverQueue_dequeue NoLock pc qc packet q of
        (got, packet1, q1) \<Rightarrow>
          if got then service_run process pc qc packet1 q1 (process packet1 w) else Some (q1, w))"

definition PingService_run ::
  "'w router_ref \<Rightarrow> unit endpoint_queue \<Rightarrow> 'w \<Rightarrow> (unit endpoint_queue \<times> 'w) option" where
  "PingService_run router q w = service_run (Ping_processRequest router) 4 2 (PacketBuffer_new 4) q w"

definition LedControlService_run ::
  "'w router_ref \<Rightarrow> (u8 \<Rightarrow> 'w \<Rightarrow> 'w) option \<Rightarrow> unit endpoint_queue \<Rightarrow> 'w
    \<Rightarrow> (unit endpoint_queue \<times> 'w) option" where
  "LedControlService_run router set_brightness q w =
     service_run (Led_processRequest router set_brightness) 4 2 (PacketBuffer_new 4) q w"

text \<open>The Simple-only admission in front of both queues.\<close>

definition service_receive ::
  "u16 \<Rightarrow> nat \<Rightarrow> PacketBuffer \<Rightarrow> unit endpoint_queue \<Rightarrow> ReceiveResult \<times> unit endpoint_queue" where
  "service_receive pc qc packet q =
     TransportFilterReceiver_receive (EndpointReceiverQueue_receive NoLock pc qc) kSimple packet q"

subsection \<open>The loop handles every queued packet once, in order\<close>

lemma service_run_drains:
  assumes "EQ_invar pc qc q" and "packet_invar packet" and "pc \<le> pb_capacity packet"
  shows "\<exists>q' ps. map packet_view ps = EQ_views qc q \<and> (\<forall>p \<in> set ps. packet_invar p)
    \<and> service_run process pc qc packet q w = Some (q', fold process ps w)
    \<and> EQ_invar pc qc q' \<and> EQ_views qc q' = []"
  using assms
proof (induction "EQ_views qc q" arbitrary: q packet w)
  case Nil
  from EQ_dequeue_empty [OF Nil.prems(1,3) Nil.hyps [symmetric], of NoLock] obtain q' where
    q': "EndpointReceiverQueue_dequeue NoLock pc qc packet q = (False, packet, q')"
      "EQ_invar pc qc q'" "EQ_views qc q' = []" by blast
  then have "service_run process pc qc packet q w = Some (q', w)" by (subst service_run.simps) simp
  with q' Nil.hyps show ?case by (intro exI [of _ q'] exI [of _ "[]"]) simp
next
  case (Cons v vs)
  from EQ_dequeue_next [OF Cons.prems(1,2,3) Cons.hyps(2) [symmetric], of NoLock] obtain p' q' where
    p': "EndpointReceiverQueue_dequeue NoLock pc qc packet q = (True, p', q')" "packet_view p' = v"
      "packet_invar p'" "pb_capacity p' = pb_capacity packet" "EQ_invar pc qc q'" "EQ_views qc q' = vs"
    by blast
  have cap: "pc \<le> pb_capacity p'" using p'(4) Cons.prems(3) by simp
  from Cons.hyps(1) [OF p'(6) [symmetric] p'(5,3) cap, of "process p' w"] obtain q2 ps where
    r: "map packet_view ps = EQ_views qc q'" "\<forall>p \<in> set ps. packet_invar p"
      "service_run process pc qc p' q' (process p' w) = Some (q2, fold process ps (process p' w))"
      "EQ_invar pc qc q2" "EQ_views qc q2 = []" by blast
  have "service_run process pc qc packet q w = Some (q2, fold process (p' # ps) w)"
    using p'(1) r(3) by (subst service_run.simps) simp
  then show ?case
    using r p' Cons.hyps(2) by (intro exI [of _ q2] exI [of _ "p' # ps"]) auto
qed

subsection \<open>What a request does\<close>

text \<open>A packet built by a service: its view, with the header it was addressed with.\<close>

lemma initialize_new4:
  "snd (initialize 4 cf (PacketBuffer_new 4)) = (PacketBuffer_new 4)\<lparr>pb_size := 4,
     pb_header := setControlFields cf Header_zero, pb_ingress_index := 0\<rparr>"
  "snd (initializeResponseTo h 4 cf (PacketBuffer_new 4)) = (PacketBuffer_new 4)\<lparr>pb_size := 4,
     pb_header := (setControlFields cf Header_zero)\<lparr>h_wire := h_wire h, h_source := h_destination h,
       h_destination := h_source h, h_endpoint := h_endpoint h\<rparr>, pb_ingress_index := 0\<rparr>"
  by (simp_all add: initialize_def initializeResponseTo_def resize_def PacketBuffer_new_def)

lemma new4_fields:
  "pb_storage (PacketBuffer_new 4) = replicate 4 0" "pb_capacity (PacketBuffer_new 4) = 4"
  by (simp_all add: PacketBuffer_new_def)

lemma response_written:
  assumes "length bs = 4" and "pb_storage p = replicate 4 0" and "pb_capacity p = 4" and "pb_size p = 4"
  shows "payload (write_payload 0 bs p) = bs" and "packet_invar (write_payload 0 bs p)"
proof -
  have "packet_invar p" using assms by (simp add: packet_invar_def)
  then show "payload (write_payload 0 bs p) = bs" "packet_invar (write_payload 0 bs p)"
    using assms by (simp_all add: payload_write_payload)
qed

lemma simple_control_supported:
  "hasSupportedControl ((setControlFields (ControlFields_simple q) Header_zero)\<lparr>h_wire := a, h_source := b,
     h_destination := c, h_endpoint := d\<rparr>)"
  by (cases q) (simp_all add: hasSupportedControl_def setControlFields_def setTransportType_def
      setHasExtensions_def setQoS_def ControlFields_simple_def Header_zero_def kSimple_def kNumTransportTypes_def)

lemma ping_response_view:
  "payload (ping_response h seq) = [kPingMagic, kTypeResponse, lo8 seq, hi8 seq]"
  "packet_invar (ping_response h seq)"
  "h_wire (pb_header (ping_response h seq)) = h_wire h"
  "h_source (pb_header (ping_response h seq)) = h_destination h"
  "h_destination (pb_header (ping_response h seq)) = h_source h"
  "h_endpoint (pb_header (ping_response h seq)) = h_endpoint h"
  "hasSupportedControl (pb_header (ping_response h seq))"
  unfolding ping_response_def initialize_new4
  by (simp_all add: response_written new4_fields defaultControlFields_def simple_control_supported)

lemma led_response_view:
  "payload (led_response h b seq) = [kLedMagic, kTypeResponse, b, seq]"
  "packet_invar (led_response h b seq)"
  "h_wire (pb_header (led_response h b seq)) = h_wire h"
  "h_source (pb_header (led_response h b seq)) = h_destination h"
  "h_destination (pb_header (led_response h b seq)) = h_source h"
  "h_endpoint (pb_header (led_response h b seq)) = kLedControlEndpoint"
  unfolding led_response_def initialize_new4 Let_def
  by (simp_all add: response_written new4_fields)

lemma heartbeat_packet_view:
  "payload (heartbeat_packet s now) = le32_bytes now" "packet_invar (heartbeat_packet s now)"
  "h_wire (pb_header (heartbeat_packet s now)) = ps_wire s"
  "h_source (pb_header (heartbeat_packet s now)) = ps_source_host s"
  "h_destination (pb_header (heartbeat_packet s now)) = ps_destination_host s"
  "h_endpoint (pb_header (heartbeat_packet s now)) = kHeartbeatEndpoint"
  unfolding heartbeat_packet_def initialize_new4 Let_def address_header_def
  by (simp_all add: response_written new4_fields)

lemma list_length_4:
  assumes "length xs = 4"
  shows "xs = [xs ! 0, xs ! 1, xs ! 2, xs ! 3]"
proof -
  have "length xs = Suc (Suc (Suc (Suc 0)))" using assms by simp
  then obtain a b c d where "xs = [a, b, c, d]" by (auto simp: length_Suc_conv)
  then show ?thesis by simp
qed

lemma four_bytes:
  assumes "packet_invar p" and "pb_size p = 4"
  shows "payload p = [payload p ! 0, payload p ! 1, payload p ! 2, payload p ! 3]"
  using assms by (intro list_length_4) simp

lemma Ping_processRequest_spec:
  assumes "packet_invar p"
  shows "Ping_processRequest (Some forward) p w =
    (if (\<exists>a b. payload p = [kPingMagic, kTypeRequest, a, b]) \<and> \<not> HostId_isBroadcast (h_destination (pb_header p))
     then snd (forward (ping_response (pb_header p) (le16 (payload p ! 2) (payload p ! 3))) w)
     else w)"
proof (cases "pb_size p = 4")
  case True
  from four_bytes [OF assms True] obtain m t a b where p: "payload p = [m, t, a, b]" by blast
  show ?thesis using True by (auto simp: Ping_processRequest_def p service_forward_def)
next
  case False
  then have "length (payload p) \<noteq> 4" using assms by (auto simp: unat_eq_iff [symmetric])
  then show ?thesis using False by (auto simp: Ping_processRequest_def)
qed

lemma Led_processRequest_spec:
  assumes "packet_invar p"
  shows "Led_processRequest (Some forward) (Some out) p w =
    (if (\<exists>a b. payload p = [kLedMagic, kTypeRequest, a, b]) \<and> \<not> HostId_isBroadcast (h_destination (pb_header p))
     then snd (forward (led_response (pb_header p) (payload p ! 2) (payload p ! 3)) (out (payload p ! 2) w))
     else w)"
proof (cases "pb_size p = 4")
  case True
  from four_bytes [OF assms True] obtain m t a b where p: "payload p = [m, t, a, b]" by blast
  show ?thesis using True by (auto simp: Led_processRequest_def p service_forward_def)
next
  case False
  then have "length (payload p) \<noteq> 4" using assms by (auto simp: unat_eq_iff [symmetric])
  then show ?thesis using False by (auto simp: Led_processRequest_def)
qed

text \<open>A response is not a request, so two ping services cannot answer each other forever.\<close>

lemma ping_response_is_final:
  "Ping_processRequest router (ping_response h seq) w = w"
  by (cases router) (simp_all add: Ping_processRequest_def ping_response_view kTypeRequest_def kTypeResponse_def Let_def)

text \<open>The periodic services keep their phase across the wrap of the clock.\<close>

lemma heartbeat_period:
  assumes "HeartbeatService_run period router now send_now s w = (s', w')"
  shows "s' \<noteq> s \<or> w' \<noteq> w \<longrightarrow> period \<le> now - ps_last_send_time_ms s"
    and "period \<le> now - ps_last_send_time_ms s \<longrightarrow> ps_last_send_time_ms s' = now"
  using assms by (auto simp: HeartbeatService_run_def Let_def split: if_splits)

end
