(* ===== verification/Core_Properties.thy ===== *)
theory Core_Properties
  imports Spsc Services
begin

section \<open>Properties of the core library\<close>

text \<open>
  The containers, packets, dispatch, routing and services, each property with an
  instance at concrete values.
\<close>

subsection \<open>Containers\<close>

text \<open>C20: a \<^verbatim>\<open>Queue\<close> of any capacity that fits its 16-bit indices answers every sequence of
  enqueue and dequeue calls exactly as the bounded FIFO list does, under any lock policy.\<close>

theorem Queue_refines_fifo:
  assumes "0 < cap" and "cap < 2 ^ 16"
  shows "fst (fifo_run (Queue_enqueue lp cap) (Queue_dequeue lp cap) (Queue_init cap d l) ops)
      = fst (spec_fifo_run cap [] ops)
    \<and> Queue_contents cap (snd (fifo_run (Queue_enqueue lp cap) (Queue_dequeue lp cap) (Queue_init cap d l) ops))
      = snd (spec_fifo_run cap [] ops)"
proof -
  have "Queue_contents cap (Queue_init cap d l) = []" by (simp add: Queue_contents_def Queue_init_def)
  with queue_fifo.run_refines [OF Queue_init_invar [OF assms, of d l], of lp ops] show ?thesis by simp
qed

theorem Queue_refines_fifo_witness:
  "fst (fifo_run (Queue_enqueue NoLock 2) (Queue_dequeue NoLock 2) (Queue_init 2 (0::nat) ())
     [Enq 5, Enq 6, Enq 7, Deq, Enq 8, Deq, Deq, Deq])
   = [Stored True, Stored True, Stored False, Got (Some 5), Stored True, Got (Some 6), Got (Some 8), Got None]"
  using Queue_refines_fifo [of 2 NoLock "0::nat" "()" "[Enq 5, Enq 6, Enq 7, Deq, Enq 8, Deq, Deq, Deq]"]
  by simp

text \<open>C21: a \<^verbatim>\<open>RingBuffer\<close> of any capacity its index type can count refines the same bounded
  FIFO, and \<^verbatim>\<open>size()\<close> is the number of stored items even when the indices have wrapped.\<close>

theorem RingBuffer_refines_fifo:
  fixes d :: 'a
  assumes "0 < cap" and "cap < 2 ^ LENGTH('i::len)"
  defines "run \<equiv> fifo_run (RingBuffer_enqueue cap) (RingBuffer_dequeue cap)
      (RingBuffer_init cap d :: ('a, 'i word) RingBuffer)"
  shows "fst (run ops) = fst (spec_fifo_run cap [] ops)
    \<and> RingBuffer_contents cap (snd (run ops)) = snd (spec_fifo_run cap [] ops)
    \<and> unat (RingBuffer_size cap (snd (run ops))) = length (snd (spec_fifo_run cap [] ops))"
proof -
  have "RingBuffer_contents cap (RingBuffer_init cap d :: ('a, 'i word) RingBuffer) = []"
    by (simp add: RingBuffer_contents_def RingBuffer_count_def RingBuffer_init_def)
  with ring_fifo.run_refines [OF RingBuffer_init_invar [OF assms(1,2), of d], of ops] show ?thesis
    by (auto simp: run_def RingBuffer_size_count)
qed

theorem RingBuffer_refines_fifo_witness:
  "fst (fifo_run (RingBuffer_enqueue 2) (RingBuffer_dequeue 2) (RingBuffer_init 2 0 :: (nat, 8 word) RingBuffer)
     [Enq 5, Enq 6, Enq 7, Deq, Enq 8, Deq])
   = [Stored True, Stored True, Stored False, Got (Some 5), Stored True, Got (Some 6)]"
  using RingBuffer_refines_fifo [where ?'i = 8, of 2 "0::nat" "[Enq 5, Enq 6, Enq 7, Deq, Enq 8, Deq]"]
  by simp

text \<open>C15: under every interleaving of one producer and one consumer, the items dequeued so far
  followed by the items stored are the items enqueued so far, in order; nothing is lost,
  duplicated or read before it was written.\<close>

theorem spsc_no_loss:
  fixes s :: "('a, 'i::len word) spsc"
  assumes "spsc_reachable cap dflt s" and "0 < cap" and "cap < 2 ^ LENGTH('i)"
  shows "sp_enqueued s = sp_dequeued s @ RingBuffer_contents cap (sp_ring s)
    \<and> length (RingBuffer_contents cap (sp_ring s)) \<le> cap
    \<and> (\<forall>x. sp_consumer s = CRelease x \<longrightarrow> hd (RingBuffer_contents cap (sp_ring s)) = x)"
proof -
  have inv: "spsc_invar cap s" using spsc_reachable_invar [OF assms] .
  then have "hd (RingBuffer_contents cap (sp_ring s)) = x" if "sp_consumer s = CRelease x" for x
    using that RingBuffer_release(3) [of cap "sp_ring s"] by (auto simp: spsc_invar_def consumer_ok_def)
  with inv show ?thesis by (simp add: spsc_invar_def RingBuffer_count_le)
qed

theorem spsc_no_loss_witness:
  "\<exists>s :: (nat, 8 word) spsc. spsc_reachable 1 0 s \<and> sp_enqueued s = [7]
     \<and> sp_enqueued s = sp_dequeued s @ RingBuffer_contents 1 (sp_ring s)"
proof -
  let ?s0 = "spsc_init 1 0 :: (nat, 8 word) spsc"
  let ?s1 = "?s0\<lparr>sp_producer := PStore 7\<rparr>"
  let ?s2 = "?s1\<lparr>sp_producer := PPublish 7, sp_ring := (sp_ring ?s1)\<lparr>rb_buffer :=
      (rb_buffer (sp_ring ?s1))[unat (rb_write_index (sp_ring ?s1)) := 7]\<rparr>\<rparr>"
  let ?s3 = "?s2\<lparr>sp_producer := PIdle, sp_ring := (sp_ring ?s2)\<lparr>rb_write_index :=
      RingBuffer_increment 1 (rb_write_index (sp_ring ?s2))\<rparr>, sp_enqueued := sp_enqueued ?s2 @ [7]\<rparr>"
  have "spsc_step 1 ?s0 ?s1"
    by (rule spsc_step.enqueue_room)
      (simp_all add: spsc_init_def RingBuffer_init_def RingBuffer_isFull_def RingBuffer_increment_def)
  moreover have "spsc_step 1 ?s1 ?s2" by (rule spsc_step.enqueue_store) simp_all
  moreover have "spsc_step 1 ?s2 ?s3" by (rule spsc_step.enqueue_publish) simp_all
  ultimately have r: "spsc_reachable 1 0 ?s3" by (meson spsc_reachable.start spsc_reachable.step)
  have "sp_enqueued ?s3 = [7]" by (simp add: spsc_init_def)
  with r spsc_no_loss [OF r] show ?thesis by (intro exI [of _ ?s3]) simp
qed

subsection \<open>Packets\<close>

text \<open>C39: writing control fields and reading them back gives the same QoS, extension flag and
  transport, keeps the rest of the header, and leaves the two reserved bits as they were.\<close>

theorem control_fields_read_back:
  assumes "cf_transport_type cf < 8"
  shows "Header_qos (setControlFields cf h) = cf_qos cf
    \<and> Header_hasExtensions (setControlFields cf h) = cf_has_extensions cf
    \<and> Header_transportType (setControlFields cf h) = cf_transport_type cf
    \<and> (setControlFields cf h)\<lparr>h_control := h_control h\<rparr> = h
    \<and> h_control (setControlFields cf h) AND 0x30 = h_control h AND 0x30"
proof -
  have "(setControlFields cf h)\<lparr>h_control := h_control h\<rparr> = h"
    by (cases h) (simp add: setControlFields_def setTransportType_def setHasExtensions_def setQoS_def)
  then show ?thesis using assms reserved_setControlFields [OF assms, of h] by simp
qed

theorem control_fields_read_back_witness:
  "Header_qos (setControlFields (ControlFields_bits kHigh) Header_zero) = kHigh
   \<and> Header_transportType (setControlFields (ControlFields_bits kHigh) Header_zero) = kBits"
  using control_fields_read_back [of "ControlFields_bits kHigh" Header_zero]
  by (simp add: ControlFields_bits_def kBits_def)

text \<open>C40: a control byte is supported exactly when the reserved bits and the extension flag are
  clear and the transport is one of the two that exist; so a receiver that checks it never
  sees a transport outside the enumeration.\<close>

theorem supported_control_exact:
  "hasSupportedControl h \<longleftrightarrow> h_control h AND 0x30 = 0 \<and> \<not> Header_hasExtensions h
     \<and> (Header_transportType h = kSimple \<or> Header_transportType h = kBits)"
proof -
  have "(x < 2) = (x = 0 \<or> x = 1)" for x :: u8
    by (simp add: word_less_nat_alt less_2_cases_iff word_unat_eq_iff)
  then show ?thesis unfolding supported_control_iff kSimple_def kBits_def by simp
qed

text \<open>A packet copied into a buffer that can hold it has the source's header, ingress tag and
  payload and keeps the buffer's capacity; a packet that does not fit leaves the buffer alone.\<close>

lemma copyFrom_exact:
  assumes "packet_invar src" and "packet_invar p"
  shows "if pb_size src \<le> pb_capacity p
    then \<exists>p'. copyFrom src p = (True, p') \<and> packet_invar p' \<and> pb_header p' = pb_header src
      \<and> pb_ingress_index p' = pb_ingress_index src \<and> payload p' = payload src \<and> pb_capacity p' = pb_capacity p
    else copyFrom src p = (False, p)"
  using copyFrom_success [OF assms] copyFrom_invar [OF assms] copyFrom_failure [of p src]
  by (cases "copyFrom src p") (auto simp: not_le)

subsection \<open>Dispatch\<close>

text \<open>C25: a broadcast that is accepted for dispatch calls every receiver bound to its endpoint
  exactly once, each on the memory it would see alone, and answers the best of their results.\<close>

theorem broadcast_reaches_each_once:
  assumes "HostId_isBroadcast (h_destination (pb_header p))" and "hasSupportedControl (pb_header p)"
    and "isMemberOf host (h_wire (pb_header p))" and "distinct (selected es p host)"
  shows "fst (dispatch heap_receive es p host heap)
      = best_result (map (\<lambda>r. fst (object_receive p (heap r))) (selected es p host))
    \<and> (\<forall>r. snd (dispatch heap_receive es p host heap) r =
        (if r \<in> set (selected es p host) then snd (object_receive p (heap r)) else heap r))"
  using heap.dispatch_broadcast_each_once [OF assms, of heap]
    heap.dispatch_changes_selected_only [of _ es p host heap] by auto

definition example_broadcast :: PacketBuffer where
  "example_broadcast = (PacketBuffer_new 4)\<lparr>pb_size := 2, pb_header := Header_zero\<lparr>h_wire := 1, h_destination := 0xFF, h_endpoint := 9\<rparr>\<rparr>"

definition example_host :: HostInfo where
  "example_host = \<lparr>hi_id = 3, hi_wire_count = 1, hi_wires = [1, 0, 0, 0, 0, 0]\<rparr>"

theorem broadcast_reaches_each_once_witness:
  "fst (dispatch heap_receive [\<lparr>dte_endpoint = 9, dte_receiver = Some (0::nat)\<rparr>, \<lparr>dte_endpoint = 9, dte_receiver = Some 1\<rparr>]
     example_broadcast example_host (\<lambda>_. SnapshotReceiver Snapshot_init)) = DR_kAccepted"
  by (subst broadcast_reaches_each_once [THEN conjunct1])
    (simp_all add: example_broadcast_def example_host_def HostId_isBroadcast_def kBroadcastHostValue_def
      hasSupportedControl_def Header_zero_def kNumTransportTypes_def isMemberOf_def kMaximumHostWires_def
      selected_def map_filter_simps Snapshot_receive_def Snapshot_init_def payload_def PacketBuffer_new_def
      kDefaultEndpointStorageCapacity_def best_result_def Let_def)

text \<open>A unicast packet changes nothing but the first receiver bound to its endpoint on the
  addressed host, whose answer is the dispatch result; with no such receiver it reports
  no endpoint, and an unsupported control byte is rejected first.\<close>

lemma unicast_reaches_first:
  assumes "\<not> HostId_isBroadcast (h_destination (pb_header p))"
  shows "dispatch heap_receive es p host heap =
    (if \<not> hasSupportedControl (pb_header p) then (DR_kRejected, heap)
     else case selected es p host of [] \<Rightarrow> (DR_kNoEndpoint, heap)
       | r # _ \<Rightarrow> (toDispatchResult (fst (object_receive p (heap r))), heap(r := snd (object_receive p (heap r)))))"
  using assms by (auto simp: dispatch_def dispatch_loop_unicast heap_receive_def split_def Let_def split: list.splits)

text \<open>The snapshot mailbox returns the bytes of the last packet it accepted, however many it
  was offered, with a generation counter that advanced.\<close>

lemma snapshot_read_latest:
  assumes "Snapshot_invar s" and "Snapshot_receive p s = (RX_kAccepted, s')" and "length (payload p) \<le> length out_bytes"
  shows "Snapshot_read s' out_bytes =
      Some (span_write 0 (payload p) out_bytes, word_of_nat (length (payload p)), sn_generation s + 1)
    \<and> Snapshot_invar s'"
  using Snapshot_read_after_receive [OF assms] Snapshot_receive_invar [OF assms(1), of p] assms(2) by simp

subsection \<open>Routing\<close>

text \<open>The coarse outcome of a fan-out depends only on which admissions occurred, not on their
  order or number: nothing selected, all accepted, some accepted, or the worst refusal.\<close>

lemma fan_out_order_independent:
  "fan_out_result as = fan_out_spec (set as)"
  by (rule fan_out_result_spec)

text \<open>C24: a packet that arrived on an interface is forwarded with the interfaces of its wire's route
  less the one it came from; an interface that is not on the wire is refused, and a route
  with no other interface is not forwarded at all.\<close>

theorem router_split_horizon:
  assumes "pb_ingress_index packet = i" and "i \<noteq> 0" and "i \<le> 8"
  shows "case route_of entries packet of
      None \<Rightarrow> Router_forward fwd entries packet w = (RR_kNoRoute, w)
    | Some e \<Rightarrow>
        if \<not> bit (rte_wire_interfaces e) (unat i - 1) then Router_forward fwd entries packet w = (RR_kInvalidIngress, w)
        else \<exists>egress. (\<forall>m. bit egress m \<longleftrightarrow> bit (rte_wire_interfaces e) m \<and> m \<noteq> unat i - 1)
          \<and> Router_forward fwd entries packet w = (if egress = 0 then (RR_kNoEgress, w) else fwd packet egress w)"
proof (cases "route_of entries packet")
  case None
  then show ?thesis using Router_forward_ingress [OF assms, of fwd entries w] by simp
next
  case (Some e)
  let ?egress = "rte_wire_interfaces e AND NOT (push_bit (unat i - 1) 1)"
  have "\<forall>m. bit ?egress m \<longleftrightarrow> bit (rte_wire_interfaces e) m \<and> m \<noteq> unat i - 1"
    by (simp add: bit_split_horizon)
  moreover have "Router_forward fwd entries packet w =
      (if \<not> bit (rte_wire_interfaces e) (unat i - 1) then (RR_kInvalidIngress, w)
       else if ?egress = 0 then (RR_kNoEgress, w) else fwd packet ?egress w)"
    unfolding Router_forward_ingress [OF assms, of fwd entries w] Some by (rule option.case)
  ultimately show ?thesis unfolding Some option.case by (metis (full_types))
qed

definition example_routes :: "RouteTableEntry list" where
  "example_routes = [\<lparr>rte_wire = 1, rte_wire_interfaces = 7\<rparr>]"

theorem router_split_horizon_witness:
  "Router_forward (\<lambda>p egress w. (RR_kAccepted, egress)) example_routes
     (setIngressIndex 2 example_broadcast) 0 = (RR_kAccepted, 5)"
proof -
  let ?p = "setIngressIndex 2 example_broadcast"
  have r: "route_of example_routes ?p = Some \<lparr>rte_wire = 1, rte_wire_interfaces = 7\<rparr>"
    by (simp add: route_of_def example_routes_def example_broadcast_def setIngressIndex_def)
  have h: "pb_ingress_index ?p = 2" "(2::u8) \<noteq> 0" "(2::u8) \<le> 8" by (simp_all add: setIngressIndex_def)
  obtain egress :: u8 where e: "\<forall>m. bit egress m \<longleftrightarrow> bit (7::u8) m \<and> m \<noteq> 1"
    "Router_forward (\<lambda>p egress w. (RR_kAccepted, egress)) example_routes ?p 0
      = (if egress = 0 then (RR_kNoEgress, 0) else (RR_kAccepted, egress))"
    using router_split_horizon [OF h, of "\<lambda>p egress w. (RR_kAccepted, egress)" example_routes 0] r
    by (auto simp: bit_simps)
  have "egress = 5" using e(1) by (intro word8_eqI) (auto simp: bit_simps)
  with e(2) show ?thesis by simp
qed

text \<open>C26: when the router refuses an ingress packet for lack of a route or a valid interface, no
  link has been called, no receiver has been called and the delivery result says so.\<close>

theorem ingress_refusal_is_inert:
  assumes "Router_receive (demo_Forwarder_forward trySend) entries recv table host i p w = (res, p', w')"
    and "ir_routing res \<in> {RR_kNoRoute, RR_kInvalidIngress}"
  shows "w' = w \<and> ir_delivery res = DR_kNoEndpoint"
  using demo_fwd.receive_refused [OF assms] .

theorem ingress_refusal_is_inert_witness:
  "\<exists>res p'. Router_receive (demo_Forwarder_forward (\<lambda>p w. (LA_kAccepted, w + 1))) example_routes
      (\<lambda>(r::nat) p w. (RX_kAccepted, w + 1)) [] example_host 4 example_broadcast (0::nat) = (res, p', 0)
    \<and> ir_delivery res = DR_kNoEndpoint"
proof -
  let ?run = "Router_receive (demo_Forwarder_forward (\<lambda>p w. (LA_kAccepted, w + 1))) example_routes
      (\<lambda>(r::nat) p w. (RX_kAccepted, w + 1)) [] example_host 4 example_broadcast (0::nat)"
  obtain res p' w' where r: "?run = (res, p', w')" by (cases ?run) auto
  have "Router_forward (demo_Forwarder_forward (\<lambda>p w. (LA_kAccepted, w + 1))) example_routes
      (setIngressIndex 4 example_broadcast) (0::nat) = (RR_kInvalidIngress, 0)"
    by (simp add: Router_forward_def example_routes_def setIngressIndex_def example_broadcast_def Let_def)
  then have "ir_routing res \<in> {RR_kNoRoute, RR_kInvalidIngress}"
    using r by (auto simp: Router_receive_def Let_def split: if_splits)
  from ingress_refusal_is_inert [OF r this] r show ?thesis by auto
qed

subsection \<open>Services\<close>

text \<open>What a run does with one queued packet, in terms of what the queue holds.\<close>

definition ping_view_step ::
  "(PacketBuffer \<Rightarrow> 'w \<Rightarrow> RouteResult \<times> 'w) \<Rightarrow> Header \<times> u8 \<times> bytes \<Rightarrow> 'w \<Rightarrow> 'w" where
  "ping_view_step forward v w =
     (case v of (h, i, bs) \<Rightarrow>
        if length bs = 4 \<and> take 2 bs = [kPingMagic, kTypeRequest] \<and> \<not> HostId_isBroadcast (h_destination h)
        then snd (forward (ping_response h (le16 (bs ! 2) (bs ! 3))) w) else w)"

lemma Ping_processRequest_view:
  assumes "packet_invar p"
  shows "Ping_processRequest (Some forward) p w = ping_view_step forward (packet_view p) w"
proof -
  have "(\<exists>a b. payload p = [kPingMagic, kTypeRequest, a, b])
      \<longleftrightarrow> length (payload p) = 4 \<and> take 2 (payload p) = [kPingMagic, kTypeRequest]"
  proof
    assume a: "length (payload p) = 4 \<and> take 2 (payload p) = [kPingMagic, kTypeRequest]"
    then obtain x y a b where "payload p = [x, y, a, b]" using list_length_4 by blast
    with a show "\<exists>a b. payload p = [kPingMagic, kTypeRequest, a, b]" by simp
  qed auto
  then show ?thesis
    unfolding Ping_processRequest_spec [OF assms] ping_view_step_def packet_view_def by simp
qed

text \<open>C27: one run of the ping service empties its queue and answers, in arrival order, every
  well-formed unicast request with its sequence number; everything else in the queue is
  dropped without a reply.  The loop always ends.\<close>

theorem ping_service_answers_all:
  assumes "EQ_invar 4 2 q"
  shows "\<exists>q'. PingService_run (Some forward) q w = Some (q', fold (ping_view_step forward) (EQ_views 2 q) w)
    \<and> EQ_invar 4 2 q' \<and> EQ_views 2 q' = []"
proof -
  let ?f = "Ping_processRequest (Some forward)"
  obtain q' ps where r: "map packet_view ps = EQ_views 2 q" "\<forall>p \<in> set ps. packet_invar p"
    "service_run ?f 4 2 (PacketBuffer_new 4) q w = Some (q', fold ?f ps w)" "EQ_invar 4 2 q'" "EQ_views 2 q' = []"
    using service_run_drains [OF assms packet_invar_new, of 4 ?f w] by (auto simp: PacketBuffer_new_def)
  have "fold ?f ps w = fold (ping_view_step forward \<circ> packet_view) ps w"
    using r(2) by (intro fold_cong) (auto simp: fun_eq_iff Ping_processRequest_view)
  then have "fold ?f ps w = fold (ping_view_step forward) (EQ_views 2 q) w"
    using r(1) by (simp add: fold_map [symmetric])
  with r show ?thesis by (auto simp: PingService_run_def)
qed

definition example_ping :: PacketBuffer where
  "example_ping = write_payload 0 [kPingMagic, kTypeRequest, 5, 1] ((PacketBuffer_new 4)\<lparr>pb_size := 4\<rparr>)"

definition example_ping_queue :: "unit endpoint_queue" where
  "example_ping_queue = snd (EndpointReceiverQueue_receive NoLock 4 2 example_ping (EndpointReceiverQueue_init 4 2 ()))"

theorem ping_service_answers_all_witness:
  "\<exists>q'. PingService_run (Some (\<lambda>p w. (RR_kAccepted, w @ [p]))) example_ping_queue [] = Some (q', [ping_response Header_zero 0x105])"
proof -
  let ?p0 = "(PacketBuffer_new 4)\<lparr>pb_size := 4\<rparr>"
  have p: "packet_invar example_ping" "payload example_ping = [kPingMagic, kTypeRequest, 5, 1]" "pb_header example_ping = Header_zero"
    "pb_size example_ping = 4"
    by (simp_all add: example_ping_def packet_invar_def PacketBuffer_new_def write_payload_def payload_def span_write_def)
  have e: "EQ_invar 4 2 (EndpointReceiverQueue_init 4 2 ())" "EQ_views 2 (EndpointReceiverQueue_init 4 2 ()) = []"
    by (simp_all add: EQ_init_invar)
  have q: "EQ_invar 4 2 example_ping_queue" "EQ_views 2 example_ping_queue = [packet_view example_ping]"
    using EQ_receive_accepts [OF e(1) p(1), of NoLock] p(4) e(2) by (simp_all add: example_ping_queue_def)
  then show ?thesis
    using ping_service_answers_all [OF q(1), of "\<lambda>p w. (RR_kAccepted, w @ [p])" "[]"] p
    by (auto simp: ping_view_step_def packet_view_def HostId_isBroadcast_def Header_zero_def kBroadcastHostValue_def le16_def)
qed

text \<open>The heartbeat is published exactly when at least its period of milliseconds has really
  passed since the last one, also when the 32-bit clock wrapped in between.\<close>

lemma heartbeat_period_exact:
  assumes "d < 2 ^ 32" and "now_ms = ps_last_send_time_ms s + of_nat d"
  shows "HeartbeatService_run period router now_ms send_now_ms s w =
    (if unat period \<le> d
     then (s\<lparr>ps_last_send_time_ms := now_ms\<rparr>, sendHeartbeat router (s\<lparr>ps_last_send_time_ms := now_ms\<rparr>) send_now_ms w)
     else (s, w))"
proof -
  have "unat (now_ms - ps_last_send_time_ms s) = d"
    using assms by (simp add: unat_of_nat take_bit_nat_eq_self)
  then show ?thesis by (simp add: HeartbeatService_run_def word_le_nat_alt Let_def)
qed

end
