(* ===== verification/Crc.thy ===== *)
theory Crc
  imports WS_Prelude
begin

section \<open>Cyclic redundancy checks\<close>

text \<open>
  \<^verbatim>\<open>crc/crc.h\<close> and \<^verbatim>\<open>crc/crc_algorithm.h\<close>: the bitwise, non-reflected CRC engine at the
  width of its register type, and the four algorithms built on it.  The lemmas show that
  the incremental interface computes the one-shot value and that an odd polynomial detects
  every error confined to as many adjacent bytes as the register holds.
\<close>

subsection \<open>The engine\<close>

record 'crc CrcSpec =
  crc_polynomial :: 'crc
  crc_initial :: 'crc
  crc_xorOut :: 'crc

type_synonym ComputeFlags = u8

definition crc_kInitialize :: ComputeFlags where
  "crc_kInitialize = 1"

definition crc_kFinalize :: ComputeFlags where
  "crc_kFinalize = 2"

definition kDefaultComputeFlags :: ComputeFlags where
  "kDefaultComputeFlags = crc_kInitialize OR crc_kFinalize"

definition crc_bit_step :: "'a::len word \<Rightarrow> 'a word \<Rightarrow> 'a word" where
  "crc_bit_step poly result =
     (if result AND push_bit (LENGTH('a) - 1) 1 \<noteq> 0 then push_bit 1 result XOR poly
      else push_bit 1 result)"

definition crc_byte_step :: "'a::len word \<Rightarrow> u8 \<Rightarrow> 'a word \<Rightarrow> 'a word" where
  "crc_byte_step poly byte result =
     (crc_bit_step poly ^^ 8) (result XOR push_bit (LENGTH('a) - 8) (ucast byte))"

definition crcBitwise :: "'a::len word CrcSpec \<Rightarrow> bytes \<Rightarrow> 'a word \<Rightarrow> ComputeFlags \<Rightarrow> 'a word" where
  "crcBitwise spec input initial flags =
     (let result = (if flags AND crc_kInitialize \<noteq> 0 then crc_initial spec else initial);
          result = fold (crc_byte_step (crc_polynomial spec)) input result
      in if flags AND crc_kFinalize \<noteq> 0 then result XOR crc_xorOut spec else result)"

definition crc_compute :: "'a::len word CrcSpec \<Rightarrow> bytes \<Rightarrow> 'a word" where
  "crc_compute spec input = crcBitwise spec input (crc_initial spec) kDefaultComputeFlags"

definition crc_init :: "'a::len word CrcSpec \<Rightarrow> 'a word" where
  "crc_init spec = crcBitwise spec [] (crc_initial spec) crc_kInitialize"

definition crc_update :: "'a::len word CrcSpec \<Rightarrow> bytes \<Rightarrow> 'a word \<Rightarrow> 'a word" where
  "crc_update spec input state = crcBitwise spec input state 0"

definition crc_finalize :: "'a::len word CrcSpec \<Rightarrow> 'a word \<Rightarrow> 'a word" where
  "crc_finalize spec state = crcBitwise spec [] state crc_kFinalize"

subsection \<open>The algorithms\<close>

definition SaeJ1850 :: "8 word CrcSpec" where
  "SaeJ1850 = \<lparr>crc_polynomial = 0x1D, crc_initial = 0xFF, crc_xorOut = 0xFF\<rparr>"

definition AutosarCrc8 :: "8 word CrcSpec" where
  "AutosarCrc8 = \<lparr>crc_polynomial = 0x2F, crc_initial = 0xFF, crc_xorOut = 0xFF\<rparr>"

definition Crc16CcittFalse :: "16 word CrcSpec" where
  "Crc16CcittFalse = \<lparr>crc_polynomial = 0x1021, crc_initial = 0xFFFF, crc_xorOut = 0\<rparr>"

definition Crc32Mpeg2 :: "32 word CrcSpec" where
  "Crc32Mpeg2 = \<lparr>crc_polynomial = 0x04C11DB7, crc_initial = 0xFFFFFFFF, crc_xorOut = 0\<rparr>"

subsection \<open>Incremental computation\<close>

lemma crc_compute_eq:
  "crc_compute spec input =
     fold (crc_byte_step (crc_polynomial spec)) input (crc_initial spec) XOR crc_xorOut spec"
  by (simp add: crc_compute_def crcBitwise_def kDefaultComputeFlags_def crc_kInitialize_def
      crc_kFinalize_def)

lemma crc_update_eq: "crc_update spec input s = fold (crc_byte_step (crc_polynomial spec)) input s"
  by (simp add: crc_update_def crcBitwise_def crc_kInitialize_def crc_kFinalize_def)

lemma crc_init_eq [simp]: "crc_init spec = crc_initial spec"
  by (simp add: crc_init_def crcBitwise_def crc_kInitialize_def crc_kFinalize_def)

lemma crc_finalize_eq [simp]: "crc_finalize spec s = s XOR crc_xorOut spec"
  by (simp add: crc_finalize_def crcBitwise_def crc_kInitialize_def crc_kFinalize_def)

lemma crc_chunks:
  "crc_finalize spec (fold (crc_update spec) chunks (crc_init spec)) = crc_compute spec (concat chunks)"
proof -
  have "fold (crc_update spec) chunks s = crc_update spec (concat chunks) s" for s
    by (induction chunks arbitrary: s) (simp_all add: crc_update_eq)
  then show ?thesis by (simp add: crc_update_eq crc_compute_eq)
qed

subsection \<open>The register map is linear and injective\<close>

lemma msb_test:
  "(r AND push_bit (LENGTH('a) - 1) 1 \<noteq> 0) = bit r (LENGTH('a) - 1)" for r :: "'a::len word"
proof -
  have "r AND push_bit (LENGTH('a) - 1) 1 =
      (if bit r (LENGTH('a) - 1) then push_bit (LENGTH('a) - 1) 1 else 0)"
    by (rule bit_word_eqI) (auto simp: bit_simps)
  then show ?thesis by simp
qed

lemma bit_crc_bit_step:
  "bit (crc_bit_step p r) n \<longleftrightarrow> n < LENGTH('a) \<and>
     ((n \<noteq> 0 \<and> bit r (n - 1)) \<noteq> (bit r (LENGTH('a) - 1) \<and> bit p n))"
  for p r :: "'a::len word"
proof (cases "bit r (LENGTH('a) - 1)")
  case True
  show ?thesis
    unfolding crc_bit_step_def msb_test if_P [OF True] bit_xor_iff bit_push_bit_iff
    using True bit_imp_le_length [of p n] by auto
next
  case False
  show ?thesis
    unfolding crc_bit_step_def msb_test if_not_P [OF False] bit_push_bit_iff
    using False by auto
qed

lemma crc_bit_step_xor:
  "crc_bit_step p (x XOR y) = crc_bit_step p x XOR crc_bit_step p y" for p x y :: "'a::len word"
  by (rule bit_word_eqI) (auto simp: bit_crc_bit_step bit_simps)

lemma crc_bit_steps_xor:
  "(crc_bit_step p ^^ k) (x XOR y) = (crc_bit_step p ^^ k) x XOR (crc_bit_step p ^^ k) y"
  for p x y :: "'a::len word"
  by (induction k) (simp_all add: crc_bit_step_xor)

lemma crc_bit_step_inj:
  fixes p :: "'a::len word"
  assumes "bit p 0"
  shows "inj (crc_bit_step p)"
proof (rule injI)
  fix x y assume e: "crc_bit_step p x = crc_bit_step p y"
  then have b: "bit (crc_bit_step p x) n = bit (crc_bit_step p y) n" for n by simp
  have top: "bit x (LENGTH('a) - 1) = bit y (LENGTH('a) - 1)"
    using b [of 0] assms by (simp add: bit_crc_bit_step)
  show "x = y"
  proof (rule bit_word_eqI)
    fix n assume n: "n < LENGTH('a)"
    show "bit x n = bit y n"
    proof (cases "n = LENGTH('a) - 1")
      case True
      then show ?thesis using top by simp
    next
      case False
      then show ?thesis using n top b [of "Suc n"] by (auto simp: bit_crc_bit_step)
    qed
  qed
qed

lemma crc_bit_steps_inj: "bit p 0 \<Longrightarrow> inj (crc_bit_step p ^^ k)" for p :: "'a::len word"
  by (simp add: crc_bit_step_inj inj_fn)

lemma crc_fold_inj:
  fixes p :: "'a::len word"
  assumes "bit p 0" and "fold (crc_byte_step p) bs x = fold (crc_byte_step p) bs y"
  shows "x = y"
  using assms(2)
proof (induction bs arbitrary: x y)
  case (Cons b bs)
  then have "crc_byte_step p b x = crc_byte_step p b y" by simp
  then have "x XOR push_bit (LENGTH('a) - 8) (ucast b) = y XOR push_bit (LENGTH('a) - 8) (ucast b)"
    using crc_bit_steps_inj [OF assms(1)] by (auto simp: crc_byte_step_def dest: injD)
  then have "(x XOR push_bit (LENGTH('a) - 8) (ucast b)) XOR push_bit (LENGTH('a) - 8) (ucast b)
      = (y XOR push_bit (LENGTH('a) - 8) (ucast b)) XOR push_bit (LENGTH('a) - 8) (ucast b)"
    by simp
  then show ?case by (simp add: xor.assoc)
qed simp

subsection \<open>Bursts no longer than the register\<close>

text \<open>The bytes packed into a register, first byte at the top.\<close>

fun crc_pack :: "bytes \<Rightarrow> 'a::len word" where
  "crc_pack [] = 0"
| "crc_pack (b # bs) = push_bit (LENGTH('a) - 8) (ucast b) XOR drop_bit 8 (crc_pack bs)"

lemma crc_pack_low:
  "bit (crc_pack bs :: 'a::len word) n \<Longrightarrow> LENGTH('a) \<le> n + 8 * length bs"
proof (induction bs arbitrary: n)
  case (Cons b bs)
  then show ?case
    using Cons.IH [of "8 + n"] by (force simp: bit_simps)
qed simp

lemma crc_bit_steps_drop:
  fixes x :: "'a::len word"
  assumes "\<forall>n < k. \<not> bit x n" and "k \<le> LENGTH('a)"
  shows "(crc_bit_step p ^^ k) (drop_bit k x) = x"
  using assms
proof (induction k)
  case (Suc k)
  have "crc_bit_step p (drop_bit (Suc k) x) = drop_bit k x"
  proof (rule bit_word_eqI)
    fix n assume "n < LENGTH('a)"
    moreover have "\<not> bit x (Suc k + (LENGTH('a) - 1))"
      using bit_imp_le_length [of x "Suc k + (LENGTH('a) - 1)"] by auto
    ultimately show "bit (crc_bit_step p (drop_bit (Suc k) x)) n = bit (drop_bit k x) n"
      using Suc.prems by (cases n) (auto simp: bit_crc_bit_step bit_simps)
  qed
  then show ?case
    using Suc by (simp add: funpow_Suc_right del: funpow.simps)
qed simp

lemma crc_fold_pack:
  fixes p s :: "'a::len word"
  assumes "8 * length bs \<le> LENGTH('a)"
  shows "fold (crc_byte_step p) bs s = (crc_bit_step p ^^ (8 * length bs)) (s XOR crc_pack bs)"
  using assms
proof (induction bs arbitrary: s)
  case (Cons b bs)
  have "\<forall>n < 8. \<not> bit (crc_pack bs :: 'a word) n"
    using Cons.prems crc_pack_low [of bs, where ?'a = 'a] by fastforce
  then have "(crc_bit_step p ^^ 8) (drop_bit 8 (crc_pack bs)) = crc_pack bs"
    using Cons.prems by (intro crc_bit_steps_drop) auto
  then have "crc_byte_step p b s XOR crc_pack bs
      = (crc_bit_step p ^^ 8) (s XOR crc_pack (b # bs))"
    by (simp add: crc_byte_step_def crc_bit_steps_xor xor.assoc)
  moreover have "fold (crc_byte_step p) (b # bs) s
      = (crc_bit_step p ^^ (8 * length bs)) (crc_byte_step p b s XOR crc_pack bs)"
    using Cons by simp
  moreover have "8 * length (b # bs) = 8 * length bs + 8" by simp
  ultimately show ?case by (simp only: funpow_add o_apply)
qed simp

lemma crc_pack_inj:
  assumes "length bs = length cs" and "8 * length bs \<le> LENGTH('a)"
    and "(crc_pack bs :: 'a::len word) = crc_pack cs"
  shows "bs = cs"
  using assms
proof (induction bs cs rule: list_induct2)
  case (Cons b bs c cs)
  let ?N = "LENGTH('a)"
  have N: "8 \<le> ?N" using Cons.prems by simp
  have low: "\<not> bit (crc_pack bs :: 'a word) n" "\<not> bit (crc_pack cs :: 'a word) n" if "n < 8" for n
    using Cons.prems(1) Cons.hyps that crc_pack_low [of bs n, where ?'a = 'a]
      crc_pack_low [of cs n, where ?'a = 'a] by auto
  have b: "bit (crc_pack (b # bs) :: 'a word) n = bit (crc_pack (c # cs) :: 'a word) n" for n
    using Cons.prems(2) by simp
  have "b = c"
  proof (rule bit_word_eqI)
    fix n assume n: "n < LENGTH(8)"
    have "\<not> bit (w :: 'a word) (8 + (?N - 8 + n))" for w
      using bit_imp_le_length [of w "8 + (?N - 8 + n)"] by auto
    then show "bit b n = bit c n" using n N b [of "?N - 8 + n"] by (auto simp: bit_simps)
  qed
  moreover have "(crc_pack bs :: 'a word) = crc_pack cs"
  proof (rule bit_word_eqI)
    fix n assume n: "n < ?N"
    show "bit (crc_pack bs :: 'a word) n = bit (crc_pack cs :: 'a word) n"
    proof (cases "n < 8")
      case True
      then show ?thesis using low by simp
    next
      case False
      then show ?thesis using n b [of "n - 8"] \<open>b = c\<close> by (auto simp: bit_simps)
    qed
  qed
  ultimately show ?case using Cons by simp
qed simp

lemma crc_burst_detected:
  fixes spec :: "'a::len word CrcSpec"
  assumes "bit (crc_polynomial spec) 0" and "length bs = length cs"
    and "8 * length bs \<le> LENGTH('a)" and "bs \<noteq> cs"
  shows "crc_compute spec (pre @ bs @ suf) \<noteq> crc_compute spec (pre @ cs @ suf)"
proof
  let ?p = "crc_polynomial spec" and ?s = "fold (crc_byte_step (crc_polynomial spec)) pre (crc_initial spec)"
  assume e: "crc_compute spec (pre @ bs @ suf) = crc_compute spec (pre @ cs @ suf)"
  then have "(x XOR crc_xorOut spec = y XOR crc_xorOut spec) = (x = y)" for x y
    by (metis xor.assoc xor_self_eq xor.right_neutral)
  with e have "fold (crc_byte_step ?p) suf (fold (crc_byte_step ?p) bs ?s)
      = fold (crc_byte_step ?p) suf (fold (crc_byte_step ?p) cs ?s)"
    by (simp add: crc_compute_eq)
  then have "fold (crc_byte_step ?p) bs ?s = fold (crc_byte_step ?p) cs ?s"
    by (rule crc_fold_inj [OF assms(1)])
  then have "?s XOR crc_pack bs = ?s XOR crc_pack cs"
    using assms(2,3) crc_bit_steps_inj [OF assms(1)] by (auto simp: crc_fold_pack dest: injD)
  then have "(crc_pack bs :: 'a word) = crc_pack cs"
    by (metis xor.assoc xor_self_eq xor.left_neutral)
  then show False using crc_pack_inj assms by blast
qed

subsection \<open>Published check values\<close>

text \<open>The ASCII digits 1 to 9, the input of the published check values.\<close>

definition crc_check_input :: bytes where
  "crc_check_input = [0x31, 0x32, 0x33, 0x34, 0x35, 0x36, 0x37, 0x38, 0x39]"

end
