(* ===== verification/Hdlc.thy ===== *)
theory Hdlc
  imports Crc
begin

section \<open>HDLC framing\<close>

text \<open>
  \<^verbatim>\<open>links/uart_hdlc/encoder.h\<close> and \<^verbatim>\<open>links/uart_hdlc/decoder.h\<close>: byte-stuffed frames
  with a CRC-16 trailer.  The encoder writes into a caller's buffer by index, the decoder
  is a byte-driven state machine over a fixed buffer.  Both are compared with the frame
  format itself: \<open>hdlc_frame body\<close> is a flag, the stuffed body and a flag.
\<close>

subsection \<open>Encoder\<close>

definition hdlc_kFlag :: u8 where
  "hdlc_kFlag = 0x7E"

definition hdlc_kEscape :: u8 where
  "hdlc_kEscape = 0x7D"

definition hdlc_kEscapeXor :: u8 where
  "hdlc_kEscapeXor = 0x20"

definition stuffedSize :: "u8 \<Rightarrow> nat" where
  "stuffedSize byte = (if byte = hdlc_kFlag \<or> byte = hdlc_kEscape then 2 else 1)"

definition encodedSize :: "bytes \<Rightarrow> nat" where
  "encodedSize payload =
     (if payload = [] then 0
      else (let result = fold (\<lambda>byte result. result + stuffedSize byte) payload 2;
                crc = crc_compute Crc16CcittFalse payload
            in result + stuffedSize (lo8 crc) + stuffedSize (hi8 crc)))"

text \<open>One byte of the two loops of \<^verbatim>\<open>encode\<close>: the output index and the frame storage.\<close>

definition hdlc_emit :: "u8 \<Rightarrow> nat \<times> bytes \<Rightarrow> nat \<times> bytes" where
  "hdlc_emit byte s =
     (case s of (output_index, frame) \<Rightarrow>
        if byte = hdlc_kFlag \<or> byte = hdlc_kEscape
        then (output_index + 2,
              frame[output_index := hdlc_kEscape, output_index + 1 := byte XOR hdlc_kEscapeXor])
        else (output_index + 1, frame[output_index := byte]))"

definition hdlc_encode :: "bytes \<Rightarrow> bytes \<Rightarrow> nat \<times> bytes" where
  "hdlc_encode payload frame =
     (let required_size = encodedSize payload
      in if frame = [] \<or> required_size = 0 \<or> length frame < required_size then (0, frame)
         else (let s0 = (1, frame[0 := hdlc_kFlag]);
                   s1 = fold hdlc_emit payload s0;
                   crc = crc_compute Crc16CcittFalse payload;
                   (output_index, frame1) = fold hdlc_emit [lo8 crc, hi8 crc] s1
               in (output_index + 1, frame1[output_index := hdlc_kFlag])))"

subsection \<open>Decoder\<close>

text \<open>\<open>hd_frame\<close> is the array of \<^verbatim>\<open>kFrameCapacity + 2\<close> bytes.\<close>

record HdlcDecoder =
  hd_frame :: bytes
  hd_frame_size :: nat
  hd_in_frame :: bool
  hd_escaped :: bool
  hd_frame_ready :: bool

definition HdlcDecoder_init :: "nat \<Rightarrow> HdlcDecoder" where
  "HdlcDecoder_init capacity = \<lparr>hd_frame = replicate (capacity + 2) 0, hd_frame_size = 0,
     hd_in_frame = False, hd_escaped = False, hd_frame_ready = False\<rparr>"

definition HdlcDecoder_frame :: "HdlcDecoder \<Rightarrow> bytes" where
  "HdlcDecoder_frame d = take (hd_frame_size d) (hd_frame d)"

definition HdlcDecoder_consume :: "HdlcDecoder \<Rightarrow> HdlcDecoder" where
  "HdlcDecoder_consume d = d\<lparr>hd_frame_size := 0, hd_frame_ready := False\<rparr>"

definition hasValidCrc :: "HdlcDecoder \<Rightarrow> bool" where
  "hasValidCrc d =
     (if hd_frame_size d \<le> 2 then False
      else (let payload_size = hd_frame_size d - 2;
                received_crc = le16 (hd_frame d ! payload_size) (hd_frame d ! (payload_size + 1))
            in received_crc = crc_compute Crc16CcittFalse (take payload_size (hd_frame d))))"

text \<open>The tail of \<^verbatim>\<open>push\<close>, after the escape handling: store the byte or drop the frame.\<close>

definition hdlc_store :: "u8 \<Rightarrow> HdlcDecoder \<Rightarrow> HdlcDecoder" where
  "hdlc_store byte d =
     (if length (hd_frame d) \<le> hd_frame_size d
      then d\<lparr>hd_frame_size := 0, hd_in_frame := False, hd_escaped := False\<rparr>
      else d\<lparr>hd_frame := (hd_frame d)[hd_frame_size d := byte], hd_frame_size := hd_frame_size d + 1\<rparr>)"

definition HdlcDecoder_push :: "u8 \<Rightarrow> HdlcDecoder \<Rightarrow> bool \<times> HdlcDecoder" where
  "HdlcDecoder_push byte d =
     (if hd_frame_ready d then (True, d)
      else if byte = hdlc_kFlag
      then (let completed = hd_in_frame d \<and> \<not> hd_escaped d \<and> hasValidCrc d;
                d1 = d\<lparr>hd_in_frame := True, hd_escaped := False\<rparr>
            in if completed then (True, d1\<lparr>hd_frame_size := hd_frame_size d1 - 2, hd_frame_ready := True\<rparr>)
               else (False, d1\<lparr>hd_frame_size := 0\<rparr>))
      else if \<not> hd_in_frame d then (False, d)
      else if hd_escaped d then (False, hdlc_store (byte XOR hdlc_kEscapeXor) (d\<lparr>hd_escaped := False\<rparr>))
      else if byte = hdlc_kEscape then (False, d\<lparr>hd_escaped := True\<rparr>)
      else (False, hdlc_store byte d))"

text \<open>A stream of pushed bytes: the answers in order and the final state.\<close>

fun HdlcDecoder_push_all :: "bytes \<Rightarrow> HdlcDecoder \<Rightarrow> bool list \<times> HdlcDecoder" where
  "HdlcDecoder_push_all [] d = ([], d)"
| "HdlcDecoder_push_all (b # bs) d =
     (case HdlcDecoder_push b d of (r, d1) \<Rightarrow>
        case HdlcDecoder_push_all bs d1 of (rs, d2) \<Rightarrow> (r # rs, d2))"

subsection \<open>The frame format\<close>

definition hdlc_stuff1 :: "u8 \<Rightarrow> bytes" where
  "hdlc_stuff1 b =
     (if b = hdlc_kFlag \<or> b = hdlc_kEscape then [hdlc_kEscape, b XOR hdlc_kEscapeXor] else [b])"

definition hdlc_stuff :: "bytes \<Rightarrow> bytes" where
  "hdlc_stuff bs = concat (map hdlc_stuff1 bs)"

definition hdlc_frame :: "bytes \<Rightarrow> bytes" where
  "hdlc_frame body = hdlc_kFlag # hdlc_stuff body @ [hdlc_kFlag]"

definition hdlc_body :: "bytes \<Rightarrow> bytes" where
  "hdlc_body payload =
     payload @ [lo8 (crc_compute Crc16CcittFalse payload), hi8 (crc_compute Crc16CcittFalse payload)]"

lemma length_hdlc_stuff1 [simp]: "length (hdlc_stuff1 b) = stuffedSize b"
  by (simp add: hdlc_stuff1_def stuffedSize_def)

lemma hdlc_stuff_simps [simp]:
  "hdlc_stuff [] = []" "hdlc_stuff (b # bs) = hdlc_stuff1 b @ hdlc_stuff bs"
  "hdlc_stuff (bs @ cs) = hdlc_stuff bs @ hdlc_stuff cs"
  by (simp_all add: hdlc_stuff_def)

lemma fold_stuffedSize: "fold (\<lambda>b r. r + stuffedSize b) bs n = n + length (hdlc_stuff bs)"
  by (induction bs arbitrary: n) simp_all

lemma encodedSize_frame:
  "payload \<noteq> [] \<Longrightarrow> encodedSize payload = length (hdlc_frame (hdlc_body payload))"
  by (simp add: encodedSize_def fold_stuffedSize hdlc_frame_def hdlc_body_def Let_def)

lemma encodedSize_bounds:
  assumes "payload \<noteq> []"
  shows "length payload + 4 \<le> encodedSize payload" and "encodedSize payload \<le> 2 * length payload + 6"
proof -
  have "length bs \<le> length (hdlc_stuff bs) \<and> length (hdlc_stuff bs) \<le> 2 * length bs" for bs
    by (induction bs) (auto simp: stuffedSize_def)
  from this [of "hdlc_body payload"]
  show "length payload + 4 \<le> encodedSize payload" "encodedSize payload \<le> 2 * length payload + 6"
    unfolding encodedSize_frame [OF assms] hdlc_frame_def by (simp_all add: hdlc_body_def)
qed

text \<open>No flag occurs inside a stuffed body.\<close>

lemma flag_notin_stuff: "hdlc_kFlag \<notin> set (hdlc_stuff bs)"
proof -
  have "b XOR 0x20 \<noteq> 0x7E" if "b = 0x7E \<or> b = 0x7D" for b :: u8 using that by auto
  then have "hdlc_kFlag \<notin> set (hdlc_stuff1 b)" for b
    by (auto simp: hdlc_stuff1_def hdlc_kFlag_def hdlc_kEscape_def hdlc_kEscapeXor_def)
  then show ?thesis by (induction bs) auto
qed

subsection \<open>The encoder writes the frame format\<close>

lemma hdlc_emit_span:
  assumes "n + stuffedSize b \<le> length f"
  shows "hdlc_emit b (n, f) = (n + stuffedSize b, span_write n (hdlc_stuff1 b) f)"
proof (cases "b = hdlc_kFlag \<or> b = hdlc_kEscape")
  case True
  let ?x = "b XOR hdlc_kEscapeXor"
  have "f[n := hdlc_kEscape, n + 1 := ?x] = span_write (n + 1) [?x] (span_write n [hdlc_kEscape] f)"
    using True assms by (simp add: list_update_span_write stuffedSize_def)
  then show ?thesis
    using True assms span_write_append [of n "[hdlc_kEscape]" "[?x]" f]
    by (simp add: hdlc_emit_def stuffedSize_def hdlc_stuff1_def)
next
  case False
  then show ?thesis
    using assms by (simp add: hdlc_emit_def stuffedSize_def hdlc_stuff1_def list_update_span_write)
qed

lemma fold_hdlc_emit:
  "n + length (hdlc_stuff bs) \<le> length f \<Longrightarrow>
     fold hdlc_emit bs (n, f) = (n + length (hdlc_stuff bs), span_write n (hdlc_stuff bs) f)"
proof (induction bs arbitrary: n f)
  case (Cons b bs)
  then show ?case
    using span_write_append [of n "hdlc_stuff1 b" "hdlc_stuff bs" f]
    by (simp add: hdlc_emit_span add.assoc)
qed simp

lemma hdlc_encode_frame:
  assumes "payload \<noteq> []" and "encodedSize payload \<le> length frame"
  shows "hdlc_encode payload frame =
    (encodedSize payload, span_write 0 (hdlc_frame (hdlc_body payload)) frame)"
proof -
  let ?crc = "crc_compute Crc16CcittFalse payload" and ?s = "hdlc_stuff (hdlc_body payload)"
  have n: "encodedSize payload = length ?s + 2"
    using assms(1) by (simp add: encodedSize_frame hdlc_frame_def)
  have first: "frame[0 := hdlc_kFlag] = span_write 0 [hdlc_kFlag] frame"
    using assms n by (intro list_update_span_write) auto
  have "fold hdlc_emit [lo8 ?crc, hi8 ?crc] (fold hdlc_emit payload (1, frame[0 := hdlc_kFlag]))
      = fold hdlc_emit (hdlc_body payload) (1, frame[0 := hdlc_kFlag])"
    by (simp add: hdlc_body_def)
  also have "\<dots> = (1 + length ?s, span_write 1 ?s (span_write 0 [hdlc_kFlag] frame))"
    using assms n unfolding first by (subst fold_hdlc_emit) auto
  also have "span_write 1 ?s (span_write 0 [hdlc_kFlag] frame) = span_write 0 (hdlc_kFlag # ?s) frame"
    using span_write_append [of 0 "[hdlc_kFlag]" ?s frame] assms n by simp
  finally have "hdlc_encode payload frame =
      (length ?s + 2, span_write (1 + length ?s) [hdlc_kFlag] (span_write 0 (hdlc_kFlag # ?s) frame))"
    using assms n by (auto simp: hdlc_encode_def list_update_span_write Let_def)
  then show ?thesis
    using span_write_append [of 0 "hdlc_kFlag # ?s" "[hdlc_kFlag]" frame] assms n
    by (simp add: hdlc_frame_def)
qed

lemma hdlc_encode_refused:
  assumes "payload = [] \<or> length frame < encodedSize payload"
  shows "hdlc_encode payload frame = (0, frame)"
  using assms by (auto simp: hdlc_encode_def encodedSize_def Let_def)

subsection \<open>The decoder reads the frame format\<close>

definition hdlc_invar :: "HdlcDecoder \<Rightarrow> bool" where
  "hdlc_invar d \<longleftrightarrow> 2 \<le> length (hd_frame d) \<and> hd_frame_size d \<le> length (hd_frame d)
     \<and> (hd_frame_ready d \<longrightarrow> 0 < hd_frame_size d \<and> hd_frame_size d + 2 \<le> length (hd_frame d))"

lemma hdlc_invar_init: "hdlc_invar (HdlcDecoder_init capacity)"
  by (simp add: hdlc_invar_def HdlcDecoder_init_def)

lemma hdlc_invar_consume: "hdlc_invar d \<Longrightarrow> hdlc_invar (HdlcDecoder_consume d)"
  by (simp add: hdlc_invar_def HdlcDecoder_consume_def)

lemma hdlc_invar_push: "hdlc_invar d \<Longrightarrow> hdlc_invar (snd (HdlcDecoder_push b d))"
  by (auto simp: hdlc_invar_def HdlcDecoder_push_def hdlc_store_def hasValidCrc_def Let_def)

lemma HdlcDecoder_push_result: "fst (HdlcDecoder_push b d) = hd_frame_ready (snd (HdlcDecoder_push b d))"
  by (auto simp: HdlcDecoder_push_def hdlc_store_def Let_def)

lemma HdlcDecoder_push_all_append:
  "HdlcDecoder_push_all (bs @ cs) d =
     (case HdlcDecoder_push_all bs d of (r1, d1) \<Rightarrow>
        case HdlcDecoder_push_all cs d1 of (r2, d2) \<Rightarrow> (r1 @ r2, d2))"
  by (induction bs arbitrary: d) (auto split: prod.splits)

text \<open>The bytes received since the opening flag, or nothing once the frame overflowed.\<close>

definition hdlc_receiving :: "bytes \<Rightarrow> HdlcDecoder \<Rightarrow> bool" where
  "hdlc_receiving body d \<longleftrightarrow> \<not> hd_frame_ready d \<and> \<not> hd_escaped d \<and>
     (if length body \<le> length (hd_frame d)
      then hd_in_frame d \<and> HdlcDecoder_frame d = body \<and> hd_frame_size d = length body
      else \<not> hd_in_frame d)"

lemma hdlc_receiving_step:
  assumes "hdlc_receiving body d"
  shows "\<exists>d'. HdlcDecoder_push_all (hdlc_stuff1 b) d = (replicate (stuffedSize b) False, d')
    \<and> hdlc_receiving (body @ [b]) d' \<and> length (hd_frame d') = length (hd_frame d)"
proof -
  have neq: "b XOR 0x20 \<noteq> 0x7E" if "b = 0x7E \<or> b = 0x7D" for b :: u8 using that by auto
  have st: "hdlc_receiving (body @ [b]) (hdlc_store b d')"
    if "hdlc_receiving body d'" "hd_in_frame d'" for d'
    using that
    by (auto simp: hdlc_receiving_def hdlc_store_def HdlcDecoder_frame_def take_Suc_conv_app_nth
        split: if_splits)
  have len: "length (hd_frame (hdlc_store b d)) = length (hd_frame d)" for d
    by (simp add: hdlc_store_def)
  have r: "\<not> hd_frame_ready d" "\<not> hd_escaped d" using assms by (auto simp: hdlc_receiving_def)
  show ?thesis
  proof (cases "hd_in_frame d")
    case True
    have e: "d\<lparr>hd_escaped := False\<rparr> = d" using r by simp
    show ?thesis
      using r True st [OF assms True] neq len
      by (auto simp: hdlc_stuff1_def stuffedSize_def HdlcDecoder_push_def hdlc_kFlag_def
          hdlc_kEscape_def hdlc_kEscapeXor_def e numeral_2_eq_2)
  next
    case False
    then have "length (hd_frame d) < length body" using assms by (auto simp: hdlc_receiving_def split: if_splits)
    then have "hdlc_receiving (body @ [b]) d" using r False by (simp add: hdlc_receiving_def)
    then show ?thesis
      using r False neq
      by (auto simp: hdlc_stuff1_def stuffedSize_def HdlcDecoder_push_def hdlc_kFlag_def
          hdlc_kEscape_def hdlc_kEscapeXor_def numeral_2_eq_2)
  qed
qed

lemma hdlc_receiving_stuff:
  assumes "hdlc_receiving body d"
  shows "\<exists>d'. HdlcDecoder_push_all (hdlc_stuff bs) d = (replicate (length (hdlc_stuff bs)) False, d')
    \<and> hdlc_receiving (body @ bs) d' \<and> length (hd_frame d') = length (hd_frame d)"
  using assms
proof (induction bs arbitrary: body d)
  case (Cons b bs)
  from hdlc_receiving_step [OF Cons.prems, of b] obtain d1 where
    d1: "HdlcDecoder_push_all (hdlc_stuff1 b) d = (replicate (stuffedSize b) False, d1)"
      "hdlc_receiving (body @ [b]) d1" "length (hd_frame d1) = length (hd_frame d)" by blast
  from Cons.IH [OF d1(2)] d1 show ?case
    by (auto simp: HdlcDecoder_push_all_append replicate_add)
qed simp

text \<open>A body is acceptable when it fits and its last two bytes are the CRC of the others.\<close>

definition hdlc_accepts :: "nat \<Rightarrow> bytes \<Rightarrow> bool" where
  "hdlc_accepts capacity body \<longleftrightarrow> 2 < length body \<and> length body \<le> capacity + 2
     \<and> hdlc_body (take (length body - 2) body) = body"

lemma two_last: "2 \<le> length xs \<Longrightarrow> drop (length xs - 2) xs = [xs ! (length xs - 2), xs ! (length xs - 1)]"
  by (rule nth_equalityI) (auto simp: less_Suc_eq numeral_2_eq_2)

lemma hasValidCrc_receiving:
  assumes "hdlc_receiving body d" and "length body \<le> length (hd_frame d)"
  shows "hasValidCrc d \<longleftrightarrow> 2 < length body \<and> hdlc_body (take (length body - 2) body) = body"
proof (cases "2 < length body")
  case True
  let ?n = "length body - 2" and ?crc = "crc_compute Crc16CcittFalse (take (length body - 2) body)"
  have size: "hd_frame_size d = length body" and f: "body = take (length body) (hd_frame d)"
    using assms by (auto simp: hdlc_receiving_def HdlcDecoder_frame_def)
  have nth: "hd_frame d ! i = body ! i" if "i < length body" for i using f that by (metis nth_take)
  have tk: "take ?n (hd_frame d) = take ?n body"
    using f by (metis diff_le_self min.absorb1 take_take)
  have "take ?n body @ drop ?n body = body" by simp
  then have "hdlc_body (take ?n body) = body \<longleftrightarrow> drop ?n body = [lo8 ?crc, hi8 ?crc]"
    unfolding hdlc_body_def by (metis same_append_eq)
  also have "\<dots> \<longleftrightarrow> body ! ?n = lo8 ?crc \<and> body ! (?n + 1) = hi8 ?crc"
    using True two_last [of body] by (simp add: Suc_diff_Suc numeral_2_eq_2)
  also have "\<dots> \<longleftrightarrow> le16 (body ! ?n) (body ! (?n + 1)) = ?crc"
    by (metis le16_inject le16_lo8_hi8)
  finally show ?thesis
    using True by (simp add: hasValidCrc_def size tk nth Let_def)
next
  case False
  then show ?thesis using assms by (auto simp: hasValidCrc_def hdlc_receiving_def)
qed

lemma hdlc_closing_flag:
  assumes "hdlc_receiving body d" and "length (hd_frame d) = capacity + 2"
  shows "\<exists>d'. HdlcDecoder_push hdlc_kFlag d = (hdlc_accepts capacity body, d')
    \<and> hd_in_frame d' \<and> length (hd_frame d') = capacity + 2
    \<and> (if hdlc_accepts capacity body
       then hd_frame_ready d' \<and> HdlcDecoder_frame d' = take (length body - 2) body
       else hdlc_receiving [] d')"
proof -
  have acc: "hdlc_accepts capacity body \<longleftrightarrow> hd_in_frame d \<and> hasValidCrc d"
    using assms hasValidCrc_receiving [OF assms(1)]
    by (auto simp: hdlc_accepts_def hdlc_receiving_def split: if_splits)
  show ?thesis
    using assms acc
    by (auto simp: HdlcDecoder_push_def hdlc_receiving_def HdlcDecoder_frame_def hdlc_accepts_def
        min_def Let_def split: if_splits)
qed

text \<open>
  A whole frame pushed into a decoder that is between frames: it answers only at the closing
  flag, and exactly for an acceptable body.
\<close>

definition hdlc_quiet :: "HdlcDecoder \<Rightarrow> bool" where
  "hdlc_quiet d \<longleftrightarrow> \<not> hd_frame_ready d \<and> \<not> (hd_in_frame d \<and> \<not> hd_escaped d \<and> hasValidCrc d)"

lemma hdlc_opening_flag:
  assumes "hdlc_quiet d" and "length (hd_frame d) = capacity + 2"
  shows "\<exists>d'. HdlcDecoder_push hdlc_kFlag d = (False, d') \<and> hdlc_receiving [] d'
    \<and> length (hd_frame d') = capacity + 2"
  using assms by (auto simp: HdlcDecoder_push_def hdlc_quiet_def hdlc_receiving_def
      HdlcDecoder_frame_def Let_def)

lemma hdlc_decode_frame:
  assumes "hdlc_quiet d" and "length (hd_frame d) = capacity + 2"
  shows "\<exists>d'. HdlcDecoder_push_all (hdlc_frame body) d =
      (replicate (Suc (length (hdlc_stuff body))) False @ [hdlc_accepts capacity body], d')
    \<and> length (hd_frame d') = capacity + 2
    \<and> (if hdlc_accepts capacity body
       then hd_frame_ready d' \<and> HdlcDecoder_frame d' = take (length body - 2) body
       else hdlc_quiet d')"
proof -
  obtain d1 where d1: "HdlcDecoder_push hdlc_kFlag d = (False, d1)" "hdlc_receiving [] d1"
    "length (hd_frame d1) = capacity + 2" using hdlc_opening_flag [OF assms] by blast
  obtain d2 where d2: "HdlcDecoder_push_all (hdlc_stuff body) d1
      = (replicate (length (hdlc_stuff body)) False, d2)" "hdlc_receiving body d2"
    "length (hd_frame d2) = capacity + 2" using hdlc_receiving_stuff [OF d1(2), of body] d1(3) by auto
  have quiet: "hdlc_quiet d'" if "hdlc_receiving [] d'" for d'
    using that by (auto simp: hdlc_receiving_def hdlc_quiet_def hasValidCrc_def)
  from hdlc_closing_flag [OF d2(2,3)] quiet show ?thesis
    using d1 d2 by (auto simp: hdlc_frame_def HdlcDecoder_push_all_append split: if_splits)
qed

lemma hdlc_accepts_body:
  "hdlc_accepts capacity (hdlc_body payload) \<longleftrightarrow> payload \<noteq> [] \<and> length payload \<le> capacity"
  by (cases payload) (auto simp: hdlc_accepts_def hdlc_body_def)

text \<open>Damage to at most two adjacent payload bytes, or to the trailer alone, is refused.\<close>

lemma hdlc_damage_refused:
  assumes "length bs = length cs" and "length bs \<le> 2" and "bs \<noteq> cs"
    and "hdlc_body (pre @ bs @ suf) = pre @ bs @ suf @ trailer"
  shows "\<not> hdlc_accepts capacity (pre @ cs @ suf @ trailer)"
proof -
  have crc: "crc_compute Crc16CcittFalse (pre @ bs @ suf) \<noteq> crc_compute Crc16CcittFalse (pre @ cs @ suf)"
    using assms(1-3) by (intro crc_burst_detected) (simp_all add: Crc16CcittFalse_def)
  have t: "trailer = [lo8 (crc_compute Crc16CcittFalse (pre @ bs @ suf)),
      hi8 (crc_compute Crc16CcittFalse (pre @ bs @ suf))]"
    using assms(4) by (simp add: hdlc_body_def)
  then have tk: "take (length (pre @ cs @ suf @ trailer) - 2) (pre @ cs @ suf @ trailer) = pre @ cs @ suf"
    by simp
  have "hdlc_body (pre @ cs @ suf) \<noteq> pre @ cs @ suf @ trailer"
  proof
    assume "hdlc_body (pre @ cs @ suf) = pre @ cs @ suf @ trailer"
    then have "lo8 (crc_compute Crc16CcittFalse (pre @ bs @ suf)) = lo8 (crc_compute Crc16CcittFalse (pre @ cs @ suf))"
      "hi8 (crc_compute Crc16CcittFalse (pre @ bs @ suf)) = hi8 (crc_compute Crc16CcittFalse (pre @ cs @ suf))"
      by (simp_all add: hdlc_body_def t)
    with crc show False by (metis le16_lo8_hi8)
  qed
  then show ?thesis unfolding hdlc_accepts_def tk by blast
qed

lemma hdlc_trailer_damage_refused:
  "length trailer = 2 \<Longrightarrow> payload @ trailer \<noteq> hdlc_body payload \<Longrightarrow>
     \<not> hdlc_accepts capacity (payload @ trailer)"
  by (auto simp: hdlc_accepts_def)

end
