(* ===== verification/Uart_Link.thy ===== *)
theory Uart_Link
  imports Services Hdlc
begin

section \<open>UART link and the demonstration application\<close>

text \<open>
  \<^verbatim>\<open>examples/arduino-uno/uart_hdlc_link.h\<close>, \<^verbatim>\<open>demo_wiring.h\<close>, \<^verbatim>\<open>wiring_constants.h\<close>,
  \<^verbatim>\<open>platform/avr/builtin_led.h\<close> and the application of \<^verbatim>\<open>main.cpp\<close>.  The UART is the list of
  bytes written to it and the list of bytes that become available while \<^verbatim>\<open>process\<close> polls;
  \<^verbatim>\<open>uart0WriteSpan\<close> is a parameter of the link.
\<close>

subsection \<open>Deployment constants\<close>

definition kArduinoHost :: HostId where "kArduinoHost = 1"
definition kPcHost :: HostId where "kPcHost = 2"
definition kTestWire :: WireNumber where "kTestWire = 1"
definition kUartIngressIndex :: u8 where "kUartIngressIndex = 1"

definition kArduinoHostInfo :: HostInfo where
  "kArduinoHostInfo = \<lparr>hi_id = kArduinoHost, hi_wire_count = 1, hi_wires = [kTestWire, 0, 0, 0, 0, 0]\<rparr>"

definition kDemoRoutes :: "RouteTableEntry list" where
  "kDemoRoutes = [\<lparr>rte_wire = kTestWire, rte_wire_interfaces = kUartEgress\<rparr>]"

definition kDiagnosticsPublication :: PublicationConfig where
  "kDiagnosticsPublication = \<lparr>pc_wire = kTestWire, pc_destination = kBroadcastHostValue\<rparr>"

definition kPingEndpoint :: EndpointAddress where
  "kPingEndpoint = EndpointAddress_from kCommon 0x3FFD"

definition kBitsUploadEndpoint :: EndpointAddress where
  "kBitsUploadEndpoint = EndpointAddress_from kUser0 1"

definition kBitsEchoEndpoint :: EndpointAddress where
  "kBitsEchoEndpoint = EndpointAddress_from kUser0 2"

definition kUploadConnection :: ConnectionAddress where
  "kUploadConnection = \<lparr>ca_wire = kTestWire, ca_local_host = kArduinoHost, ca_remote_host = kPcHost,
     ca_endpoint = kBitsUploadEndpoint\<rparr>"

definition kEchoConnection :: ConnectionAddress where
  "kEchoConnection = \<lparr>ca_wire = kTestWire, ca_local_host = kArduinoHost, ca_remote_host = kPcHost,
     ca_endpoint = kBitsEchoEndpoint\<rparr>"

subsection \<open>Link\<close>

definition link_frame_capacity :: "nat \<Rightarrow> nat" where
  "link_frame_capacity maximum_payload = ((6 + maximum_payload) + 2) * 2 + 2"

definition UartHdlcForwarder_trySend ::
  "(bytes \<Rightarrow> 'w \<Rightarrow> 'w) \<Rightarrow> nat \<Rightarrow> 'w send_fun" where
  "UartHdlcForwarder_trySend write_span maximum_payload packet w =
     (if maximum_payload < unat (pb_size packet) then (LA_kTooLarge, w)
      else (let frame_storage = replicate (link_frame_capacity maximum_payload) 0;
                (frame_size, frame) = hdlc_encode (headerAndPayload packet) frame_storage
            in if frame_size = 0 then (LA_kTooLarge, w)
               else (LA_kAccepted, write_span (take frame_size frame) w)))"

text \<open>The packet built from a received frame: resized stack storage, header and payload copied in.\<close>

definition uart_frame_packet :: "u16 \<Rightarrow> bytes \<Rightarrow> PacketBuffer option" where
  "uart_frame_packet capacity frame =
     (if 6 \<le> length frame \<and> length frame \<le> 6 + unat capacity
      then (let payload_size = word_of_nat (length frame - 6) :: u16
            in case resize payload_size (PacketBuffer_new capacity) of
                 (False, _) \<Rightarrow> None
               | (True, p) \<Rightarrow>
                   (let p1 = p\<lparr>pb_header := header_of_bytes frame\<rparr>
                    in Some (if 0 < payload_size
                             then write_payload 0 (take (unat payload_size) (drop 6 frame)) p1 else p1)))
      else None)"

text \<open>\<^verbatim>\<open>UartHdlcReceiver::process\<close> on the bytes that become available; \<open>deliver\<close> is \<^verbatim>\<open>domain.receive\<close>.\<close>

fun UartHdlcReceiver_process ::
  "(PacketBuffer \<Rightarrow> 'w \<Rightarrow> 'w) \<Rightarrow> u16 \<Rightarrow> bytes \<Rightarrow> HdlcDecoder \<times> 'w \<Rightarrow> HdlcDecoder \<times> 'w" where
  "UartHdlcReceiver_process deliver capacity [] s = s"
| "UartHdlcReceiver_process deliver capacity (byte # available) (decoder, w) =
     (case HdlcDecoder_push byte decoder of
        (False, d) \<Rightarrow> UartHdlcReceiver_process deliver capacity available (d, w)
      | (True, d) \<Rightarrow>
          UartHdlcReceiver_process deliver capacity available
            (HdlcDecoder_consume d,
             (case uart_frame_packet capacity (HdlcDecoder_frame d) of
                None \<Rightarrow> w | Some packet \<Rightarrow> deliver packet w)))"

subsection \<open>Built-in LED\<close>

record LedRegisters =
  led_portb :: u8
  led_ocr1a :: u16
  led_tcnt1 :: u16
  led_tifr1 :: u8
  led_timsk1 :: u8

definition kPortB5 :: u8 where "kPortB5 = 0x20"

text \<open>Writing ones to \<^verbatim>\<open>TIFR1\<close> clears those flags.\<close>

definition setBuiltinLedBrightness :: "u8 \<Rightarrow> LedRegisters \<Rightarrow> LedRegisters" where
  "setBuiltinLedBrightness brightness r0 =
     (let r = r0\<lparr>led_timsk1 := 0\<rparr>
      in if brightness = 0 then r\<lparr>led_portb := led_portb r AND NOT kPortB5\<rparr>
         else if brightness = 0xFF then r\<lparr>led_portb := led_portb r OR kPortB5\<rparr>
         else r\<lparr>led_ocr1a := ucast brightness, led_tcnt1 := 0, led_portb := led_portb r OR kPortB5,
                led_tifr1 := led_tifr1 r AND NOT 0x03, led_timsk1 := 0x03\<rparr>)"

subsection \<open>Demonstration application\<close>

datatype demo_receiver = PingReceiver | LedReceiver

record DemoMemory =
  dm_uart_out :: bytes
  dm_led :: LedRegisters
  dm_ping_queue :: "unit endpoint_queue"
  dm_led_queue :: "unit endpoint_queue"

record DemoApplication =
  da_decoder :: HdlcDecoder
  da_heartbeat :: PublicationService
  da_memory :: DemoMemory

definition kDemoMaximumPayload :: u16 where "kDemoMaximumPayload = 4"

definition uart0WriteSpan :: "bytes \<Rightarrow> DemoMemory \<Rightarrow> DemoMemory" where
  "uart0WriteSpan bs m = m\<lparr>dm_uart_out := dm_uart_out m @ bs\<rparr>"

definition demo_trySend :: "DemoMemory send_fun" where
  "demo_trySend = UartHdlcForwarder_trySend uart0WriteSpan (unat kDemoMaximumPayload)"

definition demo_domain :: "DemoMemory DomainContext" where
  "demo_domain = \<lparr>dc_host = kArduinoHostInfo, dc_routes = kDemoRoutes,
     dc_forwarder = demo_Forwarder_forward demo_trySend\<rparr>"

definition demo_router :: "DemoMemory router_ref" where
  "demo_router = Some (Router_forward (dc_forwarder demo_domain) (dc_routes demo_domain))"

fun demo_receive :: "(demo_receiver, DemoMemory) receive_fun" where
  "demo_receive PingReceiver p m =
     (case service_receive 4 2 p (dm_ping_queue m) of (r, q) \<Rightarrow> (r, m\<lparr>dm_ping_queue := q\<rparr>))"
| "demo_receive LedReceiver p m =
     (case service_receive 4 2 p (dm_led_queue m) of (r, q) \<Rightarrow> (r, m\<lparr>dm_led_queue := q\<rparr>))"

definition demo_dispatch_entries :: "demo_receiver DispatchTableEntry list" where
  "demo_dispatch_entries = [\<lparr>dte_endpoint = kPingEndpoint, dte_receiver = Some PingReceiver\<rparr>,
     \<lparr>dte_endpoint = kLedControlEndpoint, dte_receiver = Some LedReceiver\<rparr>]"

definition demo_init :: "LedRegisters \<Rightarrow> DemoApplication" where
  "demo_init led = \<lparr>da_decoder = HdlcDecoder_init (6 + unat kDemoMaximumPayload),
     da_heartbeat = \<lparr>ps_wire = pc_wire kDiagnosticsPublication, ps_source_host = hi_id kArduinoHostInfo,
       ps_destination_host = pc_destination kDiagnosticsPublication, ps_last_send_time_ms = 0\<rparr>,
     da_memory = \<lparr>dm_uart_out = [], dm_led = led, dm_ping_queue = EndpointReceiverQueue_init 4 2 (),
       dm_led_queue = EndpointReceiverQueue_init 4 2 ()\<rparr>\<rparr>"

definition demo_deliver :: "PacketBuffer \<Rightarrow> DemoMemory \<Rightarrow> DemoMemory" where
  "demo_deliver packet m =
     snd (snd (DomainContext_receive demo_domain packet kUartIngressIndex demo_receive demo_dispatch_entries m))"

definition demo_poll_uart :: "bytes \<Rightarrow> DemoApplication \<Rightarrow> DemoApplication" where
  "demo_poll_uart available a =
     (case UartHdlcReceiver_process demo_deliver kDemoMaximumPayload available (da_decoder a, da_memory a) of
        (d, m) \<Rightarrow> a\<lparr>da_decoder := d, da_memory := m\<rparr>)"

text \<open>
  A service run takes its own queue out of the memory, as the memory of its router; the router's
  links never touch the queues.
\<close>

definition demo_run_ping :: "DemoMemory \<Rightarrow> DemoMemory option" where
  "demo_run_ping m = map_option (\<lambda>(q, m1). m1\<lparr>dm_ping_queue := q\<rparr>)
     (PingService_run demo_router (dm_ping_queue m) m)"

definition demo_set_led :: "u8 \<Rightarrow> DemoMemory \<Rightarrow> DemoMemory" where
  "demo_set_led brightness m = m\<lparr>dm_led := setBuiltinLedBrightness brightness (dm_led m)\<rparr>"

definition demo_run_led :: "DemoMemory \<Rightarrow> DemoMemory option" where
  "demo_run_led m = map_option (\<lambda>(q, m1). m1\<lparr>dm_led_queue := q\<rparr>)
     (LedControlService_run demo_router (Some demo_set_led) (dm_led_queue m) m)"

definition demo_runOnce :: "bytes \<Rightarrow> u32 \<Rightarrow> u32 \<Rightarrow> DemoApplication \<Rightarrow> DemoApplication option" where
  "demo_runOnce available now_ms send_now_ms a0 =
     (let a = demo_poll_uart available a0
      in Option.bind (demo_run_ping (da_memory a)) (\<lambda>m1.
           Option.bind (demo_run_led m1) (\<lambda>m2.
             case HeartbeatService_run 1000 demo_router now_ms send_now_ms (da_heartbeat a) m2 of
               (h, m3) \<Rightarrow> Some (a\<lparr>da_heartbeat := h, da_memory := m3\<rparr>))))"

subsection \<open>The link carries packets\<close>

text \<open>What crosses the link: header and payload.\<close>

definition packet_content :: "PacketBuffer \<Rightarrow> Header \<times> bytes" where
  "packet_content p = (pb_header p, payload p)"

definition link_fits :: "nat \<Rightarrow> PacketBuffer \<Rightarrow> bool" where
  "link_fits maximum_payload p \<longleftrightarrow> packet_invar p \<and> unat (pb_size p) \<le> maximum_payload"

definition wire_frame :: "PacketBuffer \<Rightarrow> bytes" where
  "wire_frame p = hdlc_frame (hdlc_body (header_bytes (pb_header p) @ payload p))"

lemma trySend_frame:
  assumes "link_fits n p" and "n + 6 < 2 ^ 16"
  shows "UartHdlcForwarder_trySend write_span n p w = (LA_kAccepted, write_span (wire_frame p) w)"
proof -
  let ?c = "headerAndPayload p"
  have hp: "?c = header_bytes (pb_header p) @ payload p"
    using assms by (intro headerAndPayload_eq) (auto simp: link_fits_def)
  then have ne: "?c \<noteq> []" by (simp add: header_bytes_def)
  have len: "length ?c \<le> n + 6" using hp assms(1) by (simp add: link_fits_def)
  have cap: "encodedSize ?c \<le> length (replicate (link_frame_capacity n) (0::u8))"
    using encodedSize_bounds(2) [OF ne] len by (simp add: link_frame_capacity_def)
  have pos: "0 < encodedSize ?c" using encodedSize_bounds(1) [OF ne] by simp
  have "take (encodedSize ?c) (span_write 0 (hdlc_frame (hdlc_body ?c)) (replicate (link_frame_capacity n) 0))
      = wire_frame p"
    unfolding wire_frame_def hp [symmetric]
    using cap by (intro take_span_write_0') (simp_all add: encodedSize_frame [OF ne])
  then show ?thesis
    using assms(1) pos hdlc_encode_frame [OF ne cap]
    by (simp add: UartHdlcForwarder_trySend_def link_fits_def)
qed

lemma trySend_too_large:
  "n < unat (pb_size p) \<Longrightarrow> UartHdlcForwarder_trySend write_span n p w = (LA_kTooLarge, w)"
  by (simp add: UartHdlcForwarder_trySend_def)

lemma uart_frame_packet_ok:
  assumes "packet_invar p" and "pb_size p \<le> capacity"
  shows "\<exists>q. uart_frame_packet capacity (header_bytes (pb_header p) @ payload p) = Some q
    \<and> packet_content q = packet_content p \<and> packet_invar q \<and> pb_ingress_index q = 0
    \<and> pb_size q = pb_size p \<and> pb_capacity q = capacity"
proof -
  let ?q = "(PacketBuffer_new capacity)\<lparr>pb_size := pb_size p, pb_header := pb_header p\<rparr>"
  let ?r = "if 0 < pb_size p then write_payload 0 (payload p) ?q else ?q"
  have l: "length (payload p) = unat (pb_size p)" using assms(1) by simp
  have q: "packet_invar ?q" using assms(2) by (simp add: packet_invar_def PacketBuffer_new_def)
  have e: "uart_frame_packet capacity (header_bytes (pb_header p) @ payload p) = Some ?r"
    using assms(2) l
    by (simp add: uart_frame_packet_def resize_def PacketBuffer_new_def word_le_nat_alt word_less_nat_alt Let_def)
  have "payload ?r = payload p"
  proof (cases "0 < pb_size p")
    case True
    have "length (payload ?q) = length (payload p)" using l length_payload [OF q] by simp
    then have "span_write 0 (payload p) (payload ?q) = payload p" by (intro span_write_full) simp
    with True show ?thesis using l payload_write_payload [OF q, of 0 "payload p"] by simp
  next
    case False
    then have "pb_size p = 0" by (simp add: word_gt_0)
    then show ?thesis by (simp add: payload_def)
  qed
  moreover have "pb_header ?r = pb_header p" "pb_ingress_index ?r = 0" "pb_size ?r = pb_size p"
    "pb_capacity ?r = capacity" by (simp_all add: PacketBuffer_new_def)
  moreover have "packet_invar ?r" using packet_invar_write_payload [OF q, of 0 "payload p"] q l by simp
  ultimately show ?thesis using e by (intro exI [of _ ?r]) (simp add: packet_content_def)
qed

lemma process_append:
  "UartHdlcReceiver_process deliver c (xs @ ys) s =
     UartHdlcReceiver_process deliver c ys (UartHdlcReceiver_process deliver c xs s)"
  by (induction deliver c xs s rule: UartHdlcReceiver_process.induct) (auto split: prod.splits bool.splits)

lemma process_keeps:
  assumes "\<And>frame p w. uart_frame_packet c frame = Some p \<Longrightarrow> P w \<Longrightarrow> P (deliver p w)" and "P w"
  shows "P (snd (UartHdlcReceiver_process deliver c available (d, w)))"
  using assms(2)
proof (induction available arbitrary: d w)
  case (Cons byte available)
  obtain r d1 where p: "HdlcDecoder_push byte d = (r, d1)" by fastforce
  have "P (case uart_frame_packet c (HdlcDecoder_frame d1) of None \<Rightarrow> w | Some packet \<Rightarrow> deliver packet w)"
    using Cons.prems assms(1) by (auto split: option.splits)
  then show ?case using Cons p by (cases r) simp_all
qed simp

lemma uart_frame_packet_fits:
  assumes "uart_frame_packet c frame = Some p"
  shows "packet_invar p" and "pb_size p \<le> c"
proof -
  show "packet_invar p"
    using assms resize_invar [OF packet_invar_new, of "word_of_nat (length frame - 6)" c]
    by (auto simp: uart_frame_packet_def Let_def resize_def split: if_splits prod.splits bool.splits)
  show "pb_size p \<le> c"
    using assms by (auto simp: uart_frame_packet_def Let_def resize_def PacketBuffer_new_def
        split: if_splits prod.splits bool.splits)
qed

lemma process_push_all:
  assumes "HdlcDecoder_push_all (xs @ [x]) d = (replicate (length xs) False @ [r], d')"
  shows "UartHdlcReceiver_process deliver c (xs @ [x]) (d, w) =
    (if r then (HdlcDecoder_consume d',
         (case uart_frame_packet c (HdlcDecoder_frame d') of None \<Rightarrow> w | Some p \<Rightarrow> deliver p w))
     else (d', w))"
  using assms
proof (induction xs arbitrary: d)
  case Nil
  then show ?case by (auto split: prod.splits bool.splits)
next
  case (Cons a xs)
  obtain d1 where "HdlcDecoder_push a d = (False, d1)"
    "HdlcDecoder_push_all (xs @ [x]) d1 = (replicate (length xs) False @ [r], d')"
    using Cons.prems by (auto split: prod.splits)
  with Cons.IH [of d1] show ?case by simp
qed

text \<open>One frame on an idle receiver: delivered when its CRC and size are right, dropped otherwise.\<close>

lemma process_frame:
  assumes "hdlc_quiet d" and "length (hd_frame d) = 6 + unat c + 2"
  shows "\<exists>d'. UartHdlcReceiver_process deliver c (hdlc_frame body) (d, w) =
      (d', if hdlc_accepts (6 + unat c) body
           then (case uart_frame_packet c (take (length body - 2) body) of None \<Rightarrow> w | Some p \<Rightarrow> deliver p w)
           else w)
    \<and> hdlc_quiet d' \<and> length (hd_frame d') = 6 + unat c + 2"
proof -
  from hdlc_decode_frame [OF assms, of body] obtain d1 where
    d1: "HdlcDecoder_push_all (hdlc_frame body) d =
        (replicate (Suc (length (hdlc_stuff body))) False @ [hdlc_accepts (6 + unat c) body], d1)"
      "length (hd_frame d1) = 6 + unat c + 2"
      "if hdlc_accepts (6 + unat c) body
       then hd_frame_ready d1 \<and> HdlcDecoder_frame d1 = take (length body - 2) body else hdlc_quiet d1"
    by blast
  have f: "hdlc_frame body = (hdlc_kFlag # hdlc_stuff body) @ [hdlc_kFlag]" by (simp add: hdlc_frame_def)
  have q: "hdlc_quiet (HdlcDecoder_consume d1)"
    by (simp add: hdlc_quiet_def HdlcDecoder_consume_def hasValidCrc_def)
  have p: "UartHdlcReceiver_process deliver c (hdlc_frame body) (d, w) =
    (if hdlc_accepts (6 + unat c) body then (HdlcDecoder_consume d1,
         (case uart_frame_packet c (HdlcDecoder_frame d1) of None \<Rightarrow> w | Some p \<Rightarrow> deliver p w))
     else (d1, w))"
    unfolding f by (rule process_push_all) (use d1(1) f in simp)
  show ?thesis
    using p q d1(2,3) by (auto simp: HdlcDecoder_consume_def split: if_splits)
qed

lemma process_wire_frame:
  assumes "hdlc_quiet d" and "length (hd_frame d) = 6 + unat c + 2" and "link_fits (unat c) p"
  shows "\<exists>d' q. UartHdlcReceiver_process deliver c (wire_frame p) (d, w) = (d', deliver q w)
    \<and> packet_content q = packet_content p \<and> packet_invar q \<and> pb_ingress_index q = 0
    \<and> pb_size q = pb_size p \<and> pb_capacity q = c
    \<and> hdlc_quiet d' \<and> length (hd_frame d') = 6 + unat c + 2"
proof -
  let ?b = "header_bytes (pb_header p) @ payload p"
  have p: "packet_invar p" "pb_size p \<le> c" using assms(3) by (auto simp: link_fits_def word_le_nat_alt)
  have a: "hdlc_accepts (6 + unat c) (hdlc_body ?b)"
    using assms(3) by (simp add: hdlc_accepts_body link_fits_def header_bytes_def)
  have t: "take (length (hdlc_body ?b) - 2) (hdlc_body ?b) = ?b" by (simp add: hdlc_body_def)
  show ?thesis
    using process_frame [OF assms(1,2), of deliver "hdlc_body ?b" w] uart_frame_packet_ok [OF p] a
    by (auto simp: wire_frame_def t)
qed

text \<open>Sending a sequence of packets and polling the bytes they put on the line.\<close>

fun link_send_all :: "nat \<Rightarrow> PacketBuffer list \<Rightarrow> bytes \<Rightarrow> LinkAdmission list \<times> bytes" where
  "link_send_all n [] line = ([], line)"
| "link_send_all n (p # ps) line =
     (case UartHdlcForwarder_trySend (\<lambda>bs l. l @ bs) n p line of
        (a, line1) \<Rightarrow> (case link_send_all n ps line1 of (as, line2) \<Rightarrow> (a # as, line2)))"

lemma link_send_all_frames:
  assumes "n + 6 < 2 ^ 16" and "\<forall>p \<in> set ps. packet_invar p"
  shows "snd (link_send_all n ps line) = line @ concat (map wire_frame (filter (link_fits n) ps))
    \<and> fst (link_send_all n ps line) = map (\<lambda>p. if link_fits n p then LA_kAccepted else LA_kTooLarge) ps"
  using assms(2)
proof (induction ps arbitrary: line)
  case (Cons p ps)
  have IH: "snd (link_send_all n ps l) = l @ concat (map wire_frame (filter (link_fits n) ps))
    \<and> fst (link_send_all n ps l) = map (\<lambda>p. if link_fits n p then LA_kAccepted else LA_kTooLarge) ps" for l
    using Cons by simp
  show ?case
  proof (cases "link_fits n p")
    case True
    then show ?thesis using IH by (simp add: split_def trySend_frame [OF True assms(1)])
  next
    case False
    then have "n < unat (pb_size p)" using Cons.prems by (simp add: link_fits_def)
    then show ?thesis using IH False by (simp add: split_def trySend_too_large)
  qed
qed simp

lemma process_wire_frames:
  assumes "hdlc_quiet d" and "length (hd_frame d) = 6 + unat c + 2" and "\<forall>p \<in> set ps. link_fits (unat c) p"
  shows "\<exists>d' qs. UartHdlcReceiver_process deliver c (concat (map wire_frame ps)) (d, w) = (d', fold deliver qs w)
    \<and> map packet_content qs = map packet_content ps \<and> (\<forall>q \<in> set qs. packet_invar q)
    \<and> hdlc_quiet d' \<and> length (hd_frame d') = 6 + unat c + 2"
  using assms
proof (induction ps arbitrary: d w)
  case Nil
  then show ?case by (intro exI [of _ d] exI [of _ "[]"]) simp
next
  case (Cons p ps)
  from process_wire_frame [OF Cons.prems(1,2), of p deliver w] Cons.prems(3) obtain d1 q where
    1: "UartHdlcReceiver_process deliver c (wire_frame p) (d, w) = (d1, deliver q w)"
      "packet_content q = packet_content p" "packet_invar q"
      "hdlc_quiet d1" "length (hd_frame d1) = 6 + unat c + 2" by auto
  from Cons.IH [OF 1(4,5), of "deliver q w"] Cons.prems(3) obtain d2 qs where
    2: "UartHdlcReceiver_process deliver c (concat (map wire_frame ps)) (d1, deliver q w) = (d2, fold deliver qs (deliver q w))"
      "map packet_content qs = map packet_content ps" "\<forall>q \<in> set qs. packet_invar q"
      "hdlc_quiet d2" "length (hd_frame d2) = 6 + unat c + 2" by auto
  show ?case
    using 1 2 by (intro exI [of _ d2] exI [of _ "q # qs"]) (simp add: process_append)
qed

subsection \<open>Routing and queues of the demonstration application\<close>

text \<open>A packet that originates on the board leaves on the UART as one frame.\<close>

lemma demo_router_sends:
  assumes "link_fits 4 r" and "h_wire (pb_header r) = kTestWire" and "pb_ingress_index r = 0"
  shows "Router_forward (dc_forwarder demo_domain) (dc_routes demo_domain) r m
    = (RR_kAccepted, uart0WriteSpan (wire_frame r) m)"
proof -
  have "demo_trySend r m = (LA_kAccepted, uart0WriteSpan (wire_frame r) m)"
    using trySend_frame [OF assms(1)] by (simp add: demo_trySend_def kDemoMaximumPayload_def)
  then show ?thesis
    using assms(2)
    by (simp add: Router_forward_local [OF assms(3)] demo_domain_def kDemoRoutes_def route_of_def
        demo_Forwarder_forward_def kUartEgress_def combineAdmission_def)
qed

text \<open>A unicast packet from the UART is not sent back and reaches the receiver of its endpoint.\<close>

definition demo_request :: "EndpointAddress \<Rightarrow> PacketBuffer \<Rightarrow> bool" where
  "demo_request endpoint p \<longleftrightarrow> hasSupportedControl (pb_header p) \<and> Header_transportType (pb_header p) = kSimple
     \<and> h_wire (pb_header p) = kTestWire \<and> h_destination (pb_header p) = kArduinoHost
     \<and> h_endpoint (pb_header p) = endpoint"

lemma demo_deliver_dispatch:
  assumes "h_wire (pb_header p) = kTestWire"
  shows "demo_deliver p m =
    snd (dispatch demo_receive demo_dispatch_entries (setIngressIndex 1 p) kArduinoHostInfo m)"
proof -
  have "Router_forward (dc_forwarder demo_domain) (dc_routes demo_domain) (setIngressIndex 1 p) m = (RR_kNoEgress, m)"
    using assms by (simp add: Router_forward_ingress [where i = 1] setIngressIndex_def demo_domain_def
        kDemoRoutes_def route_of_def kUartEgress_def)
  then show ?thesis
    using assms
    by (simp add: demo_deliver_def DomainContext_receive_def Router_receive_def kUartIngressIndex_def Let_def
        demo_domain_def isMemberOf_def kArduinoHostInfo_def setIngressIndex_def kMaximumHostWires_def split_def)
qed

text \<open>A run of a service handles every packet of its queue once, in order.\<close>

lemma demo_service_drains:
  assumes "EQ_invar 4 2 q"
  obtains q' ps where "map packet_view ps = EQ_views 2 q" "\<forall>p \<in> set ps. packet_invar p"
    "service_run process 4 2 (PacketBuffer_new 4) q m = Some (q', fold process ps m)"
    "EQ_invar 4 2 q'" "EQ_views 2 q' = []"
  using service_run_drains [OF assms packet_invar_new, of 4 process m] by (auto simp: PacketBuffer_new_def)

lemma demo_reply_sent:
  assumes "packet_invar r" and "length (payload r) = 4" and "h_wire (pb_header r) = kTestWire"
    and "pb_ingress_index r = 0"
  shows "snd (Router_forward (dc_forwarder demo_domain) (dc_routes demo_domain) r m) = uart0WriteSpan (wire_frame r) m"
proof -
  have "link_fits 4 r" using assms by (simp add: link_fits_def)
  then show ?thesis using assms by (simp add: demo_router_sends)
qed

lemma response_ingress:
  "pb_ingress_index (ping_response h s) = 0" "pb_ingress_index (led_response h b n) = 0"
  by (simp_all add: ping_response_def led_response_def initialize_new4 Let_def)

subsection \<open>The packets that bytes carry\<close>

text \<open>The packets that the bytes of a poll carry, and the decoder after them.\<close>

definition uart_packets :: "u16 \<Rightarrow> bytes \<Rightarrow> HdlcDecoder \<Rightarrow> HdlcDecoder \<times> PacketBuffer list" where
  "uart_packets capacity bs d = UartHdlcReceiver_process (\<lambda>p ps. ps @ [p]) capacity bs (d, [])"

lemma process_collect:
  "UartHdlcReceiver_process deliver c bs (d, fold deliver ps w) =
     (case UartHdlcReceiver_process (\<lambda>p ps. ps @ [p]) c bs (d, ps) of (d', qs) \<Rightarrow> (d', fold deliver qs w))"
proof (induction bs arbitrary: d ps)
  case (Cons b bs)
  obtain r d1 where p: "HdlcDecoder_push b d = (r, d1)" by fastforce
  show ?case
  proof (cases "r \<and> uart_frame_packet c (HdlcDecoder_frame d1) \<noteq> None")
    case True
    then obtain q where "uart_frame_packet c (HdlcDecoder_frame d1) = Some q" by blast
    then show ?thesis using True p Cons.IH [of "HdlcDecoder_consume d1" "ps @ [q]"] by simp
  next
    case False
    then show ?thesis using p Cons.IH [of _ ps] by (cases r) (auto split: option.splits)
  qed
qed simp

lemma process_packets:
  "UartHdlcReceiver_process deliver c bs (d, w) =
     (case uart_packets c bs d of (d', qs) \<Rightarrow> (d', fold deliver qs w))"
  using process_collect [of deliver c bs d "[]" w] by (simp add: uart_packets_def)

lemma fold_snoc: "fold (\<lambda>x ys. ys @ [x]) xs ys = ys @ xs"
  by (induction xs arbitrary: ys) simp_all

lemma uart_packets_invar:
  assumes "uart_packets c bs d = (d', ps)"
  shows "\<forall>p \<in> set ps. packet_invar p \<and> pb_size p \<le> c"
proof -
  have "\<forall>p \<in> set (snd (UartHdlcReceiver_process (\<lambda>p ps. ps @ [p]) c bs (d, []))). packet_invar p \<and> pb_size p \<le> c"
    by (rule process_keeps) (auto dest: uart_frame_packet_fits)
  then show ?thesis using assms by (simp add: uart_packets_def)
qed

text \<open>Where a stream of bytes is cut into polls makes no difference.\<close>

lemma uart_packets_append:
  "uart_packets c (xs @ ys) d =
     (case uart_packets c xs d of (d1, ps) \<Rightarrow> case uart_packets c ys d1 of (d2, qs) \<Rightarrow> (d2, ps @ qs))"
proof -
  obtain d1 ps where x: "uart_packets c xs d = (d1, ps)" by fastforce
  show ?thesis
    using x process_packets [of "\<lambda>p ps. ps @ [p]" c ys d1 ps]
    by (simp add: uart_packets_def process_append fold_snoc split: prod.splits)
qed

end
