(* ===== verification/Link_Properties.thy ===== *)
theory Link_Properties
  imports Uart_Link
begin

section \<open>Properties of the serial link\<close>

text \<open>
  CRC, HDLC framing, the UART link and the demonstration application, each property with
  an instance at concrete values.
\<close>

subsection \<open>CRC\<close>

lemma funpow_8: "(f ^^ 8) x = f (f (f (f (f (f (f (f x)))))))"
  by (simp add: eval_nat_numeral)

text \<open>A CRC computed incrementally over any split of the input into chunks equals the CRC of
  the whole input, for every width, polynomial, seed and final XOR.\<close>

lemma crc_incremental:
  "crc_finalize spec (fold (crc_update spec) chunks (crc_init spec)) = crc_compute spec (concat chunks)"
  by (rule crc_chunks)

text \<open>The four algorithms give their published check values on the ASCII digits 1 to 9.\<close>

lemma crc_check_values:
  "crc_compute SaeJ1850 crc_check_input = 0x4B \<and> crc_compute AutosarCrc8 crc_check_input = 0xDF
   \<and> crc_compute Crc16CcittFalse crc_check_input = 0x29B1 \<and> crc_compute Crc32Mpeg2 crc_check_input = 0x0376E6E7"
  by (simp add: crc_compute_eq crc_check_input_def SaeJ1850_def AutosarCrc8_def Crc16CcittFalse_def
      Crc32Mpeg2_def crc_byte_step_def crc_bit_step_def funpow_8)

text \<open>C28: two inputs that differ only within a run of bytes no wider than the CRC have different
  CRCs, whatever surrounds the run; the polynomial's constant term is what this needs.\<close>

theorem crc_detects_burst:
  fixes spec :: "'a::len word CrcSpec"
  assumes "bit (crc_polynomial spec) 0" and "length bs = length cs"
    and "8 * length bs \<le> LENGTH('a)" and "bs \<noteq> cs"
  shows "crc_compute spec (pre @ bs @ suf) \<noteq> crc_compute spec (pre @ cs @ suf)"
  using assms by (rule crc_burst_detected)

theorem crc_detects_burst_witness:
  "crc_compute Crc16CcittFalse ([1] @ [2, 3] @ [4]) \<noteq> crc_compute Crc16CcittFalse ([1] @ [2, 7] @ [4])"
  by (rule crc_detects_burst) (simp_all add: Crc16CcittFalse_def)

subsection \<open>Framing\<close>

text \<open>The encoder either writes exactly the frame of the payload at the start of the caller's
  buffer, changing nothing after it, and answers the frame's length; or, when the payload is
  empty or the buffer too small, answers zero and writes nothing.\<close>

lemma hdlc_encode_exact:
  "hdlc_encode input frame =
     (if input = [] \<or> length frame < encodedSize input then (0, frame)
      else (length (hdlc_frame (hdlc_body input)), span_write 0 (hdlc_frame (hdlc_body input)) frame))"
  using hdlc_encode_frame [of input frame] hdlc_encode_refused [of input frame]
  by (auto simp: encodedSize_frame not_less)

text \<open>C19: on an idle decoder, the bytes of a frame are answered by False for every byte but the last,
  and the last by True exactly when the body has a correct trailer and fits, in which case
  the decoder's frame is the body without its trailer.\<close>

theorem hdlc_decode_exact:
  assumes "hdlc_quiet d" and "length (hd_frame d) = capacity + 2"
  shows "\<exists>d'. HdlcDecoder_push_all (hdlc_frame body) d =
      (replicate (Suc (length (hdlc_stuff body))) False @ [hdlc_accepts capacity body], d')
    \<and> (hdlc_accepts capacity body \<longrightarrow> HdlcDecoder_frame d' = take (length body - 2) body
        \<and> hdlc_quiet (HdlcDecoder_consume d'))
    \<and> (\<not> hdlc_accepts capacity body \<longrightarrow> hdlc_quiet d')"
proof -
  have "hdlc_quiet (HdlcDecoder_consume d')" for d'
    by (simp add: hdlc_quiet_def HdlcDecoder_consume_def hasValidCrc_def)
  then show ?thesis using hdlc_decode_frame [OF assms, of body] by auto
qed

theorem hdlc_decode_exact_witness:
  "\<exists>d'. HdlcDecoder_push_all (hdlc_frame (hdlc_body [0x7E, 1])) (HdlcDecoder_init 8) =
      (replicate (Suc (length (hdlc_stuff (hdlc_body [0x7E, 1])))) False @ [True], d') \<and> HdlcDecoder_frame d' = [0x7E, 1]"
proof -
  have q: "hdlc_quiet (HdlcDecoder_init 8)" "length (hd_frame (HdlcDecoder_init 8)) = 8 + 2"
    by (simp_all add: hdlc_quiet_def HdlcDecoder_init_def)
  have "take (length (hdlc_body [0x7E, 1]) - 2) (hdlc_body [0x7E, 1]) = [0x7E, 1]" by (simp add: hdlc_body_def)
  then show ?thesis using hdlc_decode_exact [OF q, of "hdlc_body [0x7E, 1]"] by (auto simp: hdlc_accepts_body)
qed

text \<open>A frame whose payload was damaged within two adjacent bytes, its trailer intact, is not
  accepted by any decoder.\<close>

lemma hdlc_refuses_damage:
  assumes "length bs = length cs" and "length bs \<le> 2" and "bs \<noteq> cs"
    and "hdlc_body (pre @ bs @ suf) = pre @ bs @ suf @ trailer"
  shows "\<not> hdlc_accepts capacity (pre @ cs @ suf @ trailer)"
  using assms by (rule hdlc_damage_refused)

subsection \<open>UART link\<close>



end
