(* ===== verification/Demo_Run.thy ===== *)
theory Demo_Run
  imports Uart_Link
begin

section \<open>The main loop of the demonstration application\<close>

text \<open>
  \<^verbatim>\<open>main\<close> of \<^verbatim>\<open>examples/arduino-uno/main.cpp\<close> runs \<^verbatim>\<open>runOnce\<close> forever.  The loop is a list of passes; a pass
  carries the bytes that its poll of the UART takes and the two times its heartbeat service reads: for
  its check and for the message.
  The abstract specification of the application knows no frames, queues, routes or dispatch
  tables: a pass takes the packets its bytes carry, answers at most two of the packets
  addressed to each service, and publishes a heartbeat when it is due.
\<close>

subsection \<open>Loop\<close>

fun demo_passes :: "(bytes \<times> u32 \<times> u32) list \<Rightarrow> DemoApplication \<Rightarrow> DemoApplication option" where
  "demo_passes [] a = Some a"
| "demo_passes ((available, now_ms, send_now_ms) # passes) a =
     Option.bind (demo_runOnce available now_ms send_now_ms a) (demo_passes passes)"

lemma demo_passes_append:
  "demo_passes (ps @ qs) a = Option.bind (demo_passes ps a) (demo_passes qs)"
  by (induction ps a rule: demo_passes.induct) (auto simp: bind_eq_Some_conv split: bind_splits)

subsection \<open>Specification\<close>

record DemoSpec =
  sp_led :: LedRegisters
  sp_heartbeat :: PublicationService
  sp_sent :: "PacketBuffer list"

text \<open>The packets that reach the queue of a service: broadcast ones too.\<close>

definition demo_addressed :: "EndpointAddress \<Rightarrow> Header \<Rightarrow> bool" where
  "demo_addressed endpoint h \<longleftrightarrow> hasSupportedControl h \<and> Header_transportType h = kSimple
     \<and> h_wire h = kTestWire \<and> h_endpoint h = endpoint
     \<and> (h_destination h = kArduinoHost \<or> HostId_isBroadcast (h_destination h))"

definition demo_queued :: "EndpointAddress \<Rightarrow> (Header \<times> bytes) list \<Rightarrow> (Header \<times> bytes) list" where
  "demo_queued endpoint packets = take 2 (filter (\<lambda>(h, _). demo_addressed endpoint h) packets)"

text \<open>The two arguments of a request addressed to this host alone.\<close>

definition request_arguments :: "u8 \<Rightarrow> Header \<times> bytes \<Rightarrow> (u8 \<times> u8) option" where
  "request_arguments magic packet =
     (if HostId_isBroadcast (h_destination (fst packet)) then None
      else case snd packet of [m, t, x, y] \<Rightarrow> if m = magic \<and> t = kTypeRequest then Some (x, y) else None
           | _ \<Rightarrow> None)"

definition ping_answer :: "Header \<times> bytes \<Rightarrow> PacketBuffer option" where
  "ping_answer packet =
     map_option (\<lambda>(x, y). ping_response (fst packet) (le16 x y)) (request_arguments kPingMagic packet)"

definition led_answer :: "Header \<times> bytes \<Rightarrow> PacketBuffer option" where
  "led_answer packet =
     map_option (\<lambda>(x, y). led_response (fst packet) x y) (request_arguments kLedMagic packet)"

definition led_effect :: "Header \<times> bytes \<Rightarrow> LedRegisters \<Rightarrow> LedRegisters" where
  "led_effect packet r =
     (case request_arguments kLedMagic packet of None \<Rightarrow> r | Some (x, y) \<Rightarrow> setBuiltinLedBrightness x r)"

definition heartbeat_due :: "u32 \<Rightarrow> PublicationService \<Rightarrow> bool" where
  "heartbeat_due now_ms h \<longleftrightarrow> 1000 \<le> now_ms - ps_last_send_time_ms h"

definition demo_pass_spec :: "(Header \<times> bytes) list \<times> u32 \<times> u32 \<Rightarrow> DemoSpec \<Rightarrow> DemoSpec" where
  "demo_pass_spec pass s =
     (case pass of (packets, now_ms, send_now_ms) \<Rightarrow>
        let pings = demo_queued kPingEndpoint packets;
            leds = demo_queued kLedControlEndpoint packets;
            due = heartbeat_due now_ms (sp_heartbeat s);
            h = (if due then (sp_heartbeat s)\<lparr>ps_last_send_time_ms := now_ms\<rparr> else sp_heartbeat s)
        in \<lparr>sp_led = fold led_effect leds (sp_led s), sp_heartbeat = h,
            sp_sent = sp_sent s @ List.map_filter ping_answer pings @ List.map_filter led_answer leds
              @ (if due then [heartbeat_packet h send_now_ms] else [])\<rparr>)"

text \<open>The packets that the bytes of each pass carry, the decoder kept from pass to pass.\<close>

fun demo_traffic :: "(bytes \<times> u32 \<times> u32) list \<Rightarrow> HdlcDecoder \<Rightarrow> ((Header \<times> bytes) list \<times> u32 \<times> u32) list" where
  "demo_traffic [] d = []"
| "demo_traffic ((available, clock) # passes) d =
     (case uart_packets kDemoMaximumPayload available d of
        (d1, ps) \<Rightarrow> (map packet_content ps, clock) # demo_traffic passes d1)"

subsection \<open>Bytes to packets\<close>

text \<open>The decoder between two polls: any state but a finished frame.\<close>

definition hdlc_listening :: "nat \<Rightarrow> HdlcDecoder \<Rightarrow> bool" where
  "hdlc_listening capacity d \<longleftrightarrow> hdlc_invar d \<and> \<not> hd_frame_ready d \<and> length (hd_frame d) = capacity + 2"

lemma hdlc_push_length [simp]: "length (hd_frame (snd (HdlcDecoder_push b d))) = length (hd_frame d)"
  by (auto simp: HdlcDecoder_push_def hdlc_store_def Let_def)

lemma hdlc_listening_push:
  assumes "hdlc_listening n d" and "HdlcDecoder_push b d = (r, d')"
  shows "hdlc_listening n (if r then HdlcDecoder_consume d' else d')"
  using assms hdlc_invar_push [of d b] hdlc_invar_consume [of d'] HdlcDecoder_push_result [of b d]
    hdlc_push_length [of b d]
  by (auto simp: hdlc_listening_def HdlcDecoder_consume_def)

lemma process_listening:
  "hdlc_listening n d \<Longrightarrow> hdlc_listening n (fst (UartHdlcReceiver_process deliver c bs (d, w)))"
proof (induction bs arbitrary: d w)
  case (Cons b bs)
  obtain r d2 where p: "HdlcDecoder_push b d = (r, d2)" by fastforce
  show ?case using Cons.IH hdlc_listening_push [OF Cons.prems p] p by (cases r) simp_all
qed simp

lemma uart_packets_sound:
  assumes "hdlc_listening n d" and "uart_packets c bs d = (d', ps)"
  shows "hdlc_listening n d'" and "\<forall>p \<in> set ps. packet_invar p \<and> pb_size p \<le> c"
  using process_listening [OF assms(1), of "\<lambda>p ps. ps @ [p]" c bs "[]"] assms(2) uart_packets_invar [OF assms(2)]
  by (simp_all add: uart_packets_def)

text \<open>
  The flag that opens a frame puts a listening decoder between frames whatever it had received:
  at most one packet, ended by that flag, comes before the packet of the frame.
\<close>

lemma process_opening_flag:
  assumes "hdlc_listening n d"
  shows "\<exists>d' w'. UartHdlcReceiver_process deliver c [hdlc_kFlag] (d, w) = (d', w')
    \<and> hdlc_receiving [] d' \<and> length (hd_frame d') = n + 2 \<and> (w' = w \<or> (\<exists>g. w' = deliver g w))"
proof -
  obtain r d1 where p: "HdlcDecoder_push hdlc_kFlag d = (r, d1)" by fastforce
  have "hdlc_receiving [] (if r then HdlcDecoder_consume d1 else d1)"
    using assms p by (auto simp: hdlc_listening_def HdlcDecoder_push_def hdlc_receiving_def HdlcDecoder_consume_def
        HdlcDecoder_frame_def Let_def split: if_splits)
  moreover have "length (hd_frame (if r then HdlcDecoder_consume d1 else d1)) = n + 2"
    using hdlc_listening_push [OF assms p] by (simp add: hdlc_listening_def)
  ultimately show ?thesis using p by (cases r) (auto split: option.splits)
qed

lemma process_frame_tail:
  assumes "hdlc_receiving [] d" and "length (hd_frame d) = 6 + unat c + 2" and "link_fits (unat c) p"
  shows "\<exists>d' q. UartHdlcReceiver_process deliver c (tl (wire_frame p)) (d, w) = (d', deliver q w)
    \<and> packet_content q = packet_content p"
proof -
  let ?b = "header_bytes (pb_header p) @ payload p"
  let ?body = "hdlc_body ?b"
  have p: "packet_invar p" "pb_size p \<le> c" using assms(3) by (auto simp: link_fits_def word_le_nat_alt)
  have a: "hdlc_accepts (6 + unat c) ?body"
    using assms(3) by (simp add: hdlc_accepts_body link_fits_def header_bytes_def)
  obtain d2 where d2: "HdlcDecoder_push_all (hdlc_stuff ?body) d = (replicate (length (hdlc_stuff ?body)) False, d2)"
    "hdlc_receiving ?body d2" "length (hd_frame d2) = 6 + unat c + 2"
    using hdlc_receiving_stuff [OF assms(1), of ?body] assms(2) by auto
  obtain d3 where d3: "HdlcDecoder_push hdlc_kFlag d2 = (True, d3)"
    "HdlcDecoder_frame d3 = take (length ?body - 2) ?body"
    using hdlc_closing_flag [OF d2(2,3)] a by auto
  have "HdlcDecoder_push_all (hdlc_stuff ?body @ [hdlc_kFlag]) d
      = (replicate (length (hdlc_stuff ?body)) False @ [True], d3)"
    using d2(1) d3(1) by (simp add: HdlcDecoder_push_all_append)
  from process_push_all [OF this, of deliver c w] uart_frame_packet_ok [OF p] d3(2) show ?thesis
    by (auto simp: wire_frame_def hdlc_frame_def hdlc_body_def)
qed

lemma uart_packets_frame:
  assumes "hdlc_listening (6 + unat c) d" and "link_fits (unat c) p"
  shows "\<exists>d' gs q. uart_packets c (wire_frame p) d = (d', gs @ [q])
    \<and> packet_content q = packet_content p \<and> length gs \<le> 1"
proof -
  have f: "wire_frame p = [hdlc_kFlag] @ tl (wire_frame p)" by (simp add: wire_frame_def hdlc_frame_def)
  obtain d1 gs where g: "UartHdlcReceiver_process (\<lambda>p ps. ps @ [p]) c [hdlc_kFlag] (d, []) = (d1, gs)"
    "hdlc_receiving [] d1" "length (hd_frame d1) = 6 + unat c + 2" "length gs \<le> 1"
    using process_opening_flag [OF assms(1), of "\<lambda>p ps. ps @ [p]" c "[]"] by auto
  from process_frame_tail [OF g(2,3) assms(2), of "\<lambda>p ps. ps @ [p]" gs] g(1,4) show ?thesis
    unfolding uart_packets_def by (subst f) (auto simp only: process_append)
qed

subsection \<open>Packets to queues\<close>

definition queue_contents :: "unit endpoint_queue \<Rightarrow> (Header \<times> bytes) list" where
  "queue_contents q = map (\<lambda>(h, _, bs). (h, bs)) (EQ_views 2 q)"

definition demo_enqueue :: "PacketBuffer \<Rightarrow> unit endpoint_queue \<Rightarrow> unit endpoint_queue" where
  "demo_enqueue p q = snd (EndpointReceiverQueue_receive NoLock 4 2 (setIngressIndex 1 p) q)"

lemma demo_enqueue_contents:
  assumes "EQ_invar 4 2 q" and "packet_invar p" and "pb_size p \<le> 4" and "length (queue_contents q) \<le> 2"
  shows "EQ_invar 4 2 (demo_enqueue p q)"
    and "queue_contents (demo_enqueue p q) = take 2 (queue_contents q @ [packet_content p])"
proof -
  let ?p = "setIngressIndex 1 p"
  have p: "packet_invar ?p" "pb_size ?p \<le> 4" "packet_view ?p = (pb_header p, 1, payload p)"
    using assms(2,3) by (simp_all add: setIngressIndex_def packet_invar_def packet_view_def payload_def)
  have "EQ_invar 4 2 (demo_enqueue p q)
    \<and> queue_contents (demo_enqueue p q) = take 2 (queue_contents q @ [packet_content p])"
  proof (cases "length (EQ_views 2 q) < 2")
    case True
    with EQ_receive_accepts [OF assms(1) p(1,2) True, of NoLock] p(3) show ?thesis
      by (simp add: demo_enqueue_def queue_contents_def packet_content_def)
  next
    case False
    then have "2 \<le> length (EQ_views 2 q)" "length (EQ_views 2 q) = 2"
      using assms(4) by (auto simp: queue_contents_def)
    with EQ_receive_full [OF assms(1) p(1,2), of NoLock] show ?thesis
      by (simp add: demo_enqueue_def queue_contents_def)
  qed
  then show "EQ_invar 4 2 (demo_enqueue p q)"
    "queue_contents (demo_enqueue p q) = take 2 (queue_contents q @ [packet_content p])" by simp_all
qed

lemma demo_endpoints_differ: "kPingEndpoint \<noteq> kLedControlEndpoint"
  by (simp add: kPingEndpoint_def kLedControlEndpoint_def EndpointAddress_from_def)

lemma demo_deliver_foreign:
  assumes "h_wire (pb_header p) \<noteq> kTestWire"
  shows "demo_deliver p m = m"
proof -
  have "Router_forward (dc_forwarder demo_domain) (dc_routes demo_domain) (setIngressIndex 1 p) m = (RR_kNoRoute, m)"
    using assms by (simp add: Router_forward_ingress [where i = 1] setIngressIndex_def demo_domain_def
        kDemoRoutes_def route_of_def)
  then show ?thesis
    by (simp add: demo_deliver_def DomainContext_receive_def Router_receive_def kUartIngressIndex_def Let_def)
qed

lemma demo_member: "isMemberOf kArduinoHostInfo kTestWire"
  by (simp add: isMemberOf_def kArduinoHostInfo_def kMaximumHostWires_def)

lemma demo_deliver_eq:
  "demo_deliver p m =
     (if demo_addressed kPingEndpoint (pb_header p) then m\<lparr>dm_ping_queue := demo_enqueue p (dm_ping_queue m)\<rparr>
      else if demo_addressed kLedControlEndpoint (pb_header p)
      then m\<lparr>dm_led_queue := demo_enqueue p (dm_led_queue m)\<rparr> else m)"
proof (cases "h_wire (pb_header p) = kTestWire")
  case True
  have h: "pb_header (setIngressIndex 1 p) = pb_header p" by (simp add: setIngressIndex_def)
  have i: "hi_id kArduinoHostInfo = kArduinoHost" by (simp add: kArduinoHostInfo_def)
  show ?thesis
    using True demo_endpoints_differ
    by (auto simp: demo_deliver_dispatch [OF True] dispatch_def demo_dispatch_entries_def demo_addressed_def
        demo_enqueue_def h i demo_member service_receive_def TransportFilterReceiver_receive_def Let_def split_def)
next
  case False
  then show ?thesis by (simp add: demo_deliver_foreign demo_addressed_def)
qed

definition demo_filter :: "EndpointAddress \<Rightarrow> PacketBuffer list \<Rightarrow> (Header \<times> bytes) list" where
  "demo_filter endpoint ps = filter (\<lambda>(h, _). demo_addressed endpoint h) (map packet_content ps)"

lemma demo_filter_simps [simp]:
  "demo_filter e [] = []"
  "demo_filter e (p # ps) = (if demo_addressed e (pb_header p) then packet_content p # demo_filter e ps else demo_filter e ps)"
  by (simp_all add: demo_filter_def packet_content_def)

lemma demo_addressed_unique: "demo_addressed kPingEndpoint h \<Longrightarrow> \<not> demo_addressed kLedControlEndpoint h"
  using demo_endpoints_differ by (auto simp: demo_addressed_def)

lemma take_take_append: "take n (take n xs @ ys) = take n (xs @ ys)"
  by (simp add: min_def)

lemma demo_deliver_all:
  assumes "EQ_invar 4 2 (dm_ping_queue m)" and "EQ_invar 4 2 (dm_led_queue m)"
    and "length (queue_contents (dm_ping_queue m)) \<le> 2" and "length (queue_contents (dm_led_queue m)) \<le> 2"
    and "\<forall>p \<in> set ps. packet_invar p \<and> pb_size p \<le> 4"
  shows "\<exists>q r. fold demo_deliver ps m = m\<lparr>dm_ping_queue := q, dm_led_queue := r\<rparr> \<and> EQ_invar 4 2 q \<and> EQ_invar 4 2 r
    \<and> queue_contents q = take 2 (queue_contents (dm_ping_queue m) @ demo_filter kPingEndpoint ps)
    \<and> queue_contents r = take 2 (queue_contents (dm_led_queue m) @ demo_filter kLedControlEndpoint ps)"
  using assms
proof (induction ps arbitrary: m)
  case Nil
  then show ?case by (intro exI [of _ "dm_ping_queue m"] exI [of _ "dm_led_queue m"]) simp
next
  case (Cons p ps)
  have p: "packet_invar p" "pb_size p \<le> 4" using Cons.prems(5) by auto
  note ping = demo_enqueue_contents [OF Cons.prems(1) p Cons.prems(3)]
  note led = demo_enqueue_contents [OF Cons.prems(2) p Cons.prems(4)]
  let ?m = "demo_deliver p m"
  have i: "EQ_invar 4 2 (dm_ping_queue ?m)" "EQ_invar 4 2 (dm_led_queue ?m)"
    "length (queue_contents (dm_ping_queue ?m)) \<le> 2" "length (queue_contents (dm_led_queue ?m)) \<le> 2"
    using ping led Cons.prems(1-4) by (auto simp: demo_deliver_eq)
  from Cons.IH [OF i] Cons.prems(5) obtain q r where
    "fold demo_deliver ps ?m = ?m\<lparr>dm_ping_queue := q, dm_led_queue := r\<rparr>" "EQ_invar 4 2 q" "EQ_invar 4 2 r"
    "queue_contents q = take 2 (queue_contents (dm_ping_queue ?m) @ demo_filter kPingEndpoint ps)"
    "queue_contents r = take 2 (queue_contents (dm_led_queue ?m) @ demo_filter kLedControlEndpoint ps)" by auto
  then show ?case
    using ping(2) led(2) demo_addressed_unique [of "pb_header p"]
    by - (rule exI [of _ q], rule exI [of _ r],
      auto simp: demo_deliver_eq [of p m] take_take_append simp del: take_append)
qed

subsection \<open>Queues to answers\<close>

text \<open>
  A service of the board: what it does with one packet of its queue, as the packet it sends
  and its effect on the LED registers.
\<close>

locale demo_service =
  fixes process :: "PacketBuffer \<Rightarrow> DemoMemory \<Rightarrow> DemoMemory"
    and answer :: "Header \<times> bytes \<Rightarrow> PacketBuffer option"
    and led_of :: "Header \<times> bytes \<Rightarrow> LedRegisters \<Rightarrow> LedRegisters"
  assumes handles: "packet_invar p \<Longrightarrow> h_wire (pb_header p) = kTestWire \<Longrightarrow>
    process p m = m\<lparr>dm_uart_out := dm_uart_out m @ (case answer (packet_content p) of None \<Rightarrow> [] | Some r \<Rightarrow> wire_frame r),
      dm_led := led_of (packet_content p) (dm_led m)\<rparr>"
begin

lemma handles_all:
  "\<forall>p \<in> set ps. packet_invar p \<and> h_wire (pb_header p) = kTestWire \<Longrightarrow> fold process ps m =
     m\<lparr>dm_uart_out := dm_uart_out m @ concat (map wire_frame (List.map_filter answer (map packet_content ps))),
       dm_led := fold led_of (map packet_content ps) (dm_led m)\<rparr>"
  by (induction ps arbitrary: m) (auto simp: handles map_filter_simps split: option.splits)

lemma service_runs:
  assumes "EQ_invar 4 2 q" and "\<forall>(h, _) \<in> set (queue_contents q). h_wire h = kTestWire"
  shows "\<exists>q'. service_run process 4 2 (PacketBuffer_new 4) q m = Some (q',
      m\<lparr>dm_uart_out := dm_uart_out m @ concat (map wire_frame (List.map_filter answer (queue_contents q))),
        dm_led := fold led_of (queue_contents q) (dm_led m)\<rparr>)
    \<and> EQ_invar 4 2 q' \<and> EQ_views 2 q' = []"
proof -
  obtain q' ps where r: "map packet_view ps = EQ_views 2 q" "\<forall>p \<in> set ps. packet_invar p"
    "service_run process 4 2 (PacketBuffer_new 4) q m = Some (q', fold process ps m)"
    "EQ_invar 4 2 q'" "EQ_views 2 q' = []" by (rule demo_service_drains [OF assms(1)])
  have c: "map packet_content ps = queue_contents q"
    unfolding queue_contents_def r(1) [symmetric] by (simp add: packet_content_def packet_view_def)
  have "\<forall>p \<in> set ps. packet_invar p \<and> h_wire (pb_header p) = kTestWire"
    using r(2) assms(2) unfolding c [symmetric] by (auto simp: packet_content_def)
  from handles_all [OF this, of m] r(3-5) show ?thesis by (simp add: c)
qed

end

lemma request_arguments_eq:
  "request_arguments magic (h, bs) = (if (\<exists>x y. bs = [magic, kTypeRequest, x, y]) \<and> \<not> HostId_isBroadcast (h_destination h)
     then Some (bs ! 2, bs ! 3) else None)"
  by (auto simp: request_arguments_def split: list.splits)

interpretation ping: demo_service "Ping_processRequest demo_router" ping_answer "\<lambda>_ r. r"
proof
  fix p m
  assume "packet_invar p" "h_wire (pb_header p) = kTestWire"
  then show "Ping_processRequest demo_router p m = m\<lparr>dm_uart_out := dm_uart_out m @
      (case ping_answer (packet_content p) of None \<Rightarrow> [] | Some r \<Rightarrow> wire_frame r), dm_led := dm_led m\<rparr>"
    unfolding demo_router_def
    by (simp add: Ping_processRequest_spec demo_reply_sent ping_response_view response_ingress ping_answer_def
        request_arguments_eq packet_content_def uart0WriteSpan_def)
qed

interpretation led: demo_service "Led_processRequest demo_router (Some demo_set_led)" led_answer led_effect
proof
  fix p m
  assume "packet_invar p" "h_wire (pb_header p) = kTestWire"
  then show "Led_processRequest demo_router (Some demo_set_led) p m = m\<lparr>dm_uart_out := dm_uart_out m @
      (case led_answer (packet_content p) of None \<Rightarrow> [] | Some r \<Rightarrow> wire_frame r),
      dm_led := led_effect (packet_content p) (dm_led m)\<rparr>"
    unfolding demo_router_def
    by (simp add: Led_processRequest_spec demo_reply_sent led_response_view response_ingress led_answer_def
        led_effect_def request_arguments_eq packet_content_def uart0WriteSpan_def demo_set_led_def)
qed

subsection \<open>One pass refines the specification\<close>

definition demo_abs :: "DemoApplication \<Rightarrow> PacketBuffer list \<Rightarrow> DemoSpec" where
  "demo_abs a sent = \<lparr>sp_led = dm_led (da_memory a), sp_heartbeat = da_heartbeat a, sp_sent = sent\<rparr>"

text \<open>
  Between two passes both queues are empty, the decoder holds no finished frame, the heartbeat
  keeps its addresses, and the line has carried whole frames of the packets sent.
\<close>

definition demo_sound :: "DemoApplication \<Rightarrow> PacketBuffer list \<Rightarrow> bool" where
  "demo_sound a sent \<longleftrightarrow> hdlc_listening 10 (da_decoder a)
     \<and> EQ_invar 4 2 (dm_ping_queue (da_memory a)) \<and> EQ_views 2 (dm_ping_queue (da_memory a)) = []
     \<and> EQ_invar 4 2 (dm_led_queue (da_memory a)) \<and> EQ_views 2 (dm_led_queue (da_memory a)) = []
     \<and> ps_wire (da_heartbeat a) = kTestWire
     \<and> dm_uart_out (da_memory a) = concat (map wire_frame sent)"

lemma demo_sound_init: "demo_sound (demo_init led) []"
  using EQ_init_invar [of 2 4 "()"]
  by (simp add: demo_sound_def demo_init_def kDemoMaximumPayload_def hdlc_listening_def hdlc_invar_def
      HdlcDecoder_init_def kDiagnosticsPublication_def)

lemma heartbeat_ingress: "pb_ingress_index (heartbeat_packet h now) = 0"
  by (simp add: heartbeat_packet_def initialize_new4 Let_def)

lemma heartbeat_runs:
  assumes "ps_wire h = kTestWire"
  shows "HeartbeatService_run 1000 demo_router now send_now h m =
    (if heartbeat_due now h
     then (h\<lparr>ps_last_send_time_ms := now\<rparr>, uart0WriteSpan (wire_frame (heartbeat_packet (h\<lparr>ps_last_send_time_ms := now\<rparr>) send_now)) m)
     else (h, m))"
  using assms
  by (simp add: HeartbeatService_run_def heartbeat_due_def sendHeartbeat_def demo_router_def service_forward_def
      demo_reply_sent heartbeat_packet_view heartbeat_ingress Let_def le32_bytes_def)

lemma demo_filter_wire: "\<forall>(h, _) \<in> set (take n (demo_filter e ps)). h_wire h = kTestWire"
  by (auto simp: demo_filter_def demo_addressed_def dest!: in_set_takeD)

lemma demo_poll_refines:
  assumes "demo_sound a sent" and "uart_packets kDemoMaximumPayload bs (da_decoder a) = (d', ps)"
  obtains q r where "demo_poll_uart bs a =
      a\<lparr>da_decoder := d', da_memory := (da_memory a)\<lparr>dm_ping_queue := q, dm_led_queue := r\<rparr>\<rparr>"
    and "hdlc_listening 10 d'" and "EQ_invar 4 2 q" and "EQ_invar 4 2 r"
    and "queue_contents q = take 2 (demo_filter kPingEndpoint ps)"
    and "queue_contents r = take 2 (demo_filter kLedControlEndpoint ps)"
proof -
  note s = assms(1) [unfolded demo_sound_def]
  from uart_packets_sound [OF _ assms(2), of 10] s
  have d': "hdlc_listening 10 d'" "\<forall>p \<in> set ps. packet_invar p \<and> pb_size p \<le> 4"
    by (auto simp: kDemoMaximumPayload_def)
  have e: "queue_contents (dm_ping_queue (da_memory a)) = []" "queue_contents (dm_led_queue (da_memory a)) = []"
    using s by (simp_all add: queue_contents_def)
  from demo_deliver_all [of "da_memory a" ps] s e d'(2) obtain q r where
    "fold demo_deliver ps (da_memory a) = (da_memory a)\<lparr>dm_ping_queue := q, dm_led_queue := r\<rparr>"
    "EQ_invar 4 2 q" "EQ_invar 4 2 r" "queue_contents q = take 2 (demo_filter kPingEndpoint ps)"
    "queue_contents r = take 2 (demo_filter kLedControlEndpoint ps)" by auto
  with d'(1) that show thesis by (simp add: demo_poll_uart_def process_packets assms(2))
qed

lemma fold_ignore [simp]: "fold (\<lambda>_ r. r) xs s = s"
  by (induction xs) simp_all

lemma demo_runOnce_refines:
  assumes "demo_sound a sent" and "uart_packets kDemoMaximumPayload bs (da_decoder a) = (d', ps)"
  shows "\<exists>a' sent'. demo_runOnce bs now send_now a = Some a' \<and> da_decoder a' = d' \<and> demo_sound a' sent'
    \<and> demo_abs a' sent' = demo_pass_spec (map packet_content ps, now, send_now) (demo_abs a sent)"
proof -
  let ?m = "da_memory a"
  note s = assms(1) [unfolded demo_sound_def]
  let ?pings = "demo_queued kPingEndpoint (map packet_content ps)"
    and ?leds = "demo_queued kLedControlEndpoint (map packet_content ps)"
  let ?out = "sent @ List.map_filter ping_answer ?pings @ List.map_filter led_answer ?leds"
  obtain q r where p: "demo_poll_uart bs a = a\<lparr>da_decoder := d', da_memory := ?m\<lparr>dm_ping_queue := q, dm_led_queue := r\<rparr>\<rparr>"
    "hdlc_listening 10 d'" "EQ_invar 4 2 q" "EQ_invar 4 2 r"
    and c: "queue_contents q = ?pings" "queue_contents r = ?leds"
    using demo_poll_refines [OF assms] by (metis demo_filter_def demo_queued_def)
  have w: "\<forall>(h, _) \<in> set (queue_contents q). h_wire h = kTestWire" "\<forall>(h, _) \<in> set (queue_contents r). h_wire h = kTestWire"
    unfolding c demo_queued_def demo_filter_def [symmetric] by (rule demo_filter_wire)+
  define m1 where "m1 = ?m\<lparr>dm_ping_queue := q, dm_led_queue := r\<rparr>"
  obtain q' where q': "demo_run_ping m1 = Some (m1\<lparr>dm_uart_out := dm_uart_out ?m @
      concat (map wire_frame (List.map_filter ping_answer ?pings)), dm_ping_queue := q'\<rparr>)"
    "EQ_invar 4 2 q'" "EQ_views 2 q' = []"
    using ping.service_runs [OF p(3) w(1), of m1]
    by (auto simp: demo_run_ping_def PingService_run_def m1_def c)
  define m2 where "m2 = m1\<lparr>dm_uart_out := dm_uart_out ?m @
      concat (map wire_frame (List.map_filter ping_answer ?pings)), dm_ping_queue := q'\<rparr>"
  obtain r' where r': "demo_run_led m2 = Some (m2\<lparr>dm_uart_out := concat (map wire_frame ?out),
      dm_led := fold led_effect ?leds (dm_led ?m), dm_led_queue := r'\<rparr>)" "EQ_invar 4 2 r'" "EQ_views 2 r' = []"
    using led.service_runs [OF p(4) w(2), of m2] s
    by (auto simp: demo_run_led_def LedControlService_run_def m1_def m2_def c)
  show ?thesis
    using p(1,2) q' r' s heartbeat_runs [of "da_heartbeat a" now send_now]
    by (cases "heartbeat_due now (da_heartbeat a)")
      (auto simp: demo_runOnce_def Let_def m1_def m2_def demo_sound_def demo_abs_def demo_pass_spec_def
        uart0WriteSpan_def intro: exI [of _ ?out])
qed

lemma demo_passes_refine:
  assumes "demo_sound a sent"
  shows "\<exists>a' sent'. demo_passes passes a = Some a' \<and> demo_sound a' sent'
    \<and> demo_abs a' sent' = fold demo_pass_spec (demo_traffic passes (da_decoder a)) (demo_abs a sent)"
  using assms
proof (induction passes arbitrary: a sent)
  case (Cons pass passes)
  obtain bs now send_now where pass: "pass = (bs, now, send_now)" by (metis prod_cases3)
  obtain d' ps where u: "uart_packets kDemoMaximumPayload bs (da_decoder a) = (d', ps)" by fastforce
  from demo_runOnce_refines [OF Cons.prems u, of now send_now] obtain a1 sent1 where
    1: "demo_runOnce bs now send_now a = Some a1" "da_decoder a1 = d'" "demo_sound a1 sent1"
      "demo_abs a1 sent1 = demo_pass_spec (map packet_content ps, now, send_now) (demo_abs a sent)" by blast
  from Cons.IH [OF 1(3)] 1 u show ?case by (simp add: pass)
qed auto

text \<open>A request for this host alone, whatever the application received before it.\<close>

lemma demo_request_addressed:
  "demo_request e p \<Longrightarrow> demo_addressed e (pb_header p)" "demo_request e p \<Longrightarrow> \<not> HostId_isBroadcast (h_destination (pb_header p))"
  by (simp_all add: demo_request_def demo_addressed_def HostId_isBroadcast_def kArduinoHost_def kBroadcastHostValue_def)

lemma length_map_filter_le: "length (List.map_filter f xs) \<le> length xs"
  by (simp add: map_filter_def)

lemma length_demo_queued_le: "length (demo_queued e gs) \<le> length gs"
  using length_filter_le [of "\<lambda>(h, _). demo_addressed e h" gs] by (simp add: demo_queued_def min.coboundedI1)

lemma demo_request_taken:
  assumes "demo_sound a sent" and "link_fits 4 p" and "demo_request e p"
  obtains a' sent' gs where "demo_runOnce (wire_frame p) now send_now a = Some a'" "demo_sound a' sent'" "length gs \<le> 1"
    "demo_abs a' sent' = demo_pass_spec (gs @ [packet_content p], now, send_now) (demo_abs a sent)"
    "demo_queued e (gs @ [packet_content p]) = demo_queued e gs @ [packet_content p]"
proof -
  have d: "hdlc_listening (6 + unat kDemoMaximumPayload) (da_decoder a)" "link_fits (unat kDemoMaximumPayload) p"
    using assms(1,2) by (simp_all add: demo_sound_def kDemoMaximumPayload_def)
  from uart_packets_frame [OF d] obtain d' gs q where
    u: "uart_packets kDemoMaximumPayload (wire_frame p) (da_decoder a) = (d', gs @ [q])"
      "packet_content q = packet_content p" "length gs \<le> 1" by blast
  have "length (filter (\<lambda>(h, _). demo_addressed e h) (map packet_content gs)) \<le> 1"
    by (rule order_trans [OF length_filter_le]) (use u(3) in simp)
  then have "demo_queued e (map packet_content gs @ [packet_content p])
      = demo_queued e (map packet_content gs) @ [packet_content p]"
    using demo_request_addressed(1) [OF assms(3)]
    by (simp add: demo_queued_def packet_content_def)
  with demo_runOnce_refines [OF assms(1) u(1), of now send_now] u(2,3) that [of _ _ "map packet_content gs"]
  show thesis by auto
qed

lemma demo_ping_after:
  assumes "demo_sound a sent" and "link_fits 4 p" and "demo_request kPingEndpoint p"
    and "payload p = [kPingMagic, kTypeRequest, x, y]"
  shows "\<exists>a' pre post. demo_runOnce (wire_frame p) now send_now a = Some a'
    \<and> dm_uart_out (da_memory a') = dm_uart_out (da_memory a)
        @ concat (map wire_frame (pre @ ping_response (pb_header p) (le16 x y) # post)) \<and> length pre \<le> 1"
proof -
  from assms(1,2,3) obtain a' sent' gs where r: "demo_runOnce (wire_frame p) now send_now a = Some a'" "demo_sound a' sent'"
    "length gs \<le> 1" "demo_abs a' sent' = demo_pass_spec (gs @ [packet_content p], now, send_now) (demo_abs a sent)"
    "demo_queued kPingEndpoint (gs @ [packet_content p]) = demo_queued kPingEndpoint gs @ [packet_content p]"
    by (rule demo_request_taken)
  have "ping_answer (packet_content p) = Some (ping_response (pb_header p) (le16 x y))"
    using assms(4) demo_request_addressed(2) [OF assms(3)]
    by (simp add: ping_answer_def request_arguments_def packet_content_def)
  moreover have "sent' = sp_sent (demo_pass_spec (gs @ [packet_content p], now, send_now) (demo_abs a sent))"
    unfolding r(4) [symmetric] by (simp add: demo_abs_def)
  ultimately obtain post where
    "sent' = sent @ List.map_filter ping_answer (demo_queued kPingEndpoint gs) @ ping_response (pb_header p) (le16 x y) # post"
    by (simp add: demo_pass_spec_def r(5) demo_abs_def Let_def map_filter_def)
  moreover have "length (List.map_filter ping_answer (demo_queued kPingEndpoint gs)) \<le> 1"
    using r(3) length_map_filter_le [of ping_answer "demo_queued kPingEndpoint gs"]
      length_demo_queued_le [of kPingEndpoint gs] by simp
  ultimately show ?thesis
    using r(1,2) assms(1)
    by (intro exI [of _ a'] exI [of _ "List.map_filter ping_answer (demo_queued kPingEndpoint gs)"] exI [of _ post])
      (simp add: demo_sound_def)
qed

subsection \<open>Properties\<close>

text \<open>C14: the main loop of the demonstration application, from power-up and on any sequence of
  passes with any bytes on the line and any readings of the clock in each, never stops, and refines its
  specification: the frames put on the line are, pass by pass, the answers to the first two
  packets for the ping service, the answers to the first two for the LED service, and the
  heartbeat, with the time read when it is sent, when it was due at the check; the LED hardware is what the answered LED requests make of it.\<close>

theorem demo_loop_refines:
  "\<exists>a sent. demo_passes passes (demo_init led) = Some a
    \<and> dm_uart_out (da_memory a) = concat (map wire_frame sent)
    \<and> demo_abs a sent = fold demo_pass_spec (demo_traffic passes (HdlcDecoder_init 10)) (demo_abs (demo_init led) [])"
  using demo_passes_refine [OF demo_sound_init, of passes led]
  by (auto simp: demo_sound_def demo_init_def kDemoMaximumPayload_def)

text \<open>C13: after any sequence of passes with any bytes, garbage and broken frames included, a pass
  that polls the frame of a ping request sends a whole frame with the response: same sequence
  number, addressed to the host that asked.  At most one other answer, to a packet that the
  earlier bytes carried, goes out in front of it.\<close>

theorem demo_answers_after_any_traffic:
  assumes "link_fits 4 p" and "demo_request kPingEndpoint p" and "payload p = [kPingMagic, kTypeRequest, x, y]"
  shows "\<exists>a a' pre r post. demo_passes passes (demo_init led) = Some a \<and> demo_runOnce (wire_frame p) now_ms send_now_ms a = Some a'
    \<and> dm_uart_out (da_memory a') = dm_uart_out (da_memory a) @ concat (map wire_frame (pre @ r # post))
    \<and> length pre \<le> 1 \<and> payload r = [kPingMagic, kTypeResponse, x, y]
    \<and> h_wire (pb_header r) = h_wire (pb_header p) \<and> h_source (pb_header r) = kArduinoHost
    \<and> h_destination (pb_header r) = h_source (pb_header p) \<and> h_endpoint (pb_header r) = kPingEndpoint"
proof -
  obtain a sent where a: "demo_passes passes (demo_init led) = Some a" "demo_sound a sent"
    using demo_passes_refine [OF demo_sound_init] by blast
  let ?r = "ping_response (pb_header p) (le16 x y)"
  from demo_ping_after [OF a(2) assms, of now_ms send_now_ms] obtain a' pre post where
    "demo_runOnce (wire_frame p) now_ms send_now_ms a = Some a'" "length pre \<le> 1"
    "dm_uart_out (da_memory a') = dm_uart_out (da_memory a) @ concat (map wire_frame (pre @ ?r # post))" by blast
  moreover have "payload ?r = [kPingMagic, kTypeResponse, x, y]" "h_wire (pb_header ?r) = h_wire (pb_header p)"
    "h_source (pb_header ?r) = kArduinoHost" "h_destination (pb_header ?r) = h_source (pb_header p)"
    "h_endpoint (pb_header ?r) = kPingEndpoint"
    using assms(2) by (simp_all add: ping_response_view demo_request_def)
  ultimately show ?thesis using a(1) by blast
qed

definition example_request :: "EndpointAddress \<Rightarrow> bytes \<Rightarrow> PacketBuffer" where
  "example_request endpoint bs = write_payload 0 bs ((PacketBuffer_new 4)\<lparr>pb_size := 4,
     pb_header := \<lparr>h_control = 0x80, h_wire = kTestWire, h_source = kPcHost, h_destination = kArduinoHost, h_endpoint = endpoint\<rparr>\<rparr>)"

lemma example_request_ok:
  assumes "length bs = 4"
  shows "link_fits 4 (example_request endpoint bs)" and "demo_request endpoint (example_request endpoint bs)"
    and "payload (example_request endpoint bs) = bs"
  using response_written [OF assms, of "(PacketBuffer_new 4)\<lparr>pb_size := 4, pb_header :=
      \<lparr>h_control = 0x80, h_wire = kTestWire, h_source = kPcHost, h_destination = kArduinoHost, h_endpoint = endpoint\<rparr>\<rparr>"]
  by (simp_all add: example_request_def new4_fields link_fits_def demo_request_def hasSupportedControl_def
      Header_transportType_def kSimple_def kNumTransportTypes_def)

definition example_led :: LedRegisters where
  "example_led = \<lparr>led_portb = 0, led_ocr1a = 0, led_tcnt1 = 0, led_tifr1 = 0, led_timsk1 = 0\<rparr>"

text \<open>Garbage, a flag and an unfinished frame come before the request.\<close>

theorem demo_answers_after_any_traffic_witness:
  "\<exists>a a' pre r post. demo_passes [([1, 2, 0x7E, 9, 0x7D], 5, 5), ([0x7E, 1], 6, 7)] (demo_init example_led) = Some a
    \<and> demo_runOnce (wire_frame (example_request kPingEndpoint [kPingMagic, kTypeRequest, 5, 0])) 10 11 a = Some a'
    \<and> dm_uart_out (da_memory a') = dm_uart_out (da_memory a) @ concat (map wire_frame (pre @ r # post))
    \<and> payload r = [kPingMagic, kTypeResponse, 5, 0]"
proof -
  note ok = example_request_ok [of "[kPingMagic, kTypeRequest, 5, 0]" kPingEndpoint]
  from demo_answers_after_any_traffic [OF ok, of "[([1, 2, 0x7E, 9, 0x7D], 5, 5), ([0x7E, 1], 6, 7)]" example_led 10 11]
  show ?thesis by fastforce
qed

end
