(* ===== verification/Bits_Codec.thy ===== *)
theory Bits_Codec
  imports WS_Prelude
begin

section \<open>Compact BITS wire codec\<close>

text \<open>
  \<^verbatim>\<open>transports/bits/protocol.h\<close> and \<^verbatim>\<open>transports/bits/codec.cpp\<close>: the message records and
  their little-endian encodings.  An encoder writes through a mutable span and answers
  \<^verbatim>\<open>false\<close> when the span is too short; a decoder's out-parameter is an option.
\<close>

subsection \<open>Protocol values\<close>

definition kProtocolVersion :: u8 where
  "kProtocolVersion = 0"

definition kCompactProfile :: u8 where
  "kCompactProfile = 0"

definition kCompactWindowWidth :: nat where
  "kCompactWindowWidth = 16"

definition kSetupSize :: nat where "kSetupSize = 10"
definition kSegmentHeaderSize :: nat where "kSegmentHeaderSize = 4"
definition kAckSize :: nat where "kAckSize = 6"
definition kProbeSize :: nat where "kProbeSize = 2"
definition kRejectSize :: nat where "kRejectSize = 3"
definition kAbortSize :: nat where "kAbortSize = 2"
definition kUserDatagramHeaderSize :: nat where "kUserDatagramHeaderSize = 1"

lemmas bits_sizes = kSetupSize_def kSegmentHeaderSize_def kAckSize_def kProbeSize_def
  kRejectSize_def kAbortSize_def kUserDatagramHeaderSize_def

definition kMaximumCompactSegmentCount :: u32 where
  "kMaximumCompactSegmentCount = 65536"

datatype MessageType = MT_kSetup | MT_kSegment | MT_kAck | MT_kProbe | MT_kReject
  | MT_kUserDatagram | MT_kAbort

fun MessageType_value :: "MessageType \<Rightarrow> u8" where
  "MessageType_value MT_kSetup = 0"
| "MessageType_value MT_kSegment = 1"
| "MessageType_value MT_kAck = 2"
| "MessageType_value MT_kProbe = 3"
| "MessageType_value MT_kReject = 4"
| "MessageType_value MT_kUserDatagram = 5"
| "MessageType_value MT_kAbort = 6"

text \<open>\<^verbatim>\<open>static_cast<MessageType>\<close> of a value already checked to be at most \<^verbatim>\<open>kAbort\<close>.\<close>

definition MessageType_of :: "u8 \<Rightarrow> MessageType" where
  "MessageType_of v = (if v = 0 then MT_kSetup else if v = 1 then MT_kSegment
     else if v = 2 then MT_kAck else if v = 3 then MT_kProbe else if v = 4 then MT_kReject
     else if v = 5 then MT_kUserDatagram else MT_kAbort)"

record Control =
  ct_version :: u8
  ct_profile :: u8
  ct_type :: MessageType

record Setup =
  su_session_id :: u8
  su_initial_sequence_number :: u8
  su_final_segment_index :: u16
  su_segment_size :: u16
  su_final_segment_size :: u16

definition Setup_zero :: Setup where
  "Setup_zero = \<lparr>su_session_id = 0, su_initial_sequence_number = 0, su_final_segment_index = 0,
     su_segment_size = 0, su_final_segment_size = 0\<rparr>"

definition setupSegmentCount :: "Setup \<Rightarrow> u32" where
  "setupSegmentCount s = ucast (su_final_segment_index s) + 1"

definition setupTotalSize :: "Setup \<Rightarrow> u32" where
  "setupTotalSize s =
     ucast (su_final_segment_index s) * ucast (su_segment_size s) + ucast (su_final_segment_size s)"

record SegmentHeader =
  sh_session_id :: u8
  sh_segment_index :: u16

record Ack =
  ak_session_id :: u8
  ak_window_bitmap :: u16
  ak_max_receive_sequence :: u8
  ak_window_base :: u8

record Probe =
  pr_session_id :: u8

datatype RejectReason = RJ_kUnsupportedVersion | RJ_kUnsupportedProfile
  | RJ_kUnsupportedSegmentSize | RJ_kObjectTooLarge | RJ_kBusy | RJ_kInvalidArgument
  | RJ_kInternalError

fun RejectReason_value :: "RejectReason \<Rightarrow> u8" where
  "RejectReason_value RJ_kUnsupportedVersion = 0"
| "RejectReason_value RJ_kUnsupportedProfile = 1"
| "RejectReason_value RJ_kUnsupportedSegmentSize = 2"
| "RejectReason_value RJ_kObjectTooLarge = 3"
| "RejectReason_value RJ_kBusy = 4"
| "RejectReason_value RJ_kInvalidArgument = 5"
| "RejectReason_value RJ_kInternalError = 6"

definition RejectReason_of :: "u8 \<Rightarrow> RejectReason" where
  "RejectReason_of v = (if v = 0 then RJ_kUnsupportedVersion else if v = 1 then RJ_kUnsupportedProfile
     else if v = 2 then RJ_kUnsupportedSegmentSize else if v = 3 then RJ_kObjectTooLarge
     else if v = 4 then RJ_kBusy else if v = 5 then RJ_kInvalidArgument else RJ_kInternalError)"

record Reject =
  rj_session_id :: u8
  rj_reason :: RejectReason

record Abort =
  ab_session_id :: u8

subsection \<open>Control byte\<close>

definition readU16 :: "bytes \<Rightarrow> nat \<Rightarrow> u16" where
  "readU16 input off = le16 (input ! off) (input ! (off + 1))"

definition writeU16 :: "u16 \<Rightarrow> bytes" where
  "writeU16 v = [lo8 v, hi8 v]"

definition encodeControl :: "MessageType \<Rightarrow> u8" where
  "encodeControl t = push_bit 7 kCompactProfile OR push_bit 4 kProtocolVersion OR MessageType_value t"

definition decodeControl :: "u8 \<Rightarrow> Control option" where
  "decodeControl encoded =
     (let profile = drop_bit 7 (encoded AND 0x80);
          version = drop_bit 4 (encoded AND 0x70);
          type_value = encoded AND 0x0F
      in if profile \<noteq> kCompactProfile \<or> version \<noteq> kProtocolVersion
            \<or> MessageType_value MT_kAbort < type_value
         then None
         else Some \<lparr>ct_version = version, ct_profile = profile, ct_type = MessageType_of type_value\<rparr>)"

definition hasType :: "bytes \<Rightarrow> MessageType \<Rightarrow> bool" where
  "hasType input expected =
     (input \<noteq> [] \<and> (case decodeControl (input ! 0) of None \<Rightarrow> False | Some c \<Rightarrow> ct_type c = expected))"

subsection \<open>Messages\<close>

definition encodeSetup :: "Setup \<Rightarrow> bytes \<Rightarrow> bool \<times> bytes" where
  "encodeSetup s output =
     (if length output < kSetupSize then (False, output)
      else (True, span_write 0
        ([encodeControl MT_kSetup, su_session_id s, su_initial_sequence_number s, 0]
          @ writeU16 (su_final_segment_index s) @ writeU16 (su_segment_size s)
          @ writeU16 (su_final_segment_size s)) output))"

definition decodeSetupKnownType :: "bytes \<Rightarrow> Setup option" where
  "decodeSetupKnownType input =
     (if length input \<noteq> kSetupSize \<or> input ! 3 \<noteq> 0 then None
      else Some \<lparr>su_session_id = input ! 1, su_initial_sequence_number = input ! 2,
        su_final_segment_index = readU16 input 4, su_segment_size = readU16 input 6,
        su_final_segment_size = readU16 input 8\<rparr>)"

definition decodeSetup :: "bytes \<Rightarrow> Setup option" where
  "decodeSetup input = (if hasType input MT_kSetup then decodeSetupKnownType input else None)"

definition encodeSegmentHeader :: "SegmentHeader \<Rightarrow> bytes \<Rightarrow> bool \<times> bytes" where
  "encodeSegmentHeader h output =
     (if length output < kSegmentHeaderSize then (False, output)
      else (True, span_write 0
        ([encodeControl MT_kSegment, sh_session_id h] @ writeU16 (sh_segment_index h)) output))"

definition decodeSegmentHeaderKnownType :: "bytes \<Rightarrow> SegmentHeader option" where
  "decodeSegmentHeaderKnownType input =
     (if length input < kSegmentHeaderSize then None
      else Some \<lparr>sh_session_id = input ! 1, sh_segment_index = readU16 input 2\<rparr>)"

definition decodeSegmentHeader :: "bytes \<Rightarrow> SegmentHeader option" where
  "decodeSegmentHeader input =
     (if hasType input MT_kSegment then decodeSegmentHeaderKnownType input else None)"

definition encodeAck :: "Ack \<Rightarrow> bytes \<Rightarrow> bool \<times> bytes" where
  "encodeAck a output =
     (if length output < kAckSize then (False, output)
      else (True, span_write 0
        ([encodeControl MT_kAck, ak_session_id a] @ writeU16 (ak_window_bitmap a)
          @ [ak_max_receive_sequence a, ak_window_base a]) output))"

definition decodeAckKnownType :: "bytes \<Rightarrow> Ack option" where
  "decodeAckKnownType input =
     (if length input \<noteq> kAckSize then None
      else Some \<lparr>ak_session_id = input ! 1, ak_window_bitmap = readU16 input 2,
        ak_max_receive_sequence = input ! 4, ak_window_base = input ! 5\<rparr>)"

definition decodeAck :: "bytes \<Rightarrow> Ack option" where
  "decodeAck input = (if hasType input MT_kAck then decodeAckKnownType input else None)"

definition encodeProbe :: "Probe \<Rightarrow> bytes \<Rightarrow> bool \<times> bytes" where
  "encodeProbe p output =
     (if length output < kProbeSize then (False, output)
      else (True, span_write 0 [encodeControl MT_kProbe, pr_session_id p] output))"

definition decodeProbeKnownType :: "bytes \<Rightarrow> Probe option" where
  "decodeProbeKnownType input =
     (if length input \<noteq> kProbeSize then None else Some \<lparr>pr_session_id = input ! 1\<rparr>)"

definition decodeProbe :: "bytes \<Rightarrow> Probe option" where
  "decodeProbe input = (if hasType input MT_kProbe then decodeProbeKnownType input else None)"

definition encodeReject :: "Reject \<Rightarrow> bytes \<Rightarrow> bool \<times> bytes" where
  "encodeReject r output =
     (if length output < kRejectSize then (False, output)
      else (True, span_write 0
        [encodeControl MT_kReject, rj_session_id r, RejectReason_value (rj_reason r)] output))"

definition decodeRejectKnownType :: "bytes \<Rightarrow> Reject option" where
  "decodeRejectKnownType input =
     (if length input \<noteq> kRejectSize \<or> RejectReason_value RJ_kInternalError < input ! 2 then None
      else Some \<lparr>rj_session_id = input ! 1, rj_reason = RejectReason_of (input ! 2)\<rparr>)"

definition decodeReject :: "bytes \<Rightarrow> Reject option" where
  "decodeReject input = (if hasType input MT_kReject then decodeRejectKnownType input else None)"

definition encodeAbort :: "Abort \<Rightarrow> bytes \<Rightarrow> bool \<times> bytes" where
  "encodeAbort a output =
     (if length output < kAbortSize then (False, output)
      else (True, span_write 0 [encodeControl MT_kAbort, ab_session_id a] output))"

definition decodeAbortKnownType :: "bytes \<Rightarrow> Abort option" where
  "decodeAbortKnownType input =
     (if length input \<noteq> kAbortSize then None else Some \<lparr>ab_session_id = input ! 1\<rparr>)"

definition decodeAbort :: "bytes \<Rightarrow> Abort option" where
  "decodeAbort input = (if hasType input MT_kAbort then decodeAbortKnownType input else None)"

definition encodeUserDatagram :: "bytes \<Rightarrow> bytes \<Rightarrow> bool \<times> bytes" where
  "encodeUserDatagram payload output =
     (if length output < length payload + kUserDatagramHeaderSize then (False, output)
      else (let out1 = span_write 0 [encodeControl MT_kUserDatagram] output
            in (True, if payload \<noteq> [] then span_write kUserDatagramHeaderSize payload out1 else out1)))"

definition decodeUserDatagramKnownType :: "bytes \<Rightarrow> bytes option" where
  "decodeUserDatagramKnownType input =
     (if input = [] then None else Some (subspan_from input kUserDatagramHeaderSize))"

definition decodeUserDatagram :: "bytes \<Rightarrow> bytes option" where
  "decodeUserDatagram input =
     (if hasType input MT_kUserDatagram then decodeUserDatagramKnownType input else None)"

subsection \<open>The control byte is its type\<close>

lemma encodeControl_value [simp]: "encodeControl t = MessageType_value t"
  by (simp add: encodeControl_def kCompactProfile_def kProtocolVersion_def)

lemma MessageType_of_value [simp]: "MessageType_of (MessageType_value t) = t"
  by (cases t) (simp_all add: MessageType_of_def)

lemma MessageType_value_inject [simp]: "MessageType_value s = MessageType_value t \<longleftrightarrow> s = t"
  by (metis MessageType_of_value)

lemma word8_le_6: "v \<le> 6 \<Longrightarrow> v \<in> {0, 1, 2, 3, 4, 5, 6}" for v :: u8
proof -
  assume "v \<le> 6"
  then have "unat v \<in> {0, 1, 2, 3, 4, 5, 6}" by (auto simp: word_le_nat_alt)
  then have "of_nat (unat v) \<in> (of_nat ` {0, 1, 2, 3, 4, 5, 6} :: u8 set)" by (rule imageI)
  then show ?thesis by simp
qed

lemma MessageType_value_of: "v \<le> 6 \<Longrightarrow> MessageType_value (MessageType_of v) = v"
  using word8_le_6 [of v] by (auto simp: MessageType_of_def)

lemma RejectReason_of_value [simp]: "RejectReason_of (RejectReason_value r) = r"
  by (cases r) (simp_all add: RejectReason_of_def)

lemma RejectReason_value_of: "v \<le> 6 \<Longrightarrow> RejectReason_value (RejectReason_of v) = v"
  using word8_le_6 [of v] by (auto simp: RejectReason_of_def)

lemma RejectReason_value_le [simp]: "RejectReason_value r \<le> 6"
  by (cases r) simp_all

lemma control_low_nibble:
  fixes b :: u8
  assumes "drop_bit 7 (b AND 0x80) = 0" and "drop_bit 4 (b AND 0x70) = 0"
  shows "b AND 0x0F = b"
proof (rule word8_eqI)
  have "\<not> bit (drop_bit 7 (b AND 0x80)) 0" "\<And>n. \<not> bit (drop_bit 4 (b AND 0x70)) n"
    using assms by simp_all
  from this(1) this(2) [of 0] this(2) [of 1] this(2) [of 2]
  show "bit (b AND 0x0F) 4 = bit b 4" "bit (b AND 0x0F) 5 = bit b 5"
    "bit (b AND 0x0F) 6 = bit b 6" "bit (b AND 0x0F) 7 = bit b 7"
    by (simp_all add: bit_simps)
qed (simp_all add: bit_simps)

lemma decodeControl_iff:
  "decodeControl b = Some c \<longleftrightarrow>
     (\<exists>t. b = MessageType_value t \<and> c = \<lparr>ct_version = 0, ct_profile = 0, ct_type = t\<rparr>)"
proof
  assume d: "decodeControl b = Some c"
  then have z: "drop_bit 7 (b AND 0x80) = 0" "drop_bit 4 (b AND 0x70) = 0" "b AND 0x0F \<le> 6"
    and c: "c = \<lparr>ct_version = 0, ct_profile = 0, ct_type = MessageType_of (b AND 0x0F)\<rparr>"
    by (auto simp: decodeControl_def kCompactProfile_def kProtocolVersion_def Let_def split: if_splits)
  then show "\<exists>t. b = MessageType_value t \<and> c = \<lparr>ct_version = 0, ct_profile = 0, ct_type = t\<rparr>"
    using control_low_nibble [OF z(1,2)] MessageType_value_of by metis
next
  assume "\<exists>t. b = MessageType_value t \<and> c = \<lparr>ct_version = 0, ct_profile = 0, ct_type = t\<rparr>"
  then obtain t where "b = MessageType_value t" "c = \<lparr>ct_version = 0, ct_profile = 0, ct_type = t\<rparr>" by blast
  then show "decodeControl b = Some c"
    by (cases t) (simp_all add: decodeControl_def kCompactProfile_def kProtocolVersion_def MessageType_of_def)
qed

lemma decodeControl_value [simp]:
  "decodeControl (MessageType_value t) = Some \<lparr>ct_version = 0, ct_profile = 0, ct_type = t\<rparr>"
  by (auto simp: decodeControl_iff)

lemma hasType_iff: "hasType input t \<longleftrightarrow> (\<exists>rest. input = MessageType_value t # rest)"
proof (cases input)
  case (Cons b rest)
  then show ?thesis
    by (auto simp: hasType_def decodeControl_iff split: option.splits)
qed (simp add: hasType_def)

subsection \<open>Every decoder inverts its encoder, and accepts nothing else\<close>

text \<open>The wire image of each message.\<close>

definition setup_wire :: "Setup \<Rightarrow> bytes" where
  "setup_wire s = [0, su_session_id s, su_initial_sequence_number s, 0]
     @ writeU16 (su_final_segment_index s) @ writeU16 (su_segment_size s)
     @ writeU16 (su_final_segment_size s)"

definition segment_wire :: "SegmentHeader \<Rightarrow> bytes" where
  "segment_wire h = [1, sh_session_id h] @ writeU16 (sh_segment_index h)"

definition ack_wire :: "Ack \<Rightarrow> bytes" where
  "ack_wire a = [2, ak_session_id a] @ writeU16 (ak_window_bitmap a)
     @ [ak_max_receive_sequence a, ak_window_base a]"

definition probe_wire :: "Probe \<Rightarrow> bytes" where
  "probe_wire p = [3, pr_session_id p]"

definition reject_wire :: "Reject \<Rightarrow> bytes" where
  "reject_wire r = [4, rj_session_id r, RejectReason_value (rj_reason r)]"

definition abort_wire :: "Abort \<Rightarrow> bytes" where
  "abort_wire a = [6, ab_session_id a]"

lemmas wire_defs = setup_wire_def segment_wire_def ack_wire_def probe_wire_def reject_wire_def
  abort_wire_def writeU16_def

lemma length_wires [simp]:
  "length (setup_wire s) = 10" "length (segment_wire h) = 4" "length (ack_wire a) = 6"
  "length (probe_wire p) = 2" "length (reject_wire r) = 3" "length (abort_wire b) = 2"
  by (simp_all add: wire_defs)

lemma encode_wires:
  "encodeSetup s out = (if length out < 10 then (False, out) else (True, span_write 0 (setup_wire s) out))"
  "encodeSegmentHeader h out =
     (if length out < 4 then (False, out) else (True, span_write 0 (segment_wire h) out))"
  "encodeAck a out = (if length out < 6 then (False, out) else (True, span_write 0 (ack_wire a) out))"
  "encodeProbe p out = (if length out < 2 then (False, out) else (True, span_write 0 (probe_wire p) out))"
  "encodeReject r out = (if length out < 3 then (False, out) else (True, span_write 0 (reject_wire r) out))"
  "encodeAbort b out = (if length out < 2 then (False, out) else (True, span_write 0 (abort_wire b) out))"
  by (simp_all add: encodeSetup_def encodeSegmentHeader_def encodeAck_def encodeProbe_def
      encodeReject_def encodeAbort_def bits_sizes wire_defs)

lemma encodeUserDatagram_wire:
  "encodeUserDatagram payload out =
     (if length out < length payload + 1 then (False, out)
      else (True, span_write 0 (5 # payload) out))"
  using span_write_append [of 0 "[5]" payload out]
  by (cases payload) (auto simp: encodeUserDatagram_def bits_sizes Let_def)

text \<open>A list of known length is spelled out by its elements.\<close>

lemma list_len2: "length xs = 2 \<longleftrightarrow> xs = [xs ! 0, xs ! 1]"
  by (auto simp: length_Suc_conv numeral_2_eq_2)

lemma list_len3: "length xs = 3 \<Longrightarrow> xs = [xs ! 0, xs ! 1, xs ! 2]"
  by (auto simp: length_Suc_conv numeral_3_eq_3 numeral_2_eq_2)

lemma list_len6: "length xs = 6 \<Longrightarrow> xs = [xs ! 0, xs ! 1, xs ! 2, xs ! 3, xs ! 4, xs ! 5]"
  by (auto simp: length_Suc_conv eval_nat_numeral)

lemma list_len10:
  "length xs = 10 \<Longrightarrow> xs = [xs ! 0, xs ! 1, xs ! 2, xs ! 3, xs ! 4, xs ! 5, xs ! 6, xs ! 7, xs ! 8, xs ! 9]"
  by (auto simp: length_Suc_conv eval_nat_numeral)

lemma decodeSetup_iff: "decodeSetup input = Some s \<longleftrightarrow> input = setup_wire s"
proof
  assume d: "decodeSetup input = Some s"
  then have "length input = 10" "input ! 3 = 0" "hasType input MT_kSetup"
    and s: "s = \<lparr>su_session_id = input ! 1, su_initial_sequence_number = input ! 2,
        su_final_segment_index = readU16 input 4, su_segment_size = readU16 input 6,
        su_final_segment_size = readU16 input 8\<rparr>"
    by (auto simp: decodeSetup_def decodeSetupKnownType_def bits_sizes split: if_splits)
  then have "input = [0, input ! 1, input ! 2, 0, input ! 4, input ! 5, input ! 6, input ! 7, input ! 8, input ! 9]"
    using list_len10 [of input] by (auto simp: hasType_iff)
  then show "input = setup_wire s" using s by (simp add: wire_defs readU16_def)
next
  assume "input = setup_wire s"
  then show "decodeSetup input = Some s"
    by (simp add: decodeSetup_def decodeSetupKnownType_def hasType_iff wire_defs readU16_def bits_sizes)
qed

lemma decodeAck_iff: "decodeAck input = Some a \<longleftrightarrow> input = ack_wire a"
proof
  assume d: "decodeAck input = Some a"
  then have "length input = 6" "hasType input MT_kAck"
    and a: "a = \<lparr>ak_session_id = input ! 1, ak_window_bitmap = readU16 input 2,
        ak_max_receive_sequence = input ! 4, ak_window_base = input ! 5\<rparr>"
    by (auto simp: decodeAck_def decodeAckKnownType_def bits_sizes split: if_splits)
  then have "input = [2, input ! 1, input ! 2, input ! 3, input ! 4, input ! 5]"
    using list_len6 [of input] by (auto simp: hasType_iff)
  then show "input = ack_wire a" using a by (simp add: wire_defs readU16_def)
next
  assume "input = ack_wire a"
  then show "decodeAck input = Some a"
    by (simp add: decodeAck_def decodeAckKnownType_def hasType_iff wire_defs readU16_def bits_sizes)
qed

lemma decodeSegmentHeader_iff:
  "decodeSegmentHeader input = Some h \<longleftrightarrow> (\<exists>rest. input = segment_wire h @ rest)"
proof
  assume d: "decodeSegmentHeader input = Some h"
  then have len: "\<not> length input < 4" and t: "hasType input MT_kSegment"
    and h: "h = \<lparr>sh_session_id = input ! 1, sh_segment_index = readU16 input 2\<rparr>"
    by (auto simp: decodeSegmentHeader_def decodeSegmentHeaderKnownType_def bits_sizes split: if_splits)
  from t obtain r where r: "input = 1 # r" by (auto simp: hasType_iff)
  with len obtain x y z rest where "input = [1, x, y, z] @ rest"
    by (auto simp: length_Suc_conv eval_nat_numeral not_less Suc_le_length_iff)
  then show "\<exists>rest. input = segment_wire h @ rest" using h by (auto simp: wire_defs readU16_def)
next
  assume "\<exists>rest. input = segment_wire h @ rest"
  then show "decodeSegmentHeader input = Some h"
    by (auto simp: decodeSegmentHeader_def decodeSegmentHeaderKnownType_def hasType_iff wire_defs
        readU16_def bits_sizes)
qed

lemma decodeProbe_iff: "decodeProbe input = Some p \<longleftrightarrow> input = probe_wire p"
  using list_len2 [of input]
  by (auto simp: decodeProbe_def decodeProbeKnownType_def hasType_iff wire_defs bits_sizes)

lemma decodeAbort_iff: "decodeAbort input = Some a \<longleftrightarrow> input = abort_wire a"
  using list_len2 [of input]
  by (auto simp: decodeAbort_def decodeAbortKnownType_def hasType_iff wire_defs bits_sizes)

lemma decodeReject_iff: "decodeReject input = Some r \<longleftrightarrow> input = reject_wire r"
proof
  assume d: "decodeReject input = Some r"
  then have "length input = 3" "input ! 2 \<le> 6" "hasType input MT_kReject"
    and r: "r = \<lparr>rj_session_id = input ! 1, rj_reason = RejectReason_of (input ! 2)\<rparr>"
    by (auto simp: decodeReject_def decodeRejectKnownType_def bits_sizes split: if_splits)
  then have "input = [4, input ! 1, input ! 2]" "RejectReason_value (RejectReason_of (input ! 2)) = input ! 2"
    using list_len3 [of input] by (auto simp: hasType_iff RejectReason_value_of)
  then show "input = reject_wire r" using r by (simp add: wire_defs)
next
  assume "input = reject_wire r"
  then show "decodeReject input = Some r"
    by (simp add: decodeReject_def decodeRejectKnownType_def hasType_iff wire_defs bits_sizes leD)
qed

lemma decodeUserDatagram_iff: "decodeUserDatagram input = Some payload \<longleftrightarrow> input = 5 # payload"
  by (auto simp: decodeUserDatagram_def decodeUserDatagramKnownType_def hasType_iff
      subspan_from_def bits_sizes)

subsection \<open>Geometry\<close>

lemma unat_setupSegmentCount: "unat (setupSegmentCount s) = unat (su_final_segment_index s) + 1"
proof -
  have "unat (su_final_segment_index s) < 2 ^ 16" using unat_u16_le [of "su_final_segment_index s"] by simp
  then show ?thesis by (simp add: setupSegmentCount_def unat_word_ariths unat_ucast_up)
qed

text \<open>The object size never wraps: \<open>65535 * 65535 + 65535 < 2 ^ 32\<close>.\<close>

lemma unat_setupTotalSize:
  "unat (setupTotalSize s) =
     unat (su_final_segment_index s) * unat (su_segment_size s) + unat (su_final_segment_size s)"
proof -
  let ?a = "unat (su_final_segment_index s)" and ?b = "unat (su_segment_size s)"
    and ?c = "unat (su_final_segment_size s)"
  have "?a \<le> 65535" "?b \<le> 65535" "?c \<le> 65535"
    by (rule unat_u16_le)+
  then have "?a * ?b + ?c \<le> 65535 * 65535 + 65535" by (intro add_mono mult_mono) auto
  then show ?thesis
    by (simp add: setupTotalSize_def unat_word_ariths unat_ucast_up mod_simps)
qed

end
