(* ===== verification/Bits_Engine.thy ===== *)
theory Bits_Engine
  imports Bits_Codec
begin

section \<open>Synchronous BITS receiver engine\<close>

text \<open>
  \<^verbatim>\<open>transports/bits/receiver_engine.h\<close> and \<^verbatim>\<open>receiver_engine.cpp\<close>.  The two virtual
  interfaces \<^verbatim>\<open>ReceiverCallbacks\<close> and \<^verbatim>\<open>ReceiverPduSender\<close> are a record of functions on
  the memory \<open>'w\<close> they act on.  Writing through the span that \<^verbatim>\<open>prepare\<close> returned is the
  function \<open>ee_store\<close>.  The build-time limit
  \<^verbatim>\<open>WIRESPACES_BITS_RECEIVER_MAX_WINDOW_WIDTH\<close> is the field \<open>ee_max_window\<close>, and each
  preprocessor conditional of the source is a conditional on it; the state record has the
  fields of both builds.
\<close>

subsection \<open>Data\<close>

datatype ProcessResult = PR_kIdle | PR_kProgress | PR_kError | PR_kBlocked

datatype TransferState = TS_kIdle | TS_kStarting | TS_kActive | TS_kCompleted | TS_kRejected
  | TS_kAborted | TS_kError

datatype SendResult = SR_kSent | SR_kTooLarge | SR_kNoRoute | SR_kInvalidState | SR_kFull
  | SR_kRejected | SR_kPartial

record TransferInfo =
  ti_session_id :: u8
  ti_total_size :: u32
  ti_segment_size :: u16

datatype TransferAdmission = TA_kAccepted | TA_kBusy | TA_kTooLarge | TA_kRejected
datatype FailureReason = FR_kSinkRejected | FR_kSendFailed | FR_kInactivityTimeout
datatype AbortReason = AR_kLocal | AR_kPeer

record 'w EngineEnv =
  ee_max_window :: nat
  ee_beginTransfer :: "TransferInfo \<Rightarrow> 'w \<Rightarrow> TransferAdmission \<times> 'w"
  ee_onTransferFailed :: "FailureReason \<Rightarrow> 'w \<Rightarrow> 'w"
  ee_onSegment :: "u32 \<Rightarrow> bytes \<Rightarrow> 'w \<Rightarrow> bool \<times> 'w"
  ee_onDatagram :: "bytes \<Rightarrow> 'w \<Rightarrow> 'w"
  ee_onTransferComplete :: "'w \<Rightarrow> 'w"
  ee_onTransferAborted :: "AbortReason \<Rightarrow> 'w \<Rightarrow> 'w"
  ee_prepare :: "u16 \<Rightarrow> 'w \<Rightarrow> bytes \<times> 'w"
  ee_store :: "bytes \<Rightarrow> 'w \<Rightarrow> 'w"
  ee_sendPrepared :: "'w \<Rightarrow> SendResult \<times> 'w"

record ReceiverEngineConfig =
  ec_maximum_segment_size :: u16
  ec_receive_window_width :: u8
  ec_maximum_object_size :: u32
  ec_inactivity_timeout_ms :: u32

record BitsReceiverEngine =
  re_config :: ReceiverEngineConfig
  re_state :: TransferState
  re_setup :: Setup
  re_last_send :: SendResult
  re_last_activity_ms :: u32
  re_segment_count :: u32
  re_contiguous_count :: u32
  re_next_object_offset :: u32
  re_granted_end :: u32
  re_receive_bitmap :: u16

definition BitsReceiverEngine_init :: "nat \<Rightarrow> ReceiverEngineConfig \<Rightarrow> BitsReceiverEngine" where
  "BitsReceiverEngine_init max_window config =
     \<lparr>re_config = (if max_window < unat (ec_receive_window_width config)
                   then config\<lparr>ec_receive_window_width := of_nat max_window\<rparr> else config),
      re_state = TS_kIdle, re_setup = Setup_zero, re_last_send = SR_kSent, re_last_activity_ms = 0,
      re_segment_count = 0, re_contiguous_count = 0, re_next_object_offset = 0, re_granted_end = 0,
      re_receive_bitmap = 0\<rparr>"

subsection \<open>Helpers\<close>

definition sequenceFor :: "Setup \<Rightarrow> u32 \<Rightarrow> u8" where
  "sequenceFor s segment_index = su_initial_sequence_number s + ucast segment_index"

definition baseSequence :: "Setup \<Rightarrow> u32 \<Rightarrow> u8" where
  "baseSequence s contiguous_count =
     (if contiguous_count = 0 then su_initial_sequence_number s - 1
      else sequenceFor s (contiguous_count - 1))"

definition setupMatches :: "Setup \<Rightarrow> Setup \<Rightarrow> bool" where
  "setupMatches lhs rhs =
     (su_session_id lhs = su_session_id rhs
      \<and> su_initial_sequence_number lhs = su_initial_sequence_number rhs
      \<and> su_final_segment_index lhs = su_final_segment_index rhs
      \<and> su_segment_size lhs = su_segment_size rhs
      \<and> su_final_segment_size lhs = su_final_segment_size rhs)"

lemma word_and_pred_less:
  fixes v :: "'a::len word"
  assumes "v \<noteq> 0"
  shows "v AND (v - 1) < v"
proof -
  have "unat v \<noteq> 0" using assms by (simp add: unat_eq_0)
  then have "v - 1 < v" by (simp add: word_less_nat_alt unat_sub_le)
  then show ?thesis using word_and_le1 [of v "v - 1"] by (rule le_less_trans [rotated])
qed

function popcount16_loop :: "u16 \<Rightarrow> u8 \<Rightarrow> u8" where
  "popcount16_loop v count = (if v \<noteq> 0 then popcount16_loop (v AND (v - 1)) (count + 1) else count)"
  by pat_completeness auto
termination
  by (relation "measure (\<lambda>(v, _). unat v)") (auto simp: word_and_pred_less simp flip: word_less_nat_alt)

declare popcount16_loop.simps [simp del]

definition popcount16 :: "u16 \<Rightarrow> u8" where
  "popcount16 v = popcount16_loop v 0"

definition lowBitMask :: "u8 \<Rightarrow> u16" where
  "lowBitMask count =
     (if kCompactWindowWidth \<le> unat count then 0xFFFF
      else if count = 0 then 0 else ucast (push_bit (unat count) (1 :: u32) - 1))"

subsection \<open>Sending\<close>

definition engine_fail ::
  "'w EngineEnv \<Rightarrow> FailureReason \<Rightarrow> BitsReceiverEngine \<Rightarrow> 'w \<Rightarrow> BitsReceiverEngine \<times> 'w" where
  "engine_fail env reason e w =
     (if re_state e = TS_kActive
      then (e\<lparr>re_state := TS_kError\<rparr>, ee_onTransferFailed env reason w) else (e, w))"

definition engine_sendPrepared ::
  "'w EngineEnv \<Rightarrow> BitsReceiverEngine \<Rightarrow> 'w \<Rightarrow> bool \<times> BitsReceiverEngine \<times> 'w" where
  "engine_sendPrepared env e w =
     (case ee_sendPrepared env w of (r, w1) \<Rightarrow>
        (r = SR_kSent \<or> r = SR_kFull, e\<lparr>re_last_send := r\<rparr>, w1))"

definition engine_window_base :: "nat \<Rightarrow> BitsReceiverEngine \<Rightarrow> u8" where
  "engine_window_base max_window e =
     (if max_window = 1
      then su_initial_sequence_number (re_setup e) + ucast (re_contiguous_count e) - 1
      else baseSequence (re_setup e) (re_contiguous_count e))"

definition engine_max_receive_sequence :: "nat \<Rightarrow> BitsReceiverEngine \<Rightarrow> u8" where
  "engine_max_receive_sequence max_window e =
     (if max_window = 1
      then if re_contiguous_count e < re_segment_count e then engine_window_base max_window e + 1
           else engine_window_base max_window e
      else if re_contiguous_count e < re_granted_end e
           then sequenceFor (re_setup e) (re_granted_end e - 1)
           else engine_window_base max_window e)"

text \<open>
  The bytes of an ACK written into the prepared storage: byte by byte in the width-one
  build, through \<^verbatim>\<open>encodeAck\<close> otherwise.
\<close>

definition engine_ack_storage :: "nat \<Rightarrow> BitsReceiverEngine \<Rightarrow> bytes \<Rightarrow> bool \<times> bytes" where
  "engine_ack_storage max_window e storage =
     (let window_base = engine_window_base max_window e;
          max_receive_sequence = engine_max_receive_sequence max_window e
      in if max_window = 1
         then (True, storage[0 := encodeControl MT_kAck, 1 := su_session_id (re_setup e), 2 := 0,
                 3 := 0, 4 := max_receive_sequence, 5 := window_base])
         else (let window_span = ucast (re_granted_end e - re_contiguous_count e)
               in encodeAck \<lparr>ak_session_id = su_session_id (re_setup e),
                    ak_window_bitmap = re_receive_bitmap e AND lowBitMask window_span,
                    ak_max_receive_sequence = max_receive_sequence, ak_window_base = window_base\<rparr>
                    storage))"

definition engine_sendAck ::
  "'w EngineEnv \<Rightarrow> BitsReceiverEngine \<Rightarrow> 'w \<Rightarrow> bool \<times> BitsReceiverEngine \<times> 'w" where
  "engine_sendAck env e w =
     (case ee_prepare env (of_nat kAckSize) w of (storage, w1) \<Rightarrow>
        if length storage \<noteq> kAckSize
        then (False, engine_fail env FR_kSendFailed (e\<lparr>re_last_send := SR_kTooLarge\<rparr>) w1)
        else (case engine_ack_storage (ee_max_window env) e storage of (ok, storage1) \<Rightarrow>
          let w2 = ee_store env storage1 w1
          in if \<not> ok
             then (False, engine_fail env FR_kSendFailed (e\<lparr>re_last_send := SR_kTooLarge\<rparr>) w2)
             else (case engine_sendPrepared env e w2 of (sent, e3, w3) \<Rightarrow>
               (sent, if sent then (e3, w3) else engine_fail env FR_kSendFailed e3 w3))))"

definition engine_sendReject ::
  "'w EngineEnv \<Rightarrow> u8 \<Rightarrow> RejectReason \<Rightarrow> BitsReceiverEngine \<Rightarrow> 'w
    \<Rightarrow> bool \<times> BitsReceiverEngine \<times> 'w" where
  "engine_sendReject env session_id reason e w =
     (case ee_prepare env (of_nat kRejectSize) w of (storage, w1) \<Rightarrow>
        let e1 = e\<lparr>re_last_send := SR_kTooLarge\<rparr>
        in if length storage \<noteq> kRejectSize then (False, e1, w1)
           else (case encodeReject \<lparr>rj_session_id = session_id, rj_reason = reason\<rparr> storage of
             (ok, storage1) \<Rightarrow>
               let w2 = ee_store env storage1 w1
               in if \<not> ok then (False, e1, w2) else engine_sendPrepared env e1 w2))"

definition engine_sendAbort ::
  "'w EngineEnv \<Rightarrow> BitsReceiverEngine \<Rightarrow> 'w \<Rightarrow> bool \<times> BitsReceiverEngine \<times> 'w" where
  "engine_sendAbort env e w =
     (case ee_prepare env (of_nat kAbortSize) w of (storage, w1) \<Rightarrow>
        let e1 = e\<lparr>re_last_send := SR_kTooLarge\<rparr>
        in if length storage \<noteq> kAbortSize then (False, e1, w1)
           else (case encodeAbort \<lparr>ab_session_id = su_session_id (re_setup e)\<rparr> storage of
             (ok, storage1) \<Rightarrow>
               let w2 = ee_store env storage1 w1
               in if \<not> ok then (False, e1, w2) else engine_sendPrepared env e1 w2))"

subsection \<open>Window\<close>

text \<open>The two loops that advance the window: draining the bitmap and extending the grant.\<close>

lemma shift_right_less:
  fixes b :: "'a::len word"
  assumes "b AND 1 \<noteq> 0"
  shows "unat (drop_bit 1 b) < unat b"
proof -
  have "b \<noteq> 0" using assms by auto
  then have "0 < unat b" by (simp add: unat_gt_0)
  moreover have "unat (drop_bit 1 b) = drop_bit 1 (unat b)"
    unfolding unsigned_drop_bit_eq by (simp add: take_bit_nat_eq_self)
  ultimately show ?thesis by (simp add: drop_bit_Suc)
qed

function engine_drain :: "u16 \<Rightarrow> u32 \<Rightarrow> u16 \<times> u32" where
  "engine_drain bitmap contiguous =
     (if bitmap AND 1 \<noteq> 0 then engine_drain (drop_bit 1 bitmap) (contiguous + 1)
      else (bitmap, contiguous))"
  by pat_completeness auto
termination
  by (relation "measure (\<lambda>(b, _). unat b)")
    (rule wf_measure, simp only: in_measure split_conv, erule shift_right_less)

declare engine_drain.simps [simp del]

function engine_grant_loop :: "u8 \<Rightarrow> u32 \<Rightarrow> u32 \<Rightarrow> u32 \<Rightarrow> u8 \<Rightarrow> u32" where
  "engine_grant_loop width segment_count granted_end window_span unreceived =
     (if granted_end < segment_count \<and> window_span < ucast width \<and> unreceived < width
      then engine_grant_loop width segment_count (granted_end + 1) (window_span + 1) (unreceived + 1)
      else granted_end)"
  by pat_completeness auto
termination
  by (relation "measure (\<lambda>(_, n, g, _, _). unat n - unat g)")
    (auto simp: word_less_nat_alt unat_Suc_less)

declare engine_grant_loop.simps [simp del]

definition updateGrant :: "nat \<Rightarrow> BitsReceiverEngine \<Rightarrow> BitsReceiverEngine" where
  "updateGrant max_window e =
     (if max_window = 1
      then e\<lparr>re_granted_end := (if re_contiguous_count e < re_segment_count e
                               then re_contiguous_count e + 1 else re_contiguous_count e)\<rparr>
      else (let window_span = re_granted_end e - re_contiguous_count e;
                unreceived = ucast (window_span - ucast (popcount16
                  (re_receive_bitmap e AND lowBitMask (ucast window_span))))
            in e\<lparr>re_granted_end := engine_grant_loop (ec_receive_window_width (re_config e))
                  (re_segment_count e) (re_granted_end e) window_span unreceived\<rparr>))"

subsection \<open>Message handlers\<close>

definition engine_poll ::
  "'w EngineEnv \<Rightarrow> u32 \<Rightarrow> BitsReceiverEngine \<Rightarrow> 'w \<Rightarrow> ProcessResult \<times> BitsReceiverEngine \<times> 'w" where
  "engine_poll env now_ms e w =
     (if re_state e \<noteq> TS_kActive \<or> ec_inactivity_timeout_ms (re_config e) = 0
         \<or> now_ms - re_last_activity_ms e < ec_inactivity_timeout_ms (re_config e)
      then (PR_kIdle, e, w)
      else (PR_kError, engine_fail env FR_kInactivityTimeout e w))"

text \<open>
  The part of \<^verbatim>\<open>handleSegment\<close> after the sink accepted the bytes: the window bookkeeping
  (lines 170 to 180), then completion and the ACK (lines 182 to 190).
\<close>

definition engine_advance :: "nat \<Rightarrow> u16 \<Rightarrow> bytes \<Rightarrow> BitsReceiverEngine \<Rightarrow> BitsReceiverEngine" where
  "engine_advance max_window segment_bit segment_payload e =
     updateGrant max_window
       (if max_window = 1
        then e\<lparr>re_contiguous_count := re_contiguous_count e + 1,
               re_next_object_offset := re_next_object_offset e + of_nat (length segment_payload)\<rparr>
        else (case engine_drain (re_receive_bitmap e OR segment_bit) (re_contiguous_count e) of
          (bitmap, contiguous) \<Rightarrow>
            e\<lparr>re_receive_bitmap := bitmap, re_contiguous_count := contiguous\<rparr>))"

definition engine_accept_segment ::
  "'w EngineEnv \<Rightarrow> u16 \<Rightarrow> bytes \<Rightarrow> BitsReceiverEngine \<Rightarrow> 'w \<Rightarrow> bool \<times> BitsReceiverEngine \<times> 'w" where
  "engine_accept_segment env segment_bit segment_payload e w =
     (let e1 = engine_advance (ee_max_window env) segment_bit segment_payload e
      in if re_contiguous_count e1 = re_segment_count e1
         then engine_sendAck env (e1\<lparr>re_state := TS_kCompleted\<rparr>) (ee_onTransferComplete env w)
         else engine_sendAck env e1 w)"

text \<open>Whether the segment is already held or outside the window: answered with an ACK only.\<close>

definition engine_segment_ack_only :: "nat \<Rightarrow> u32 \<Rightarrow> BitsReceiverEngine \<Rightarrow> bool" where
  "engine_segment_ack_only max_window index e =
     (index < re_contiguous_count e
      \<or> re_state e = TS_kCompleted \<or> re_granted_end e \<le> index
      \<or> (if max_window = 1 then index \<noteq> re_contiguous_count e
         else (let window_offset = index - re_contiguous_count e
               in ucast (ec_receive_window_width (re_config e)) \<le> window_offset
                  \<or> re_receive_bitmap e AND push_bit (unat window_offset) 1 \<noteq> 0)))"

definition handleSegment ::
  "'w EngineEnv \<Rightarrow> bytes \<Rightarrow> u32 \<Rightarrow> BitsReceiverEngine \<Rightarrow> 'w \<Rightarrow> bool \<times> BitsReceiverEngine \<times> 'w" where
  "handleSegment env message now_ms e w =
     (case decodeSegmentHeaderKnownType message of None \<Rightarrow> (False, e, w)
      | Some header \<Rightarrow>
          let index = ucast (sh_segment_index header)
          in if (re_state e \<noteq> TS_kActive \<and> re_state e \<noteq> TS_kCompleted)
                \<or> sh_session_id header \<noteq> su_session_id (re_setup e) \<or> re_segment_count e \<le> index
             then (True, e, w)
             else (let expected_size = (if sh_segment_index header = su_final_segment_index (re_setup e)
                                        then su_final_segment_size (re_setup e)
                                        else su_segment_size (re_setup e));
                       segment_payload = subspan_from message kSegmentHeaderSize
                   in if length segment_payload \<noteq> unat expected_size then (False, e, w)
                      else (let e1 = (if index < re_granted_end e
                                      then e\<lparr>re_last_activity_ms := now_ms\<rparr> else e)
                            in if engine_segment_ack_only (ee_max_window env) index e1
                               then engine_sendAck env e1 w
                               else (let object_offset = (if ee_max_window env = 1
                                           then re_next_object_offset e1
                                           else index * ucast (su_segment_size (re_setup e1)))
                                     in case ee_onSegment env object_offset segment_payload w of
                                          (False, w1) \<Rightarrow> (False, engine_fail env FR_kSinkRejected e1 w1)
                                        | (True, w1) \<Rightarrow> engine_accept_segment env
                                            (push_bit (unat (index - re_contiguous_count e1)) 1)
                                            segment_payload e1 w1))))"

definition admission_reject :: "TransferAdmission \<Rightarrow> RejectReason" where
  "admission_reject a = (if a = TA_kBusy then RJ_kBusy
     else if a = TA_kTooLarge then RJ_kObjectTooLarge else RJ_kInvalidArgument)"

definition engine_begin :: "nat \<Rightarrow> Setup \<Rightarrow> u32 \<Rightarrow> BitsReceiverEngine \<Rightarrow> BitsReceiverEngine" where
  "engine_begin max_window requested now_ms e =
     updateGrant max_window
       (e\<lparr>re_setup := requested, re_segment_count := setupSegmentCount requested,
          re_contiguous_count := 0,
          re_next_object_offset := (if max_window = 1 then 0 else re_next_object_offset e),
          re_granted_end := 0,
          re_receive_bitmap := (if 1 < max_window then 0 else re_receive_bitmap e),
          re_state := TS_kActive, re_last_activity_ms := now_ms\<rparr>)"

definition handleSetup ::
  "'w EngineEnv \<Rightarrow> bytes \<Rightarrow> u32 \<Rightarrow> BitsReceiverEngine \<Rightarrow> 'w \<Rightarrow> bool \<times> BitsReceiverEngine \<times> 'w" where
  "handleSetup env payload now_ms e w =
     (if length payload < 2 then (False, e, w)
      else (case decodeSetupKnownType payload of
        None \<Rightarrow> engine_sendReject env (payload ! 1) RJ_kInvalidArgument e w
      | Some requested \<Rightarrow>
          if su_segment_size requested = 0 \<or> su_final_segment_size requested = 0
             \<or> su_segment_size requested < su_final_segment_size requested
          then engine_sendReject env (su_session_id requested) RJ_kInvalidArgument e w
          else if ec_maximum_object_size (re_config e) < setupTotalSize requested
          then engine_sendReject env (su_session_id requested) RJ_kObjectTooLarge e w
          else if ec_receive_window_width (re_config e) = 0
                  \<or> ec_maximum_segment_size (re_config e) < su_segment_size requested
          then engine_sendReject env (su_session_id requested) RJ_kUnsupportedSegmentSize e w
          else if re_state e = TS_kActive
          then if setupMatches (re_setup e) requested
               then engine_sendAck env (e\<lparr>re_last_activity_ms := now_ms\<rparr>) w
               else engine_sendReject env (su_session_id requested) RJ_kBusy e w
          else (case ee_beginTransfer env \<lparr>ti_session_id = su_session_id requested,
                  ti_total_size = setupTotalSize requested,
                  ti_segment_size = su_segment_size requested\<rparr> w of
                  (admission, w1) \<Rightarrow>
                    if admission \<noteq> TA_kAccepted
                    then engine_sendReject env (su_session_id requested) (admission_reject admission) e w1
                    else engine_sendAck env (engine_begin (ee_max_window env) requested now_ms e) w1)))"

definition handleAbort ::
  "'w EngineEnv \<Rightarrow> bytes \<Rightarrow> BitsReceiverEngine \<Rightarrow> 'w \<Rightarrow> bool \<times> BitsReceiverEngine \<times> 'w" where
  "handleAbort env payload e w =
     (case decodeAbortKnownType payload of None \<Rightarrow> (False, e, w)
      | Some abort_message \<Rightarrow>
          if re_state e \<noteq> TS_kActive \<or> ab_session_id abort_message \<noteq> su_session_id (re_setup e)
          then (True, e, w)
          else (True, e\<lparr>re_state := TS_kAborted\<rparr>, ee_onTransferAborted env AR_kPeer w))"

definition handleProbe ::
  "'w EngineEnv \<Rightarrow> bytes \<Rightarrow> u32 \<Rightarrow> BitsReceiverEngine \<Rightarrow> 'w \<Rightarrow> bool \<times> BitsReceiverEngine \<times> 'w" where
  "handleProbe env message now_ms e w =
     (case decodeProbeKnownType message of None \<Rightarrow> (False, e, w)
      | Some probe \<Rightarrow>
          if (re_state e \<noteq> TS_kActive \<and> re_state e \<noteq> TS_kCompleted)
             \<or> pr_session_id probe \<noteq> su_session_id (re_setup e)
          then (True, e, w)
          else engine_sendAck env (e\<lparr>re_last_activity_ms := now_ms\<rparr>) w)"

fun handleControl ::
  "'w EngineEnv \<Rightarrow> bytes \<Rightarrow> MessageType \<Rightarrow> u32 \<Rightarrow> BitsReceiverEngine \<Rightarrow> 'w
    \<Rightarrow> bool \<times> BitsReceiverEngine \<times> 'w" where
  "handleControl env message MT_kSetup now_ms e w = handleSetup env message now_ms e w"
| "handleControl env message MT_kProbe now_ms e w = handleProbe env message now_ms e w"
| "handleControl env message MT_kUserDatagram now_ms e w =
     (case decodeUserDatagramKnownType message of None \<Rightarrow> (False, e, w)
      | Some payload \<Rightarrow> (True, e, ee_onDatagram env payload w))"
| "handleControl env message MT_kAbort now_ms e w = handleAbort env message e w"
| "handleControl env message MT_kSegment now_ms e w = (False, e, w)"
| "handleControl env message MT_kAck now_ms e w = (False, e, w)"
| "handleControl env message MT_kReject now_ms e w = (False, e, w)"

definition engine_handle ::
  "'w EngineEnv \<Rightarrow> bytes \<Rightarrow> MessageType \<Rightarrow> u32 \<Rightarrow> BitsReceiverEngine \<Rightarrow> 'w
    \<Rightarrow> bool \<times> BitsReceiverEngine \<times> 'w" where
  "engine_handle env message t now_ms e w =
     (if t = MT_kSegment then handleSegment env message now_ms e w
      else handleControl env message t now_ms e w)"

definition engine_process ::
  "'w EngineEnv \<Rightarrow> bytes \<Rightarrow> u32 \<Rightarrow> BitsReceiverEngine \<Rightarrow> 'w
    \<Rightarrow> ProcessResult \<times> BitsReceiverEngine \<times> 'w" where
  "engine_process env message now_ms e w =
     (case engine_poll env now_ms e w of (polled, e0, w0) \<Rightarrow>
        if polled = PR_kError then (PR_kError, e0, w0)
        else (let e1 = e0\<lparr>re_last_send := SR_kSent\<rparr>
              in if message = [] then (PR_kError, e1, w0)
                 else (case decodeControl (message ! 0) of None \<Rightarrow> (PR_kError, e1, w0)
                   | Some control \<Rightarrow>
                       (case engine_handle env message (ct_type control) now_ms e1 w0 of
                          (handled, e2, w2) \<Rightarrow>
                            (if \<not> handled then PR_kError
                             else if re_last_send e2 = SR_kFull then PR_kBlocked else PR_kProgress,
                             e2, w2)))))"

definition engine_sendDatagram ::
  "'w EngineEnv \<Rightarrow> bytes \<Rightarrow> 'w \<Rightarrow> SendResult \<times> 'w" where
  "engine_sendDatagram env payload w =
     (if 65535 - kUserDatagramHeaderSize < length payload then (SR_kTooLarge, w)
      else (let message_size = of_nat (length payload + kUserDatagramHeaderSize)
            in case ee_prepare env message_size w of (storage, w1) \<Rightarrow>
                 if length storage \<noteq> unat message_size then (SR_kTooLarge, w1)
                 else (case encodeUserDatagram payload storage of (ok, storage1) \<Rightarrow>
                   let w2 = ee_store env storage1 w1
                   in if \<not> ok then (SR_kTooLarge, w2) else ee_sendPrepared env w2)))"

definition engine_abort ::
  "'w EngineEnv \<Rightarrow> BitsReceiverEngine \<Rightarrow> 'w \<Rightarrow> SendResult \<times> BitsReceiverEngine \<times> 'w" where
  "engine_abort env e w =
     (if re_state e \<noteq> TS_kActive then (SR_kInvalidState, e, w)
      else (case engine_sendAbort env e w of (sent, e1, w1) \<Rightarrow>
        (re_last_send e1, e1\<lparr>re_state := TS_kAborted\<rparr>, ee_onTransferAborted env AR_kLocal w1)))"

end
