(* ===== verification/Bits_Invariant.thy ===== *)
theory Bits_Invariant
  imports Bits_Engine
begin

section \<open>The receive window of the BITS engine\<close>

text \<open>
  The window helpers of the engine compared with what they compute (population count, low
  bit mask, drained prefix, extended grant), the invariant of the engine state, and the set
  of segments the state records as received.
\<close>

subsection \<open>Population count\<close>

lemma bit_set_finite [simp]: "finite {n. bit v n}" for v :: "'a::len word"
  by (rule finite_subset [of _ "{..<LENGTH('a)}"]) (auto dest: bit_imp_le_length)

lemma clear_lowest_bit:
  fixes v :: "'a::len word"
  assumes "v \<noteq> 0"
  shows "\<exists>k. bit v k \<and> {n. bit (v AND (v - 1)) n} = {n. bit v n} - {k}"
proof -
  define k where "k = (LEAST n. bit v n)"
  have "\<exists>n. bit v n" using assms bit_word_eqI [of v 0] by auto
  then have k: "bit v k" "\<And>n. n < k \<Longrightarrow> \<not> bit v n"
    unfolding k_def using not_less_Least by (auto intro: LeastI_ex)
  have kl: "k < LENGTH('a)" using k(1) by (rule bit_imp_le_length)
  define u where "u = v AND NOT (2 ^ k)"
  have u: "bit u n \<longleftrightarrow> bit v n \<and> n \<noteq> k" for n
    by (auto simp: u_def bit_simps dest: bit_imp_le_length)
  have "v = u OR 2 ^ k" using k kl by (intro bit_word_eqI) (auto simp: u bit_simps)
  also have "\<dots> = u + 2 ^ k"
    by (intro disjunctive_add_eq_or [symmetric] bit_word_eqI) (auto simp: u bit_simps)
  finally have "v - 1 = u + mask k" by (simp add: mask_eq_exp_minus_1)
  also have "\<dots> = u OR mask k"
    using k by (intro disjunctive_add_eq_or bit_word_eqI) (auto simp: u bit_simps)
  finally have "bit (v - 1) n \<longleftrightarrow> bit u n \<or> n < k" for n
    using kl by (auto simp: bit_simps)
  then have "{n. bit (v AND (v - 1)) n} = {n. bit v n} - {k}"
    using k by (auto simp: bit_simps u)
  with k(1) show ?thesis by blast
qed

lemma popcount16_loop_card:
  "popcount16_loop v c = c + of_nat (card {n. bit v n})"
proof (induction v c rule: popcount16_loop.induct)
  case (1 v c)
  show ?case
  proof (cases "v = 0")
    case False
    obtain k where k: "bit v k" "{n. bit (v AND (v - 1)) n} = {n. bit v n} - {k}"
      using clear_lowest_bit [OF False] by blast
    have "card {n. bit v n} = Suc (card {n. bit (v AND (v - 1)) n})"
      unfolding k(2) using k(1) by (intro card_Suc_Diff1 [symmetric]) auto
    then show ?thesis
      using "1.IH" [OF False] False by (subst popcount16_loop.simps) simp
  next
    case True
    then show ?thesis by (subst popcount16_loop.simps) (simp add: bot_fun_def)
  qed
qed

lemma unat_popcount16: "unat (popcount16 v) = card {n. bit v n}"
proof -
  have "card {n. bit v n} \<le> card {..<16::nat}"
    by (intro card_mono) (auto dest: bit_imp_le_length)
  then show ?thesis
    by (simp add: popcount16_def popcount16_loop_card unat_of_nat take_bit_nat_eq_self)
qed

subsection \<open>Low bit masks\<close>

lemma bit_lowBitMask: "bit (lowBitMask c) n \<longleftrightarrow> n < unat c \<and> n < 16"
proof -
  have all: "(0xFFFF :: u16) = mask 16" by (simp add: mask_eq_exp_minus_1)
  show ?thesis
    by (auto simp: lowBitMask_def kCompactWindowWidth_def all mask_eq_exp_minus_1 [symmetric]
        push_bit_of_1 bit_simps unat_gt_0)
qed

subsection \<open>Draining the bitmap\<close>

lemma engine_drain_eq:
  "\<exists>d. engine_drain b c = (drop_bit d b, c + of_nat d) \<and> (\<forall>i < d. bit b i) \<and> \<not> bit b d"
proof (induction b c rule: engine_drain.induct)
  case (1 b c)
  show ?case
  proof (cases "bit b 0")
    case True
    then have "b AND 1 \<noteq> 0" by (simp add: and_one_eq bit_0 mod2_eq_if)
    with "1.IH" obtain d where d: "engine_drain (drop_bit 1 b) (c + 1) = (drop_bit d (drop_bit 1 b), c + 1 + of_nat d)"
      "\<forall>i < d. bit (drop_bit 1 b) i" "\<not> bit (drop_bit 1 b) d" by blast
    have "\<forall>i < Suc d. bit b i"
      using d(2) True by (auto simp: bit_drop_bit_eq less_Suc_eq_0_disj simp del: drop_bit_Suc)
    moreover have "\<not> bit b (Suc d)" using d(3) by (simp add: bit_drop_bit_eq)
    moreover have "engine_drain b c = (drop_bit (Suc d) b, c + of_nat (Suc d))"
      using \<open>b AND 1 \<noteq> 0\<close> d(1) by (subst engine_drain.simps) (simp add: ac_simps)
    ultimately show ?thesis by blast
  next
    case False
    then have "\<not> (b AND 1 \<noteq> 0)" by (simp add: and_one_eq bit_0 mod2_eq_if)
    then have "engine_drain b c = (drop_bit 0 b, c + of_nat 0)" by (subst engine_drain.simps) simp
    with False show ?thesis by (intro exI [of _ 0]) auto
  qed
qed

subsection \<open>Extending the grant\<close>

lemma engine_grant_loop_eq:
  assumes "unat r \<le> unat s" and "unat s \<le> unat w" and "unat g \<le> unat n" and "unat s \<le> unat g"
  shows "unat (engine_grant_loop w n g s r) = min (unat n) (unat g - unat s + unat w)"
  using assms
proof (induction w n g s r rule: engine_grant_loop.induct)
  case (1 w n g s r)
  have uw: "unat (ucast w :: u32) = unat w" by (simp add: unat_ucast_up)
  show ?case
  proof (cases "g < n \<and> s < ucast w \<and> r < w")
    case True
    then have lt: "unat g < unat n" "unat s < unat w" "unat r < unat w"
      by (auto simp: word_less_nat_alt uw)
    have "unat w \<le> 255" by (rule unat_u8_le)
    with lt 1 have s: "unat (g + 1) = unat g + 1" "unat (s + 1) = unat s + 1" "unat (r + 1) = unat r + 1"
      using unat_Suc_less [of g n] unat_Suc_less [of r w] unat_add_le [of s 1] by auto
    show ?thesis
      using 1 True lt s by (subst engine_grant_loop.simps) auto
  next
    case False
    then have "\<not> (unat g < unat n \<and> unat s < unat w \<and> unat r < unat w)"
      by (auto simp: word_less_nat_alt uw)
    then have "unat n \<le> unat g \<or> unat s = unat w" using 1 by linarith
    with False 1 show ?thesis by (subst engine_grant_loop.simps) (auto simp: min_def)
  qed
qed

lemma updateGrant_frame [simp]:
  "re_config (updateGrant m e) = re_config e" "re_state (updateGrant m e) = re_state e"
  "re_setup (updateGrant m e) = re_setup e" "re_segment_count (updateGrant m e) = re_segment_count e"
  "re_contiguous_count (updateGrant m e) = re_contiguous_count e"
  "re_next_object_offset (updateGrant m e) = re_next_object_offset e"
  "re_receive_bitmap (updateGrant m e) = re_receive_bitmap e"
  "re_last_activity_ms (updateGrant m e) = re_last_activity_ms e"
  by (simp_all add: updateGrant_def Let_def)

lemma updateGrant_wide:
  assumes m: "max_window \<noteq> 1"
    and c: "unat (re_contiguous_count e) \<le> unat (re_granted_end e)"
    and g: "unat (re_granted_end e) \<le> unat (re_segment_count e)"
    and s: "unat (re_granted_end e) - unat (re_contiguous_count e) \<le> unat (ec_receive_window_width (re_config e))"
    and b: "\<And>i. bit (re_receive_bitmap e) i \<Longrightarrow> i < unat (re_granted_end e) - unat (re_contiguous_count e)"
    and w: "unat (ec_receive_window_width (re_config e)) \<le> 16"
  shows "unat (re_granted_end (updateGrant max_window e)) =
    min (unat (re_segment_count e))
        (unat (re_contiguous_count e) + unat (ec_receive_window_width (re_config e)))"
proof -
  let ?span = "re_granted_end e - re_contiguous_count e"
  let ?pop = "popcount16 (re_receive_bitmap e AND lowBitMask (ucast ?span))"
  have span: "unat ?span = unat (re_granted_end e) - unat (re_contiguous_count e)"
    using c by (rule unat_sub_le)
  have "card {n. bit (re_receive_bitmap e AND lowBitMask (ucast ?span)) n} \<le> card {..<unat ?span}"
    using b span by (intro card_mono) (auto simp: bit_simps)
  then have "unat ?pop \<le> unat ?span" by (simp add: unat_popcount16)
  then have "unat (?span - ucast ?pop) \<le> unat ?span" "unat (?span - ucast ?pop) \<le> 16"
    using s w span by (simp_all add: unat_sub_le unat_ucast_up)
  then have "unat (ucast (?span - ucast ?pop) :: u8) \<le> unat ?span"
    by (simp add: unsigned_ucast_eq take_bit_nat_eq_self)
  then show ?thesis
    using m c g s span by (simp add: updateGrant_def engine_grant_loop_eq Let_def)
qed

lemma updateGrant_narrow:
  assumes "unat (re_contiguous_count e) \<le> unat (re_segment_count e)"
  shows "unat (re_granted_end (updateGrant 1 e)) =
    min (unat (re_segment_count e)) (unat (re_contiguous_count e) + 1)"
  using assms unat_Suc_less [of "re_contiguous_count e" "re_segment_count e"]
  by (auto simp: updateGrant_def word_less_nat_alt)

subsection \<open>The invariant\<close>

definition engine_received :: "BitsReceiverEngine \<Rightarrow> nat set" where
  "engine_received e = {..<unat (re_contiguous_count e)}
     \<union> {unat (re_contiguous_count e) + j | j. bit (re_receive_bitmap e) j}"

definition setup_valid :: "Setup \<Rightarrow> bool" where
  "setup_valid s \<longleftrightarrow> 0 < su_final_segment_size s \<and> su_final_segment_size s \<le> su_segment_size s"

definition window_invar :: "BitsReceiverEngine \<Rightarrow> bool" where
  "window_invar e \<longleftrightarrow>
     re_segment_count e = setupSegmentCount (re_setup e) \<and> setup_valid (re_setup e)
     \<and> 0 < ec_receive_window_width (re_config e)
     \<and> unat (re_contiguous_count e) \<le> unat (re_segment_count e)
     \<and> unat (re_granted_end e) = min (unat (re_segment_count e))
         (unat (re_contiguous_count e) + unat (ec_receive_window_width (re_config e)))
     \<and> (\<forall>i. bit (re_receive_bitmap e) i \<longrightarrow>
           0 < i \<and> i < unat (re_granted_end e) - unat (re_contiguous_count e))"

text \<open>In the width-one build the byte offset of the next segment is kept instead.\<close>

definition offset_invar :: "BitsReceiverEngine \<Rightarrow> bool" where
  "offset_invar e \<longleftrightarrow> re_receive_bitmap e = 0 \<and> unat (re_next_object_offset e) =
     (if re_contiguous_count e < re_segment_count e
      then unat (re_contiguous_count e) * unat (su_segment_size (re_setup e))
      else unat (setupTotalSize (re_setup e)))"

definition engine_invar :: "nat \<Rightarrow> BitsReceiverEngine \<Rightarrow> bool" where
  "engine_invar max_window e \<longleftrightarrow>
     1 \<le> max_window \<and> max_window \<le> 16
     \<and> unat (ec_receive_window_width (re_config e)) \<le> max_window
     \<and> (max_window = 1 \<longrightarrow> re_receive_bitmap e = 0)
     \<and> (re_state e \<in> {TS_kActive, TS_kCompleted} \<longrightarrow>
          window_invar e \<and> (max_window = 1 \<longrightarrow> offset_invar e)
          \<and> (re_state e = TS_kCompleted \<longleftrightarrow> re_contiguous_count e = re_segment_count e))"

lemma engine_invar_init:
  assumes "1 \<le> max_window" and "max_window \<le> 16"
  shows "engine_invar max_window (BitsReceiverEngine_init max_window config)"
proof -
  have "unat (of_nat max_window :: u8) = max_window"
    using assms by (simp add: unat_of_nat take_bit_nat_eq_self)
  then show ?thesis using assms by (auto simp: engine_invar_def BitsReceiverEngine_init_def)
qed

text \<open>Everything received lies below the granted end.\<close>

lemma received_bound:
  assumes "window_invar e"
  shows "engine_received e \<subseteq> {..<unat (re_granted_end e)}"
  using assms by (auto simp: window_invar_def engine_received_def less_diff_conv)

subsection \<open>Accepting a segment\<close>

lemma drain_window:
  assumes "engine_drain b c = (b', c')"
    and "\<And>i. bit b i \<Longrightarrow> i < g - unat c" and "unat c \<le> g" and "g < 2 ^ 32"
  shows "unat c \<le> unat c'" and "unat c' \<le> g" and "\<not> bit b' 0"
    and "\<And>i. bit b' i \<Longrightarrow> i < g - unat c'"
    and "{..<unat c'} \<union> {unat c' + j | j. bit b' j} = {..<unat c} \<union> {unat c + j | j. bit b j}"
proof -
  obtain d where d: "b' = drop_bit d b" "c' = c + of_nat d" "\<forall>i < d. bit b i" "\<not> bit b d"
    using engine_drain_eq [of b c] assms(1) by auto
  have dg: "d \<le> g - unat c"
    using d(3) assms(2) by (meson less_irrefl not_le_imp_less)
  then have "unat (of_nat d :: u32) = d" using assms(4) by (simp add: unat_of_nat take_bit_nat_eq_self)
  then have c': "unat c' = unat c + d"
    using d(2) dg assms(3,4) by (simp add: unat_add_le)
  show "unat c \<le> unat c'" "unat c' \<le> g" using c' dg assms(3) by auto
  show "\<not> bit b' 0" using d by (simp add: bit_drop_bit_eq)
  show "i < g - unat c'" if "bit b' i" for i
    using that assms(2) [of "d + i"] d(1) c' by (simp add: bit_drop_bit_eq)
  have "{unat c' + j | j. bit b' j} = {unat c + j | j. bit b j \<and> d \<le> j}"
    unfolding d(1) bit_drop_bit_eq o_apply c'
    by (auto simp: add.assoc intro: exI [of _ "_ - d"]) (metis le_add_diff_inverse)
  moreover have "{..<unat c'} = {..<unat c} \<union> {unat c + j | j. bit b j \<and> j < d}"
    using d(3) c' by (auto intro: exI [of _ "_ - unat c"]) (metis le_add_diff_inverse nat_add_left_cancel_less not_less)
  ultimately show "{..<unat c'} \<union> {unat c' + j | j. bit b' j} = {..<unat c} \<union> {unat c + j | j. bit b j}"
    by (auto simp: not_le)
qed

lemma engine_advance_frame [simp]:
  "re_config (engine_advance m b p e) = re_config e" "re_state (engine_advance m b p e) = re_state e"
  "re_setup (engine_advance m b p e) = re_setup e"
  "re_segment_count (engine_advance m b p e) = re_segment_count e"
  by (simp_all add: engine_advance_def split: prod.splits)

lemma engine_advance_wide:
  assumes m: "max_window \<noteq> 1" and inv: "window_invar e"
    and w: "unat (ec_receive_window_width (re_config e)) \<le> 16"
    and i: "unat (re_contiguous_count e) \<le> i" "i < unat (re_granted_end e)"
  shows "window_invar (engine_advance max_window (push_bit (i - unat (re_contiguous_count e)) 1) p e)"
    and "engine_received (engine_advance max_window (push_bit (i - unat (re_contiguous_count e)) 1) p e)
       = insert i (engine_received e)"
proof -
  let ?c = "re_contiguous_count e" and ?g = "unat (re_granted_end e)"
  let ?k = "i - unat ?c" and ?W = "unat (ec_receive_window_width (re_config e))"
  let ?b = "re_receive_bitmap e OR push_bit ?k 1"
  obtain b' c' where dr: "engine_drain ?b ?c = (b', c')" by fastforce
  have g: "?g = min (unat (re_segment_count e)) (unat ?c + ?W)"
    and bits: "\<And>j. bit (re_receive_bitmap e) j \<Longrightarrow> j < ?g - unat ?c"
    using inv by (auto simp: window_invar_def)
  have k: "?k < ?g - unat ?c" "?k < 16" using i g w by auto
  have bb: "bit ?b j \<longleftrightarrow> bit (re_receive_bitmap e) j \<or> j = ?k" for j
    using k(2) by (auto simp: bit_simps)
  have g32: "?g < 2 ^ 32" using unsigned_less [of "re_granted_end e", where ?'a = nat] by simp
  note dw = drain_window [OF dr, of ?g]
  have dw: "unat ?c \<le> unat c'" "unat c' \<le> ?g" "\<not> bit b' 0"
    "\<And>j. bit b' j \<Longrightarrow> j < ?g - unat c'"
    "{..<unat c'} \<union> {unat c' + j | j. bit b' j} = {..<unat ?c} \<union> {unat ?c + j | j. bit ?b j}"
    using dw bits k(1) i g32 unfolding bb by (auto simp: set_eq_iff)
  let ?e1 = "e\<lparr>re_receive_bitmap := b', re_contiguous_count := c'\<rparr>"
  have adv: "engine_advance max_window (push_bit ?k 1) p e = updateGrant max_window ?e1"
    using m dr by (simp add: engine_advance_def)
  have g': "unat (re_granted_end (updateGrant max_window ?e1)) = min (unat (re_segment_count e)) (unat c' + ?W)"
    using m dw g w by (subst updateGrant_wide) auto
  have "unat c' \<le> unat (re_segment_count e)" using dw(2) g by simp
  moreover have "j < min (unat (re_segment_count e)) (unat c' + ?W) - unat c'" if "bit b' j" for j
    using dw(4) [OF that] dw(1) g by auto
  moreover have "0 < j" if "bit b' j" for j using that dw(3) by (cases j) auto
  ultimately show "window_invar (engine_advance max_window (push_bit ?k 1) p e)"
    unfolding adv using inv g' by (simp add: window_invar_def)
  have "{unat ?c + j | j. bit ?b j} = insert (unat ?c + ?k) {unat ?c + j | j. bit (re_receive_bitmap e) j}"
    unfolding bb by auto
  also have "unat ?c + ?k = i" using i(1) by simp
  finally have "{unat ?c + j | j. bit ?b j} = insert i {unat ?c + j | j. bit (re_receive_bitmap e) j}" .
  then show "engine_received (engine_advance max_window (push_bit ?k 1) p e) = insert i (engine_received e)"
    unfolding adv engine_received_def using dw(5) by simp
qed

text \<open>Lengths of the segments of an object, and the bytes before each of them.\<close>

definition setup_segment_length :: "Setup \<Rightarrow> nat \<Rightarrow> nat" where
  "setup_segment_length s i =
     (if i = unat (su_final_segment_index s) then unat (su_final_segment_size s)
      else unat (su_segment_size s))"

lemma segment_end_le_total:
  assumes "setup_valid s" and "i \<le> unat (su_final_segment_index s)"
  shows "i * unat (su_segment_size s) + setup_segment_length s i \<le> unat (setupTotalSize s)"
proof (cases "i = unat (su_final_segment_index s)")
  case True
  then show ?thesis by (simp add: unat_setupTotalSize setup_segment_length_def)
next
  case False
  then have "(i + 1) * unat (su_segment_size s) \<le> unat (su_final_segment_index s) * unat (su_segment_size s)"
    using assms(2) by (intro mult_le_mono1) auto
  with False show ?thesis by (simp add: unat_setupTotalSize setup_segment_length_def)
qed

lemma engine_advance_narrow:
  assumes inv: "window_invar e" and off: "offset_invar e"
    and w: "unat (ec_receive_window_width (re_config e)) \<le> 1"
    and c: "re_contiguous_count e < re_segment_count e"
    and p: "length p = setup_segment_length (re_setup e) (unat (re_contiguous_count e))"
  shows "window_invar (engine_advance 1 b p e)" and "offset_invar (engine_advance 1 b p e)"
    and "engine_received (engine_advance 1 b p e) =
      insert (unat (re_contiguous_count e)) (engine_received e)"
proof -
  let ?c = "re_contiguous_count e" and ?n = "re_segment_count e" and ?s = "re_setup e"
  let ?e1 = "e\<lparr>re_contiguous_count := ?c + 1,
      re_next_object_offset := re_next_object_offset e + of_nat (length p)\<rparr>"
  have adv: "engine_advance 1 b p e = updateGrant 1 ?e1" by (simp add: engine_advance_def)
  have cn: "unat ?c < unat ?n" using c by (simp add: word_less_nat_alt)
  then have c1: "unat (?c + 1) = unat ?c + 1" by (simp add: unat_Suc_less)
  have "unat (ec_receive_window_width (re_config e)) \<noteq> 0"
    using inv by (auto simp: window_invar_def unat_eq_0)
  then have w1: "unat (ec_receive_window_width (re_config e)) = 1" using w by linarith
  have nz: "re_receive_bitmap e = 0" using off by (simp add: offset_invar_def)
  have g': "unat (re_granted_end (updateGrant 1 ?e1)) = min (unat ?n) (unat ?c + 1 + 1)"
    using cn c1 by (subst updateGrant_narrow) auto
  show "window_invar (engine_advance 1 b p e)"
    unfolding adv using inv cn c1 g' w1 nz by (simp add: window_invar_def)
  show "engine_received (engine_advance 1 b p e) = insert (unat ?c) (engine_received e)"
    unfolding adv using c1 nz by (auto simp: engine_received_def)
  have n: "unat ?n = unat (su_final_segment_index ?s) + 1"
    using inv by (simp add: window_invar_def unat_setupSegmentCount)
  have next_off: "unat (re_next_object_offset e) = unat ?c * unat (su_segment_size ?s)"
    using off c by (simp add: offset_invar_def)
  have le: "unat ?c * unat (su_segment_size ?s) + length p \<le> unat (setupTotalSize ?s)"
    using segment_end_le_total [of ?s "unat ?c"] inv cn n p by (simp add: window_invar_def)
  have t32: "unat (setupTotalSize ?s) < 2 ^ 32"
    using unsigned_less [of "setupTotalSize ?s", where ?'a = nat] by simp
  have "unat (of_nat (length p) :: u32) = length p"
    using le t32 by (simp add: unat_of_nat take_bit_nat_eq_self)
  then have "unat (re_next_object_offset e + of_nat (length p)) = unat ?c * unat (su_segment_size ?s) + length p"
    using le t32 next_off by (simp add: unat_add_le)
  then show "offset_invar (engine_advance 1 b p e)"
    unfolding adv using cn c1 n nz p
    by (auto simp: offset_invar_def setup_segment_length_def word_less_nat_alt unat_setupTotalSize
        algebra_simps)
qed

subsection \<open>Sending keeps the window\<close>

definition engine_same :: "BitsReceiverEngine \<Rightarrow> BitsReceiverEngine \<Rightarrow> bool" where
  "engine_same e e' \<longleftrightarrow>
     re_config e' = re_config e \<and> re_setup e' = re_setup e \<and> re_segment_count e' = re_segment_count e
     \<and> re_contiguous_count e' = re_contiguous_count e
     \<and> re_next_object_offset e' = re_next_object_offset e \<and> re_granted_end e' = re_granted_end e
     \<and> re_receive_bitmap e' = re_receive_bitmap e
     \<and> (re_state e' = re_state e \<or> re_state e = TS_kActive \<and> re_state e' \<in> {TS_kError, TS_kAborted})"

lemma engine_same_refl [simp]: "engine_same e e"
  by (simp add: engine_same_def)

lemma engine_same_trans: "engine_same a b \<Longrightarrow> engine_same b c \<Longrightarrow> engine_same a c"
  by (auto simp: engine_same_def)

lemma engine_same_updates [simp]:
  "engine_same (e\<lparr>re_last_send := r\<rparr>) e' = engine_same e e'"
  "engine_same e (e'\<lparr>re_last_send := r\<rparr>) = engine_same e e'"
  "engine_same (e\<lparr>re_last_activity_ms := t\<rparr>) e' = engine_same e e'"
  "engine_same e (e'\<lparr>re_last_activity_ms := t\<rparr>) = engine_same e e'"
  by (simp_all add: engine_same_def)

lemma engine_same_received: "engine_same e e' \<Longrightarrow> engine_received e' = engine_received e"
  by (simp add: engine_same_def engine_received_def)

lemma engine_same_window:
  "engine_same e e' \<Longrightarrow> window_invar e' = window_invar e" "engine_same e e' \<Longrightarrow> offset_invar e' = offset_invar e"
  by (simp_all add: engine_same_def window_invar_def offset_invar_def)

lemma engine_same_invar:
  assumes "engine_same e e'" and "engine_invar m e"
  shows "engine_invar m e'"
  using assms engine_same_window [OF assms(1)] by (auto simp: engine_same_def engine_invar_def)

lemma engine_fail_same: "engine_same e (fst (engine_fail env r e w))"
  by (simp add: engine_fail_def engine_same_def)

lemma engine_sendPrepared_same: "engine_same e (fst (snd (engine_sendPrepared env e w)))"
  by (simp add: engine_sendPrepared_def split: prod.splits)

lemma engine_sendAck_same: "engine_same e (fst (snd (engine_sendAck env e w)))"
proof -
  have fail: "engine_same e (fst (engine_fail env r (e'\<lparr>re_last_send := x\<rparr>) w'))" if "engine_same e e'" for r e' x w'
    using that by (auto simp: engine_fail_def engine_same_def)
  then show ?thesis
    by (auto simp: engine_sendAck_def engine_sendPrepared_def Let_def fail split: prod.splits)
qed

lemma engine_sendReject_same: "engine_same e (fst (snd (engine_sendReject env sid r e w)))"
  by (auto simp: engine_sendReject_def engine_sendPrepared_def Let_def split: prod.splits)

lemma engine_sendAbort_same: "engine_same e (fst (snd (engine_sendAbort env e w)))"
  by (auto simp: engine_sendAbort_def engine_sendPrepared_def Let_def split: prod.splits)

lemma engine_poll_same: "engine_same e (fst (snd (engine_poll env t e w)))"
  by (simp add: engine_poll_def engine_fail_same)

lemmas engine_sames = engine_fail_same engine_sendPrepared_same engine_sendAck_same
  engine_sendReject_same engine_sendAbort_same engine_poll_same

subsection \<open>Every handler keeps the invariant\<close>

lemma segment_bit_test:
  "(b AND push_bit n 1 \<noteq> 0) = bit b n" if "n < LENGTH('a)" for b :: "'a::len word"
proof -
  have "b AND push_bit n 1 = (if bit b n then push_bit n 1 else 0)"
    by (rule bit_word_eqI) (auto simp: bit_simps)
  moreover have "(2 :: 'a word) ^ n \<noteq> 0"
    using that bit_exp_iff [where ?'a = "'a word", of n n] by auto
  ultimately show ?thesis by simp
qed

text \<open>A segment that is not merely acknowledged is new and inside the granted window.\<close>

lemma segment_is_new:
  assumes inv: "engine_invar m e" and st: "re_state e \<in> {TS_kActive, TS_kCompleted}"
    and new: "\<not> engine_segment_ack_only m index e"
  shows "re_state e = TS_kActive" and "unat (re_contiguous_count e) \<le> unat index"
    and "unat index < unat (re_granted_end e)" and "unat index \<notin> engine_received e"
    and "m = 1 \<Longrightarrow> index = re_contiguous_count e"
    and "unat (index - re_contiguous_count e) = unat index - unat (re_contiguous_count e)"
proof -
  show s: "re_state e = TS_kActive" using st new by (auto simp: engine_segment_ack_only_def)
  show lo: "unat (re_contiguous_count e) \<le> unat index" and hi: "unat index < unat (re_granted_end e)"
    using new by (auto simp: engine_segment_ack_only_def word_less_nat_alt word_le_nat_alt)
  show one: "m = 1 \<Longrightarrow> index = re_contiguous_count e" using new by (auto simp: engine_segment_ack_only_def)
  show off: "unat (index - re_contiguous_count e) = unat index - unat (re_contiguous_count e)"
    using lo by (rule unat_sub_le)
  have w: "window_invar e" "unat (ec_receive_window_width (re_config e)) \<le> m" "m \<le> 16"
    using inv s by (auto simp: engine_invar_def)
  then have k: "unat index - unat (re_contiguous_count e) < LENGTH(16)"
    using hi by (auto simp: window_invar_def)
  show "unat index \<notin> engine_received e"
  proof (cases "m = 1")
    case True
    then have "re_receive_bitmap e = 0" using inv by (simp add: engine_invar_def)
    then show ?thesis using one True by (simp add: engine_received_def)
  next
    case False
    then have "\<not> bit (re_receive_bitmap e) (unat index - unat (re_contiguous_count e))"
      using new segment_bit_test [OF k, of "re_receive_bitmap e"]
      by (simp add: engine_segment_ack_only_def Let_def off)
    then show ?thesis using lo by (auto simp: engine_received_def)
  qed
qed

text \<open>The state right after the sink accepted segment \<open>i\<close>.\<close>

lemma engine_advance_step:
  assumes inv: "engine_invar m e" and st: "re_state e = TS_kActive"
    and lo: "unat (re_contiguous_count e) \<le> i" and hi: "i < unat (re_granted_end e)"
    and one: "m = 1 \<Longrightarrow> i = unat (re_contiguous_count e)"
    and len: "length p = setup_segment_length (re_setup e) i"
    and adv: "e1 = engine_advance m (push_bit (i - unat (re_contiguous_count e)) 1) p e"
  shows "window_invar e1" and "m = 1 \<Longrightarrow> offset_invar e1" and "m = 1 \<Longrightarrow> re_receive_bitmap e1 = 0"
    and "engine_received e1 = insert i (engine_received e)"
proof -
  have w: "window_invar e" "unat (ec_receive_window_width (re_config e)) \<le> m" "m \<le> 16"
    "m = 1 \<Longrightarrow> offset_invar e"
    using inv st by (auto simp: engine_invar_def)
  have "window_invar e1 \<and> (m = 1 \<longrightarrow> offset_invar e1) \<and> engine_received e1 = insert i (engine_received e)"
  proof (cases "m = 1")
    case True
    have "re_contiguous_count e < re_segment_count e"
      using one [OF True] hi w(1) by (auto simp: window_invar_def word_less_nat_alt)
    with True w one len show ?thesis unfolding adv
      using engine_advance_narrow [of e p] by simp
  next
    case False
    with w engine_advance_wide [OF False w(1) _ lo hi, of p] show ?thesis unfolding adv by simp
  qed
  then show "window_invar e1" "m = 1 \<Longrightarrow> offset_invar e1"
    "engine_received e1 = insert i (engine_received e)" by auto
  then show "m = 1 \<Longrightarrow> re_receive_bitmap e1 = 0" by (simp add: offset_invar_def)
qed

lemma engine_accept_segment_step:
  assumes inv: "engine_invar (ee_max_window env) e" and st: "re_state e = TS_kActive"
    and lo: "unat (re_contiguous_count e) \<le> i" and hi: "i < unat (re_granted_end e)"
    and one: "ee_max_window env = 1 \<Longrightarrow> i = unat (re_contiguous_count e)"
    and len: "length p = setup_segment_length (re_setup e) i"
    and acc: "engine_accept_segment env (push_bit (i - unat (re_contiguous_count e)) 1) p e w = (ok, e', w')"
  shows "engine_invar (ee_max_window env) e'" and "engine_received e' = insert i (engine_received e)"
    and "re_setup e' = re_setup e" and "re_config e' = re_config e"
proof -
  define e1 where "e1 = engine_advance (ee_max_window env) (push_bit (i - unat (re_contiguous_count e)) 1) p e"
  note step = engine_advance_step [OF inv st lo hi one len e1_def]
  define e2 where "e2 = (if re_contiguous_count e1 = re_segment_count e1 then e1\<lparr>re_state := TS_kCompleted\<rparr> else e1)"
  have frame: "re_config e1 = re_config e" "re_state e1 = TS_kActive" "re_setup e1 = re_setup e"
    using st by (simp_all add: e1_def)
  have "engine_invar (ee_max_window env) e2"
    using inv step frame by (auto simp: e2_def engine_invar_def window_invar_def offset_invar_def)
  moreover have rec: "engine_received e2 = insert i (engine_received e)"
    using step(4) by (auto simp: e2_def engine_received_def)
  moreover have same: "engine_same e2 e'"
    using acc engine_sendAck_same [of e2 env] unfolding engine_accept_segment_def e1_def [symmetric] Let_def
    by (auto simp: e2_def split: if_splits) (metis fst_conv snd_conv)+
  ultimately show "engine_invar (ee_max_window env) e'" "engine_received e' = insert i (engine_received e)"
    using engine_same_invar engine_same_received by auto
  show "re_setup e' = re_setup e" "re_config e' = re_config e"
    using same frame by (auto simp: engine_same_def e2_def)
qed

text \<open>The word offset handed to the sink is the byte offset of the segment, in both builds.\<close>

lemma segment_offset_word:
  assumes "engine_invar m e" and "re_state e = TS_kActive"
    and "unat (ucast x :: u32) < unat (re_granted_end e)"
    and "m = 1 \<Longrightarrow> ucast x = re_contiguous_count e"
  shows "(if m = 1 then re_next_object_offset e else ucast x * ucast (su_segment_size (re_setup e)))
    = of_nat (unat (x :: u16) * unat (su_segment_size (re_setup e)))"
proof (cases "m = 1")
  case True
  then have o: "offset_invar e" "window_invar e" using assms(1,2) by (auto simp: engine_invar_def)
  then have "re_contiguous_count e < re_segment_count e"
    using assms(3,4) True by (auto simp: window_invar_def word_less_nat_alt)
  moreover have "unat (re_contiguous_count e) = unat x"
    using assms(4) [OF True] unat_ucast_up [of x, where ?'b = 32] by simp
  ultimately have "unat (re_next_object_offset e) = unat x * unat (su_segment_size (re_setup e))"
    using o(1) by (simp add: offset_invar_def)
  then show ?thesis using True word_eq_of_nat [of "re_next_object_offset e"] by (simp del: of_nat_mult)
next
  case False
  then show ?thesis by simp
qed

text \<open>What handling a SEGMENT can do: nothing, an ACK, a refusal by the sink, or an acceptance.\<close>

lemma handleSegment_cases:
  assumes inv: "engine_invar (ee_max_window env) e"
    and h: "handleSegment env message now e w = (ok, e', w')"
  obtains (ignored) "e' = e" "w' = w"
  | (acked) e1 where "engine_same e e1" "engine_sendAck env e1 w = (ok, e', w')" "re_state e1 = re_state e"
  | (refused) e1 off p w1 where "engine_same e e1" "ee_onSegment env off p w = (False, w1)"
      "engine_fail env FR_kSinkRejected e1 w1 = (e', w')" "re_state e1 = re_state e"
  | (accepted) hdr w1 e1 where "decodeSegmentHeaderKnownType message = Some hdr"
      "sh_session_id hdr = su_session_id (re_setup e)" "re_state e = TS_kActive"
      "unat (sh_segment_index hdr) \<le> unat (su_final_segment_index (re_setup e))"
      "unat (sh_segment_index hdr) \<notin> engine_received e"
      "length (drop 4 message) = setup_segment_length (re_setup e) (unat (sh_segment_index hdr))"
      "ee_onSegment env (of_nat (unat (sh_segment_index hdr) * unat (su_segment_size (re_setup e))))
         (drop 4 message) w = (True, w1)"
      "engine_invar (ee_max_window env) e'" "re_setup e' = re_setup e"
      "engine_received e' = insert (unat (sh_segment_index hdr)) (engine_received e)"
      "\<exists>bit. engine_accept_segment env bit (drop 4 message) e1 w1 = (ok, e', w')"
      "engine_same e e1" "re_state e1 = re_state e"
proof (cases "decodeSegmentHeaderKnownType message")
  case None
  then show thesis using h ignored by (simp add: handleSegment_def)
next
  case (Some hdr)
  let ?x = "ucast (sh_segment_index hdr) :: u32" and ?m = "ee_max_window env"
  let ?e1 = "if ?x < re_granted_end e then e\<lparr>re_last_activity_ms := now\<rparr> else e"
  let ?p = "drop 4 message"
  let ?off = "if ?m = 1 then re_next_object_offset ?e1 else ?x * ucast (su_segment_size (re_setup ?e1))"
  have x: "unat ?x = unat (sh_segment_index hdr)" by (simp add: unat_ucast_up)
  have same: "engine_same e ?e1" and st1: "re_state ?e1 = re_state e" by simp_all
  show thesis
  proof (cases "(re_state e \<noteq> TS_kActive \<and> re_state e \<noteq> TS_kCompleted)
      \<or> sh_session_id hdr \<noteq> su_session_id (re_setup e) \<or> re_segment_count e \<le> ?x
      \<or> length ?p \<noteq> unat (if sh_segment_index hdr = su_final_segment_index (re_setup e)
           then su_final_segment_size (re_setup e) else su_segment_size (re_setup e))")
    case True
    then have "e' = e" "w' = w"
      using h Some unfolding handleSegment_def
      by (auto simp: Let_def subspan_from_def bits_sizes split: if_splits)
    then show thesis by (rule ignored)
  next
    case False
    note pre = False
    have A: "((re_state e \<noteq> TS_kActive \<and> re_state e \<noteq> TS_kCompleted)
      \<or> sh_session_id hdr \<noteq> su_session_id (re_setup e) \<or> re_segment_count e \<le> ?x) = False"
      using pre by simp
    have P: "subspan_from message kSegmentHeaderSize = ?p" by (simp add: subspan_from_def bits_sizes)
    have B: "(length ?p \<noteq> unat (if sh_segment_index hdr = su_final_segment_index (re_setup e)
           then su_final_segment_size (re_setup e) else su_segment_size (re_setup e))) = False"
      using pre by simp
    note go = h [unfolded handleSegment_def Some option.case Let_def A P B if_False]
    show thesis
    proof (cases "engine_segment_ack_only ?m ?x ?e1")
      case True
      have "engine_sendAck env ?e1 w = (ok, e', w')" using go unfolding if_P [OF True] .
      then show thesis by (rule acked [OF same _ st1])
    next
      case False
      have go: "(case ee_onSegment env ?off ?p w of (False, w1) \<Rightarrow> (False, engine_fail env FR_kSinkRejected ?e1 w1)
          | (True, w1) \<Rightarrow> engine_accept_segment env (push_bit (unat (?x - re_contiguous_count ?e1)) 1) ?p ?e1 w1)
          = (ok, e', w')"
        using go unfolding if_not_P [OF False] .
      have inv1: "engine_invar ?m ?e1" using inv same by (rule engine_same_invar [rotated])
      have st: "re_state ?e1 \<in> {TS_kActive, TS_kCompleted}" using pre by auto
      note new = segment_is_new [OF inv1 st False]
      obtain b w1 where on: "ee_onSegment env ?off ?p w = (b, w1)" by fastforce
      show thesis
      proof (cases b)
        case False
        with go on have "engine_fail env FR_kSinkRejected ?e1 w1 = (e', w')" by simp
        then show thesis using on False by (intro refused [OF same _ _ st1]) simp_all
      next
        case True
        have one: "?m = 1 \<Longrightarrow> unat ?x = unat (re_contiguous_count ?e1)" using new(5) by simp
        have len: "length ?p = setup_segment_length (re_setup ?e1) (unat ?x)"
          using pre x by (auto simp: setup_segment_length_def unat_eq_iff)
        have acc: "engine_accept_segment env (push_bit (unat ?x - unat (re_contiguous_count ?e1)) 1) ?p ?e1 w1
            = (ok, e', w')" using go on True new(6) by simp
        note step = engine_accept_segment_step [OF inv1 new(1,2,3) one len acc]
        have "?off = of_nat (unat (sh_segment_index hdr) * unat (su_segment_size (re_setup ?e1)))"
          by (rule segment_offset_word [OF inv1 new(1,3)]) (rule new(5))
        moreover have "re_setup ?e1 = re_setup e" "engine_received ?e1 = engine_received e"
          by (simp_all add: engine_received_def)
        moreover have "unat (sh_segment_index hdr) \<le> unat (su_final_segment_index (re_setup e))"
        proof -
          have "unat ?x < unat (re_segment_count e)" using pre by (auto simp: word_le_nat_alt)
          moreover have "re_segment_count e = setupSegmentCount (re_setup e)"
            using inv new(1) by (auto simp: engine_invar_def window_invar_def split: if_splits)
          ultimately show ?thesis using x by (simp add: unat_setupSegmentCount)
        qed
        ultimately show thesis
          using Some pre new on True len acc step x by (intro accepted [of hdr w1 ?e1]) (auto split: if_splits)
      qed
    qed
  qed
qed

subsection \<open>Starting a transfer\<close>

lemma engine_begin_step:
  assumes inv: "engine_invar m e" and w: "ec_receive_window_width (re_config e) \<noteq> 0" and s: "setup_valid s"
  shows "engine_invar m (engine_begin m s now e)" and "engine_received (engine_begin m s now e) = {}"
    and "re_setup (engine_begin m s now e) = s" and "re_state (engine_begin m s now e) = TS_kActive"
proof -
  define e0 where "e0 = e\<lparr>re_setup := s, re_segment_count := setupSegmentCount s, re_contiguous_count := 0,
      re_next_object_offset := (if m = 1 then 0 else re_next_object_offset e), re_granted_end := 0,
      re_receive_bitmap := (if 1 < m then 0 else re_receive_bitmap e), re_state := TS_kActive,
      re_last_activity_ms := now\<rparr>"
  have b: "engine_begin m s now e = updateGrant m e0" by (simp add: engine_begin_def e0_def)
  have m: "1 \<le> m" "m \<le> 16" "unat (ec_receive_window_width (re_config e)) \<le> m"
    "m = 1 \<longrightarrow> re_receive_bitmap e = 0" using inv by (auto simp: engine_invar_def)
  have w0: "unat (ec_receive_window_width (re_config e)) \<noteq> 0" using w by (simp add: unat_eq_0)
  have bm: "re_receive_bitmap e0 = 0" using m by (auto simp: e0_def)
  have f: "re_contiguous_count e0 = 0" "re_granted_end e0 = 0" "re_segment_count e0 = setupSegmentCount s"
    "re_config e0 = re_config e" "re_setup e0 = s" "re_state e0 = TS_kActive" by (simp_all add: e0_def)
  have n: "unat (setupSegmentCount s) = unat (su_final_segment_index s) + 1" by (rule unat_setupSegmentCount)
  then have n0: "0 < setupSegmentCount s" "setupSegmentCount s \<noteq> 0" by (auto simp: word_less_nat_alt)
  have g: "unat (re_granted_end (updateGrant m e0)) =
      min (unat (setupSegmentCount s)) (unat (ec_receive_window_width (re_config e)))"
  proof (cases "m = 1")
    case True
    with m w0 have "unat (ec_receive_window_width (re_config e)) = 1" by simp
    with True show ?thesis using updateGrant_narrow [of e0] f by simp
  next
    case False
    with m bm f show ?thesis by (subst updateGrant_wide) simp_all
  qed
  have "window_invar (updateGrant m e0)" using s g w f bm by (auto simp: window_invar_def word_greater_zero_iff)
  moreover have "m = 1 \<Longrightarrow> offset_invar (updateGrant m e0)"
    using bm f n0 by (simp add: offset_invar_def) (simp add: e0_def)
  ultimately show "engine_invar m (engine_begin m s now e)"
    unfolding b engine_invar_def using m bm f n0 by auto
  show "engine_received (engine_begin m s now e) = {}" unfolding b engine_received_def using bm f by simp
  show "re_setup (engine_begin m s now e) = s" "re_state (engine_begin m s now e) = TS_kActive"
    unfolding b using f by simp_all
qed

lemma handleSetup_cases:
  assumes inv: "engine_invar (ee_max_window env) e"
    and h: "handleSetup env message now e w = (ok, e', w')"
  obtains (ignored) "e' = e" "w' = w"
  | (acked) e1 where "engine_same e e1" "engine_sendAck env e1 w = (ok, e', w')" "re_state e1 = re_state e"
  | (rejected) sid r where "engine_sendReject env sid r e w = (ok, e', w')"
  | (refused) info a w1 sid r where "ee_beginTransfer env info w = (a, w1)" "a \<noteq> TA_kAccepted"
      "engine_sendReject env sid r e w1 = (ok, e', w')"
  | (begun) s w1 where "decodeSetupKnownType message = Some s" "re_state e \<noteq> TS_kActive"
      "ee_beginTransfer env \<lparr>ti_session_id = su_session_id s, ti_total_size = setupTotalSize s,
         ti_segment_size = su_segment_size s\<rparr> w = (TA_kAccepted, w1)"
      "engine_sendAck env (engine_begin (ee_max_window env) s now e) w1 = (ok, e', w')"
      "setup_valid s" "ec_receive_window_width (re_config e) \<noteq> 0"
proof (cases "length message < 2 \<or> decodeSetupKnownType message = None")
  case True
  then show thesis using h ignored rejected by (auto simp: handleSetup_def split: if_splits)
next
  case False
  then obtain s where s: "\<not> length message < 2" "decodeSetupKnownType message = Some s" by auto
  let ?info = "\<lparr>ti_session_id = su_session_id s, ti_total_size = setupTotalSize s,
         ti_segment_size = su_segment_size s\<rparr>"
  obtain a w1 where a: "ee_beginTransfer env ?info w = (a, w1)" by fastforce
  have valid: "setup_valid s" if "\<not> (su_segment_size s = 0 \<or> su_final_segment_size s = 0
      \<or> su_segment_size s < su_final_segment_size s)"
    using that by (auto simp: setup_valid_def word_greater_zero_iff)
  show thesis
    using h s a rejected acked [of "e\<lparr>re_last_activity_ms := now\<rparr>"] refused [OF a] begun [of s w1] valid
    by (auto simp: handleSetup_def split: if_splits)
qed

subsection \<open>The invariant holds at every message\<close>

lemma handleSegment_invar:
  assumes "engine_invar (ee_max_window env) e" and "handleSegment env message now e w = (ok, e', w')"
  shows "engine_invar (ee_max_window env) e'"
  using assms
proof (cases rule: handleSegment_cases)
  case (acked e1)
  then show ?thesis
    using assms(1) engine_sendAck_same [of e1 env w] engine_same_invar engine_same_trans
    by (metis fst_conv snd_conv)
next
  case (refused e1 off p w1)
  then show ?thesis
    using assms(1) engine_fail_same [of e1 env FR_kSinkRejected w1] engine_same_invar engine_same_trans
    by (metis fst_conv)
qed (use assms in simp_all)

lemma handleSetup_invar:
  assumes "engine_invar (ee_max_window env) e" and "handleSetup env message now e w = (ok, e', w')"
  shows "engine_invar (ee_max_window env) e'"
  using assms
proof (cases rule: handleSetup_cases)
  case (acked e1)
  then show ?thesis
    using assms(1) engine_sendAck_same [of e1 env w] engine_same_invar engine_same_trans
    by (metis fst_conv snd_conv)
next
  case (rejected sid r)
  then show ?thesis
    using assms(1) engine_sendReject_same [of e env sid r w] engine_same_invar
    by (metis fst_conv snd_conv)
next
  case (refused info a w1 sid r)
  then show ?thesis
    using assms(1) engine_sendReject_same [of e env sid r w1] engine_same_invar
    by (metis fst_conv snd_conv)
next
  case (begun s w1)
  then show ?thesis
    using engine_begin_step(1) [OF assms(1) begun(6,5), of now]
      engine_sendAck_same [of "engine_begin (ee_max_window env) s now e" env w1] engine_same_invar
    by (metis fst_conv snd_conv)
qed (use assms in simp)

text \<open>The other control messages never touch the window.\<close>

lemma handleControl_same:
  assumes "t \<noteq> MT_kSetup" and "handleControl env message t now e w = (ok, e', w')"
  shows "engine_same e e'"
proof -
  have "engine_same e (fst (snd (handleProbe env message now e w)))"
    using engine_sendAck_same [of "e\<lparr>re_last_activity_ms := now\<rparr>" env w]
    by (auto simp: handleProbe_def split: option.splits)
  moreover have "engine_same e (fst (snd (handleAbort env message e w)))"
    by (auto simp: handleAbort_def engine_same_def split: option.splits)
  ultimately show ?thesis
    using assms by (cases t) (auto split: option.splits)
qed

lemma engine_process_invar:
  assumes "engine_invar (ee_max_window env) e"
  shows "engine_invar (ee_max_window env) (fst (snd (engine_process env message now e w)))"
proof -
  obtain r0 e0 w0 where p: "engine_poll env now e w = (r0, e0, w0)" by (metis prod_cases3)
  have "engine_same e e0" using engine_poll_same [of e env now w] p by simp
  then have e0: "engine_invar (ee_max_window env) (e0\<lparr>re_last_send := SR_kSent\<rparr>)" "engine_invar (ee_max_window env) e0"
    using assms engine_same_invar by (metis engine_same_updates(2))+
  have "engine_invar (ee_max_window env) e2"
    if "engine_handle env message t now (e0\<lparr>re_last_send := SR_kSent\<rparr>) w0 = (ok, e2, w2)" for t ok e2 w2
  proof (cases "t = MT_kSegment \<or> t = MT_kSetup")
    case True
    then show ?thesis
      using that handleSegment_invar [OF e0(1)] handleSetup_invar [OF e0(1)] by (auto simp: engine_handle_def)
  next
    case False
    then show ?thesis
      using that handleControl_same [of t env message now "e0\<lparr>re_last_send := SR_kSent\<rparr>" w0] e0(2) engine_same_invar
      by (auto simp: engine_handle_def)
  qed
  then show ?thesis
    using p e0 by (auto simp: engine_process_def Let_def split: option.splits prod.splits)
qed

lemma engine_abort_invar:
  assumes "engine_invar (ee_max_window env) e"
  shows "engine_invar (ee_max_window env) (fst (snd (engine_abort env e w)))"
proof -
  have "engine_same e (fst (snd (engine_abort env e w)))"
    using engine_sendAbort_same [of e env w]
    by (auto simp: engine_abort_def engine_same_def split: prod.splits)
  then show ?thesis using assms by (rule engine_same_invar)
qed

text \<open>A complete transfer has received every segment, and only a complete one has.\<close>

lemma completed_iff_all_received:
  assumes "engine_invar m e" and "re_state e \<in> {TS_kActive, TS_kCompleted}"
  shows "re_state e = TS_kCompleted \<longleftrightarrow> engine_received e = {..unat (su_final_segment_index (re_setup e))}"
proof -
  let ?c = "unat (re_contiguous_count e)" and ?n = "unat (re_segment_count e)"
  have inv: "window_invar e" "re_state e = TS_kCompleted \<longleftrightarrow> re_contiguous_count e = re_segment_count e"
    using assms by (auto simp: engine_invar_def)
  then have n: "?n = unat (su_final_segment_index (re_setup e)) + 1"
    by (simp add: window_invar_def unat_setupSegmentCount)
  have b: "engine_received e \<subseteq> {..<?n}"
    using received_bound [OF inv(1)] inv(1) by (auto simp: window_invar_def)
  have miss: "?c \<notin> engine_received e"
    using inv(1) by (auto simp: engine_received_def window_invar_def)
  have "re_contiguous_count e = re_segment_count e \<longleftrightarrow> ?c = ?n" by (simp add: unat_eq_iff)
  also have "\<dots> \<longleftrightarrow> engine_received e = {..<?n}"
  proof
    assume "?c = ?n"
    then show "engine_received e = {..<?n}" using b by (auto simp: engine_received_def)
  next
    assume "engine_received e = {..<?n}"
    then show "?c = ?n" using miss inv(1) by (auto simp: window_invar_def)
  qed
  finally show ?thesis using inv(2) n by (simp add: lessThan_Suc_atMost)
qed

text \<open>A segment already held is answered by an ACK alone.\<close>

lemma received_ack_only:
  assumes inv: "engine_invar m e" and st: "re_state e \<in> {TS_kActive, TS_kCompleted}"
    and i: "unat index \<in> engine_received e"
  shows "engine_segment_ack_only m index e" and "index < re_granted_end e"
proof -
  have w: "window_invar e" "unat (ec_receive_window_width (re_config e)) \<le> m" "m \<le> 16"
    using inv st by (auto simp: engine_invar_def)
  show "index < re_granted_end e" using received_bound [OF w(1)] i by (auto simp: word_less_nat_alt)
  show "engine_segment_ack_only m index e"
  proof (cases "unat index < unat (re_contiguous_count e)")
    case True
    then show ?thesis by (simp add: engine_segment_ack_only_def word_less_nat_alt)
  next
    case False
    then obtain j where j: "unat index = unat (re_contiguous_count e) + j" "bit (re_receive_bitmap e) j"
      using i by (auto simp: engine_received_def)
    then have "m \<noteq> 1" using inv by (auto simp: engine_invar_def)
    moreover have "unat (index - re_contiguous_count e) = j" using j False by (simp add: unat_sub_le)
    moreover have "j < LENGTH(16)" using j(2) bit_imp_le_length by blast
    ultimately show ?thesis
      using segment_bit_test [of j "re_receive_bitmap e"] j(2) by (simp add: engine_segment_ack_only_def Let_def)
  qed
qed

lemma handleSegment_duplicate:
  assumes inv: "engine_invar (ee_max_window env) e" and st: "re_state e \<in> {TS_kActive, TS_kCompleted}"
    and dec: "decodeSegmentHeaderKnownType message = Some h" and sid: "sh_session_id h = su_session_id (re_setup e)"
    and rec: "unat (sh_segment_index h) \<in> engine_received e"
    and len: "length message = 4 + setup_segment_length (re_setup e) (unat (sh_segment_index h))"
  shows "handleSegment env message now e w = engine_sendAck env (e\<lparr>re_last_activity_ms := now\<rparr>) w"
proof -
  let ?x = "ucast (sh_segment_index h) :: u32" and ?e1 = "e\<lparr>re_last_activity_ms := now\<rparr>"
  have x: "unat ?x = unat (sh_segment_index h)" by (simp add: unat_ucast_up)
  have inv1: "engine_invar (ee_max_window env) ?e1" using inv engine_same_invar [of e ?e1] by simp
  have "engine_received ?e1 = engine_received e" by (simp add: engine_received_def)
  then have ack: "engine_segment_ack_only (ee_max_window env) ?x ?e1" "?x < re_granted_end e"
    using received_ack_only [OF inv1, of ?x] st rec x by auto
  moreover have "\<not> re_segment_count e \<le> ?x"
    using ack(2) inv st by (auto simp: engine_invar_def window_invar_def word_less_nat_alt word_le_nat_alt)
  moreover have "length (subspan_from message kSegmentHeaderSize) =
      unat (if sh_segment_index h = su_final_segment_index (re_setup e) then su_final_segment_size (re_setup e)
            else su_segment_size (re_setup e))"
    using len by (auto simp: subspan_from_def bits_sizes setup_segment_length_def unat_eq_iff)
  ultimately show ?thesis
    using st dec sid unfolding handleSegment_def by (auto simp: Let_def)
qed

text \<open>What an attempt to acknowledge changes, and that it never calls the sink.\<close>

lemma engine_sendAck_effect:
  assumes "engine_sendAck env e w = (r, e', w')"
  shows "e' = e\<lparr>re_last_send := re_last_send e', re_state := if \<not> r \<and> re_state e = TS_kActive then TS_kError else re_state e\<rparr>"
    and "r \<longleftrightarrow> re_last_send e' \<in> {SR_kSent, SR_kFull}"
proof -
  have "e' = e\<lparr>re_last_send := re_last_send e', re_state := if \<not> r \<and> re_state e = TS_kActive then TS_kError else re_state e\<rparr>
      \<and> (r \<longleftrightarrow> re_last_send e' \<in> {SR_kSent, SR_kFull})"
    using assms by (cases e) (auto simp: engine_sendAck_def engine_sendPrepared_def engine_fail_def Let_def split: prod.splits if_splits)
  then show "e' = e\<lparr>re_last_send := re_last_send e', re_state := if \<not> r \<and> re_state e = TS_kActive then TS_kError else re_state e\<rparr>"
    and "r \<longleftrightarrow> re_last_send e' \<in> {SR_kSent, SR_kFull}" by auto
qed

lemma engine_sendAck_sink:
  "engine_sendAck (env\<lparr>ee_onSegment := f, ee_onTransferComplete := g\<rparr>) e w = engine_sendAck env e w"
  by (simp add: engine_sendAck_def engine_sendPrepared_def engine_fail_def Let_def split: prod.splits)

end
