(* ===== verification/Bits_Transfer.thy ===== *)
theory Bits_Transfer
  imports Bits_Invariant
begin

section \<open>Reassembly of a BITS object\<close>

text \<open>
  What the receiver engine promises its sink: whatever the order, duplication or loss of the
  messages, a transfer the engine reports complete has written every byte of the object.
  The sink is the interface \<open>object_sink\<close>: the bytes it holds, the size \<open>room\<close> its storage is
  declared with, the law of its \<^verbatim>\<open>onSegment\<close>, and that no other callback or send touches
  those bytes.
\<close>

subsection \<open>Objects and messages\<close>

text \<open>Segment \<open>i\<close> of an object cut by a SETUP.\<close>

definition object_segment :: "Setup \<Rightarrow> bytes \<Rightarrow> nat \<Rightarrow> bytes" where
  "object_segment s obj i =
     subspan obj (i * unat (su_segment_size s)) (setup_segment_length s i)"

text \<open>
  A message of the transfer of \<open>obj\<close> under \<open>s\<close>: any SETUP in it is \<open>s\<close>, and any SEGMENT of
  the session carries the bytes of the object.  Every other message is free.
\<close>

definition honest_message :: "Setup \<Rightarrow> bytes \<Rightarrow> bytes \<Rightarrow> bool" where
  "honest_message s obj message \<longleftrightarrow>
     (case decodeSetup message of None \<Rightarrow> True | Some s' \<Rightarrow> s' = s)
     \<and> (case decodeSegmentHeader message of None \<Rightarrow> True
        | Some h \<Rightarrow> sh_session_id h = su_session_id s
            \<and> unat (sh_segment_index h) \<le> unat (su_final_segment_index s)
            \<longrightarrow> drop 4 message = object_segment s obj (unat (sh_segment_index h)))"

datatype engine_event = EvMessage bytes u32 | EvPoll u32 | EvAbort | EvDatagram bytes

fun engine_step :: "'w EngineEnv \<Rightarrow> engine_event \<Rightarrow> BitsReceiverEngine \<times> 'w \<Rightarrow> BitsReceiverEngine \<times> 'w" where
  "engine_step env (EvMessage message now) (e, w) = snd (engine_process env message now e w)"
| "engine_step env (EvPoll now) (e, w) = snd (engine_poll env now e w)"
| "engine_step env EvAbort (e, w) = snd (engine_abort env e w)"
| "engine_step env (EvDatagram payload) (e, w) = (e, snd (engine_sendDatagram env payload w))"

definition engine_run ::
  "'w EngineEnv \<Rightarrow> engine_event list \<Rightarrow> BitsReceiverEngine \<times> 'w \<Rightarrow> BitsReceiverEngine \<times> 'w" where
  "engine_run env events s = fold (engine_step env) events s"

fun honest_event :: "Setup \<Rightarrow> bytes \<Rightarrow> engine_event \<Rightarrow> bool" where
  "honest_event s obj (EvMessage message now) = honest_message s obj message"
| "honest_event s obj (EvPoll now) = True"
| "honest_event s obj EvAbort = True"
| "honest_event s obj (EvDatagram payload) = True"

lemma engine_step_invar:
  assumes "engine_invar (ee_max_window env) (fst s)"
  shows "engine_invar (ee_max_window env) (fst (engine_step env ev s))"
proof -
  obtain e w where s: "s = (e, w)" by fastforce
  show ?thesis
    using assms engine_process_invar [of env e] engine_abort_invar [of env e w]
      engine_same_invar [OF engine_poll_same]
    by (cases ev) (simp_all add: s)
qed

lemma engine_run_invar:
  "engine_invar (ee_max_window env) e \<Longrightarrow> engine_invar (ee_max_window env) (fst (engine_run env events (e, w)))"
  unfolding engine_run_def
  by (rule fold_invariant [where P = "\<lambda>s. engine_invar (ee_max_window env) (fst s)" and Q = "\<lambda>_. True"])
    (simp_all add: engine_step_invar)

subsection \<open>Writing and reading segments\<close>

lemma length_object_segment:
  assumes "setup_valid s" and "length obj = unat (setupTotalSize s)" and "i \<le> unat (su_final_segment_index s)"
  shows "length (object_segment s obj i) = setup_segment_length s i"
  using segment_end_le_total [OF assms(1,3)] assms(2) by (simp add: object_segment_def)

lemma segment_length_le: "setup_valid s \<Longrightarrow> setup_segment_length s i \<le> unat (su_segment_size s)"
  by (simp add: setup_valid_def setup_segment_length_def word_le_nat_alt)

lemma object_segment_write_same:
  assumes "i * unat (su_segment_size s) + length p \<le> length m" and "length p = setup_segment_length s i"
  shows "object_segment s (span_write (i * unat (su_segment_size s)) p m) i = p"
  using assms by (metis object_segment_def subspan_span_write)

lemma object_segment_write_other:
  assumes v: "setup_valid s" and ij: "i \<noteq> j"
    and fit: "i * unat (su_segment_size s) + length p \<le> length m" and len: "length p = setup_segment_length s i"
  shows "object_segment s (span_write (i * unat (su_segment_size s)) p m) j = object_segment s m j"
proof -
  let ?z = "unat (su_segment_size s)"
  have le: "setup_segment_length s k \<le> ?z" for k using v by (rule segment_length_le)
  have disj: "j * ?z + setup_segment_length s j \<le> i * ?z \<or> i * ?z + length p \<le> j * ?z"
  proof (cases "i < j")
    case True
    then have "(i + 1) * ?z \<le> j * ?z" by (intro mult_le_mono1) auto
    then show ?thesis using le [of i] len by simp
  next
    case False
    then have "(j + 1) * ?z \<le> i * ?z" using ij by (intro mult_le_mono1) auto
    then show ?thesis using le [of j] by simp
  qed
  show ?thesis
    unfolding object_segment_def
  proof (rule nth_equalityI)
    fix k assume "k < length (subspan (span_write (i * ?z) p m) (j * ?z) (setup_segment_length s j))"
    then have k: "k < setup_segment_length s j" "j * ?z + k < length m" using fit by auto
    then show "subspan (span_write (i * ?z) p m) (j * ?z) (setup_segment_length s j) ! k
        = subspan m (j * ?z) (setup_segment_length s j) ! k"
      using fit disj by (auto simp: nth_subspan nth_span_write)
  qed (use fit in simp)
qed

text \<open>An object is determined by its segments.\<close>

lemma object_of_segments:
  assumes v: "setup_valid s" and len: "length obj = unat (setupTotalSize s)"
    and seg: "\<And>i. i \<le> unat (su_final_segment_index s) \<Longrightarrow> object_segment s m i = object_segment s obj i"
  shows "take (length obj) m = obj"
proof -
  let ?z = "unat (su_segment_size s)" and ?f = "unat (su_final_segment_index s)"
  have z: "0 < ?z" using v by (auto simp: setup_valid_def word_le_nat_alt word_less_nat_alt)
  have total: "length obj = ?f * ?z + unat (su_final_segment_size s)"
    using len by (simp add: unat_setupTotalSize)
  have "length (object_segment s m ?f) = setup_segment_length s ?f"
    using seg [of ?f] length_object_segment [OF v len] by simp
  then have "unat (su_final_segment_size s) \<le> length m - ?f * ?z"
    by (simp add: object_segment_def setup_segment_length_def)
  moreover have "0 < unat (su_final_segment_size s)" using v by (simp add: setup_valid_def word_less_nat_alt)
  ultimately have m: "length obj \<le> length m" using total by linarith
  show ?thesis
  proof (rule nth_equalityI)
    show "length (take (length obj) m) = length obj" using m by simp
    fix k assume k: "k < length (take (length obj) m)"
    then have kt: "k < length obj" using m by simp
    have "k < (?f + 1) * ?z"
      using kt total v by (simp add: setup_valid_def word_le_nat_alt)
    then have "k div ?z < ?f + 1" by (rule less_mult_imp_div_less)
    then have i: "k div ?z \<le> ?f" by simp
    have kk: "k div ?z * ?z + k mod ?z = k" by simp
    have r: "k mod ?z < setup_segment_length s (k div ?z)"
    proof (cases "k div ?z = ?f")
      case True
      then have "?f * ?z + k mod ?z < ?f * ?z + unat (su_final_segment_size s)" using kk kt total by metis
      with True show ?thesis by (simp add: setup_segment_length_def)
    qed (use z in \<open>simp add: setup_segment_length_def\<close>)
    have "m ! k = object_segment s m (k div ?z) ! (k mod ?z)"
      unfolding object_segment_def using r kt m kk by (subst nth_subspan) simp_all
    also have "\<dots> = object_segment s obj (k div ?z) ! (k mod ?z)" using seg [OF i] by simp
    also have "\<dots> = obj ! k"
      unfolding object_segment_def using r kt kk by (subst nth_subspan) simp_all
    finally show "take (length obj) m ! k = obj ! k" using kt by simp
  qed
qed

subsection \<open>The sink interface\<close>

locale object_sink =
  fixes env :: "'w EngineEnv" and sink :: "'w \<Rightarrow> bytes" and room :: nat
  assumes window_limits: "1 \<le> ee_max_window env" "ee_max_window env \<le> 16"
    and onSegment_ok: "ee_onSegment env off p w = (True, w') \<Longrightarrow> unat off + length p < 2 ^ 32 \<Longrightarrow>
      room \<le> length (sink w) \<Longrightarrow> unat off + length p \<le> length (sink w) \<and> sink w' = span_write (unat off) p (sink w)"
    and onSegment_no: "ee_onSegment env off p w = (False, w') \<Longrightarrow> sink w' = sink w"
    and begin_keeps: "sink (snd (ee_beginTransfer env info w)) = sink w"
    and failed_keeps: "sink (ee_onTransferFailed env reason w) = sink w"
    and datagram_keeps: "sink (ee_onDatagram env payload w) = sink w"
    and complete_keeps: "sink (ee_onTransferComplete env w) = sink w"
    and aborted_keeps: "sink (ee_onTransferAborted env areason w) = sink w"
    and prepare_keeps: "sink (snd (ee_prepare env sz w)) = sink w"
    and store_keeps: "sink (ee_store env bs w) = sink w"
    and send_keeps: "sink (snd (ee_sendPrepared env w)) = sink w"
begin

lemma prepared: "ee_prepare env sz w = (st, w') \<Longrightarrow> sink w' = sink w"
  using prepare_keeps [of sz w] by simp

lemma sent: "ee_sendPrepared env w = (r, w') \<Longrightarrow> sink w' = sink w"
  using send_keeps [of w] by simp

lemma sink_begun: "ee_beginTransfer env info w = (a, w') \<Longrightarrow> sink w' = sink w"
  using begin_keeps [of info w] by simp

lemma fail_sink [simp]: "sink (snd (engine_fail env r e w)) = sink w"
  by (simp add: engine_fail_def failed_keeps)

lemma sendPrepared_sink [simp]: "sink (snd (snd (engine_sendPrepared env e w))) = sink w"
  by (auto simp: engine_sendPrepared_def sent split: prod.splits)

lemma sendAck_sink [simp]: "sink (snd (snd (engine_sendAck env e w))) = sink w"
  by (auto simp: engine_sendAck_def engine_sendPrepared_def prepared sent store_keeps Let_def
      split: prod.splits)

lemma sendReject_sink [simp]: "sink (snd (snd (engine_sendReject env sid r e w))) = sink w"
  by (auto simp: engine_sendReject_def engine_sendPrepared_def prepared sent store_keeps Let_def
      split: prod.splits)

lemma sendAbort_sink [simp]: "sink (snd (snd (engine_sendAbort env e w))) = sink w"
  by (auto simp: engine_sendAbort_def engine_sendPrepared_def prepared sent store_keeps Let_def
      split: prod.splits)

lemma sendDatagram_sink [simp]: "sink (snd (engine_sendDatagram env payload w)) = sink w"
  by (auto simp: engine_sendDatagram_def prepared send_keeps store_keeps Let_def split: prod.splits)

lemma sendAck_sinkD: "engine_sendAck env e w = (r, e', w') \<Longrightarrow> sink w' = sink w"
  by (metis sendAck_sink snd_conv)

lemma sendAbort_sinkD: "engine_sendAbort env e w = (r, e', w') \<Longrightarrow> sink w' = sink w"
  by (metis sendAbort_sink snd_conv)

lemma accept_sink:
  "engine_accept_segment env b p e w = (r, e', w') \<Longrightarrow> sink w' = sink w"
  using sendAck_sinkD complete_keeps unfolding engine_accept_segment_def Let_def by (metis (no_types))

subsection \<open>Reassembly\<close>

definition transfer_ok :: "Setup \<Rightarrow> bytes \<Rightarrow> BitsReceiverEngine \<Rightarrow> 'w \<Rightarrow> bool" where
  "transfer_ok s obj e w \<longleftrightarrow> room \<le> length (sink w) \<and> (re_state e \<in> {TS_kActive, TS_kCompleted} \<longrightarrow> re_setup e = s
     \<and> (\<forall>i \<in> engine_received e. object_segment s (sink w) i = object_segment s obj i))"

lemma same_transfer_ok:
  "engine_same e e' \<Longrightarrow> sink w' = sink w \<Longrightarrow> transfer_ok s obj e w \<Longrightarrow> transfer_ok s obj e' w'"
  by (auto simp: transfer_ok_def engine_same_received) (auto simp: engine_same_def)

lemma handleSegment_transfer_ok:
  assumes inv: "engine_invar (ee_max_window env) e" and ok: "transfer_ok s obj e w"
    and v: "setup_valid s" and len: "length obj = unat (setupTotalSize s)"
    and msg: "honest_message s obj message" "hasType message MT_kSegment"
    and h: "handleSegment env message now e w = (r, e', w')"
  shows "transfer_ok s obj e' w'"
  using inv h
proof (cases rule: handleSegment_cases)
  case (acked e1)
  then have "engine_same e e'" "sink w' = sink w"
    using engine_sendAck_same [of e1 env w] sendAck_sink [of e1 w] engine_same_trans by auto
  then show ?thesis using ok by (rule same_transfer_ok)
next
  case (refused e1 off p w1)
  then have "engine_same e e'" "sink w' = sink w"
    using engine_fail_same [of e1 env FR_kSinkRejected w1] fail_sink [of FR_kSinkRejected e1 w1]
      engine_same_trans onSegment_no by auto
  then show ?thesis using ok by (rule same_transfer_ok)
next
  case (accepted hdr w1 e1)
  let ?i = "unat (sh_segment_index hdr)" and ?z = "unat (su_segment_size s)"
  have s: "re_setup e = s" "\<forall>i \<in> engine_received e. object_segment s (sink w) i = object_segment s obj i"
    using ok accepted(3) by (auto simp: transfer_ok_def)
  have p: "drop 4 message = object_segment s obj ?i"
    using msg accepted(1,2,4) s(1) by (auto simp: honest_message_def decodeSegmentHeader_def split: option.splits)
  have end_le: "?i * ?z + length (drop 4 message) \<le> unat (setupTotalSize s)"
    using segment_end_le_total [OF v] accepted(4,6) s(1) by simp
  then have b32: "?i * ?z + length (drop 4 message) < 2 ^ 32"
    using unsigned_less [of "setupTotalSize s", where ?'a = nat] by simp
  then have off: "unat (of_nat (?i * ?z) :: u32) = ?i * ?z"
    by (simp add: unat_of_nat take_bit_nat_eq_self del: of_nat_mult)
  have w1: "?i * ?z + length (drop 4 message) \<le> length (sink w)"
    "sink w1 = span_write (?i * ?z) (drop 4 message) (sink w)"
    using onSegment_ok [OF accepted(7)] s(1) off b32 ok by (simp_all add: transfer_ok_def)
  have w': "sink w' = span_write (?i * ?z) (drop 4 message) (sink w)"
    using accepted(11) accept_sink w1(2) by auto
  have plen: "length (drop 4 message) = setup_segment_length s ?i" using accepted(6) s(1) by simp
  have "object_segment s (sink w') j = object_segment s obj j" if "j \<in> insert ?i (engine_received e)" for j
  proof (cases "j = ?i")
    case True
    show ?thesis unfolding w' True object_segment_write_same [OF w1(1) plen] by (rule p)
  next
    case False
    then have "object_segment s (sink w') j = object_segment s (sink w) j"
      unfolding w' by (intro object_segment_write_other [OF v _ w1(1) plen]) simp
    with False that s(2) show ?thesis by simp
  qed
  then show ?thesis using accepted(9,10) s(1) ok w1(1) unfolding transfer_ok_def by (simp add: w')
qed (use ok in simp)

lemma handleSetup_transfer_ok:
  assumes inv: "engine_invar (ee_max_window env) e" and ok: "transfer_ok s obj e w"
    and msg: "honest_message s obj message" "hasType message MT_kSetup"
    and h: "handleSetup env message now e w = (r, e', w')"
  shows "transfer_ok s obj e' w'"
  using inv h
proof (cases rule: handleSetup_cases)
  case (acked e1)
  then have "engine_same e e'" "sink w' = sink w"
    using engine_sendAck_same [of e1 env w] sendAck_sink [of e1 w] engine_same_trans by auto
  then show ?thesis using ok by (rule same_transfer_ok)
next
  case (rejected sid rr)
  then have "engine_same e e'" "sink w' = sink w"
    using engine_sendReject_same [of e env sid rr w] sendReject_sink [of sid rr e w] by auto
  then show ?thesis using ok by (rule same_transfer_ok)
next
  case (refused info a w1 sid rr)
  then have "engine_same e e'" "sink w' = sink w"
    using engine_sendReject_same [of e env sid rr w1] sendReject_sink [of sid rr e w1] sink_begun by auto
  then show ?thesis using ok by (rule same_transfer_ok)
next
  case (begun s' w1)
  have "s' = s"
    using begun(1) msg by (auto simp: honest_message_def decodeSetup_def split: option.splits)
  then have "transfer_ok s obj (engine_begin (ee_max_window env) s' now e) w1"
    using engine_begin_step [OF inv begun(6,5), of now] ok sink_begun [OF begun(3)]
    by (simp add: transfer_ok_def)
  moreover have "engine_same (engine_begin (ee_max_window env) s' now e) e'" "sink w' = sink w1"
    using begun(4) engine_sendAck_same [of "engine_begin (ee_max_window env) s' now e" env w1]
      sendAck_sink [of "engine_begin (ee_max_window env) s' now e" w1] by auto
  ultimately show ?thesis using same_transfer_ok by blast
qed (use ok in simp)

lemma handleControl_sink:
  assumes "t \<noteq> MT_kSetup" and "handleControl env message t now e w = (r, e', w')"
  shows "sink w' = sink w"
proof -
  have "sink (snd (snd (handleProbe env message now e w))) = sink w"
    by (auto simp: handleProbe_def split: option.splits)
  moreover have "sink (snd (snd (handleAbort env message e w))) = sink w"
    by (auto simp: handleAbort_def aborted_keeps split: option.splits)
  ultimately show ?thesis
    using assms by (cases t) (auto simp: datagram_keeps split: option.splits)
qed

lemma poll_transfer_ok:
  "transfer_ok s obj e w \<Longrightarrow> engine_poll env now e w = (r, e', w') \<Longrightarrow> transfer_ok s obj e' w'"
  using same_transfer_ok [of e e' w' w] engine_poll_same [of e env now w]
  by (auto simp: engine_poll_def split: if_splits) (metis fail_sink fst_conv snd_conv)+

lemma step_transfer_ok:
  assumes inv: "engine_invar (ee_max_window env) e" and ok: "transfer_ok s obj e w"
    and v: "setup_valid s" and len: "length obj = unat (setupTotalSize s)"
    and hon: "honest_event s obj ev" and st: "engine_step env ev (e, w) = (e', w')"
  shows "engine_invar (ee_max_window env) e' \<and> transfer_ok s obj e' w'"
proof (cases ev)
  case (EvMessage message now)
  obtain r0 e0 w0 where p: "engine_poll env now e w = (r0, e0, w0)" by (metis prod_cases3)
  let ?e1 = "e0\<lparr>re_last_send := SR_kSent\<rparr>"
  have same0: "engine_same e e0" using engine_poll_same [of e env now w] p by simp
  then have inv1: "engine_invar (ee_max_window env) ?e1" using inv engine_same_invar engine_same_updates(2) by blast
  have ok0: "transfer_ok s obj e0 w0" using ok p by (rule poll_transfer_ok)
  then have ok1: "transfer_ok s obj ?e1 w0" by (rule same_transfer_ok [rotated 2]) simp_all
  have hm: "honest_message s obj message" using hon EvMessage by simp
  have handled: "transfer_ok s obj e2 w2"
    if "engine_handle env message t now ?e1 w0 = (r, e2, w2)" "hasType message t" for t r e2 w2
  proof (cases "t = MT_kSegment \<or> t = MT_kSetup")
    case True
    then show ?thesis
      using that handleSegment_transfer_ok [OF inv1 ok1 v len hm] handleSetup_transfer_ok [OF inv1 ok1 hm]
      by (auto simp: engine_handle_def)
  next
    case False
    then have c: "handleControl env message t now ?e1 w0 = (r, e2, w2)" "t \<noteq> MT_kSetup"
      using that by (auto simp: engine_handle_def)
    show ?thesis
      using same_transfer_ok [OF handleControl_same [OF c(2,1)] handleControl_sink [OF c(2,1)] ok1] .
  qed
  have "transfer_ok s obj e' w'"
    using st EvMessage p ok0 ok1 handled
    by (auto simp: engine_process_def hasType_def Let_def split: option.splits prod.splits if_splits)
  moreover have "engine_invar (ee_max_window env) e'"
    using engine_process_invar [OF inv, of message now w] st EvMessage by simp
  ultimately show ?thesis by blast
next
  case (EvPoll now)
  then have "engine_poll env now e w = (fst (engine_poll env now e w), e', w')"
    using st by (cases "engine_poll env now e w") simp
  then show ?thesis
    using poll_transfer_ok [OF ok] engine_same_invar [OF engine_poll_same inv] by (metis fst_conv snd_conv)
next
  case EvAbort
  have "sink (snd (snd (engine_abort env e w))) = sink w"
    by (auto simp: engine_abort_def aborted_keeps dest: sendAbort_sinkD split: prod.splits)
  moreover have "engine_same e (fst (snd (engine_abort env e w)))"
    using engine_sendAbort_same [of e env w]
    by (auto simp: engine_abort_def engine_same_def split: prod.splits)
  ultimately show ?thesis
    using st EvAbort ok engine_abort_invar [OF inv, of w] same_transfer_ok [of e e' w' w] by auto
next
  case (EvDatagram payload)
  then show ?thesis using st inv ok same_transfer_ok [of e e w' w] by auto
qed

theorem run_transfer_ok:
  assumes "engine_invar (ee_max_window env) e" and "transfer_ok s obj e w"
    and "setup_valid s" and "length obj = unat (setupTotalSize s)"
    and "\<forall>ev \<in> set events. honest_event s obj ev" and "engine_run env events (e, w) = (e', w')"
  shows "engine_invar (ee_max_window env) e' \<and> transfer_ok s obj e' w'"
  using assms
proof (induction events arbitrary: e w)
  case (Cons ev events)
  obtain e1 w1 where s1: "engine_step env ev (e, w) = (e1, w1)" by fastforce
  have "engine_invar (ee_max_window env) e1 \<and> transfer_ok s obj e1 w1"
    using Cons.prems s1 by (intro step_transfer_ok) auto
  with Cons s1 show ?case by (auto simp: engine_run_def)
qed (simp add: engine_run_def)

text \<open>A receiver that started idle and reports completion holds the object.\<close>

lemma completed_object_state:
  assumes "setup_valid s" and "length obj = unat (setupTotalSize s)"
    and inv: "engine_invar (ee_max_window env) e" and ok: "transfer_ok s obj e w"
    and "re_state e = TS_kCompleted"
  shows "take (length obj) (sink w) = obj"
proof -
  have "engine_received e = {..unat (su_final_segment_index s)}"
    "\<forall>i \<in> engine_received e. object_segment s (sink w) i = object_segment s obj i"
    using completed_iff_all_received [OF inv] ok assms(5) by (auto simp: transfer_ok_def)
  then show ?thesis using object_of_segments [OF assms(1,2), of "sink w"] by auto
qed

lemma completed_object:
  assumes "setup_valid s" and "length obj = unat (setupTotalSize s)" and "room \<le> length (sink w)"
    and "\<forall>ev \<in> set events. honest_event s obj ev"
    and "engine_run env events (BitsReceiverEngine_init (ee_max_window env) config, w) = (e', w')"
    and "re_state e' = TS_kCompleted"
  shows "take (length obj) (sink w') = obj"
proof -
  have "transfer_ok s obj (BitsReceiverEngine_init (ee_max_window env) config) w"
    using assms(3) by (simp add: transfer_ok_def BitsReceiverEngine_init_def)
  with assms engine_invar_init [OF window_limits, of config]
  have "engine_invar (ee_max_window env) e'" "transfer_ok s obj e' w'"
    using run_transfer_ok by blast+
  with assms show ?thesis using completed_object_state by blast
qed

end

end
