(* ===== verification/Bits_Endpoint.thy ===== *)
theory Bits_Endpoint
  imports Bits_Transfer Routing
begin

section \<open>The BITS receiver endpoint\<close>

text \<open>
  The receiving half of \<^verbatim>\<open>transports/bits/bits.cpp\<close>: bounded ingress storage in front of
  the engine, and the packet sender the engine uses.  The engine acts on a pair of the
  endpoint's transmit packet and the rest of the memory, since a callback may send a
  datagram itself.  A null slot pointer is \<open>None\<close>; distinct slots are distinct buffers.
\<close>

subsection \<open>Shared helpers\<close>

definition sendResult :: "RouteResult \<Rightarrow> SendResult" where
  "sendResult r = (case r of RR_kAccepted \<Rightarrow> SR_kSent | RR_kPartial \<Rightarrow> SR_kPartial
     | RR_kFull \<Rightarrow> SR_kFull | RR_kTooLarge \<Rightarrow> SR_kTooLarge | RR_kRejected \<Rightarrow> SR_kRejected
     | _ \<Rightarrow> SR_kNoRoute)"

definition matchesConnection :: "PacketBuffer \<Rightarrow> ConnectionAddress \<Rightarrow> bool" where
  "matchesConnection packet connection =
     (let header = pb_header packet
      in hasSupportedControl header \<and> Header_transportType header = kBits
         \<and> h_wire header = ca_wire connection \<and> h_source header = ca_remote_host connection
         \<and> h_destination header = ca_local_host connection \<and> h_endpoint header = ca_endpoint connection)"

definition copyPacket :: "PacketBuffer \<Rightarrow> PacketBuffer \<Rightarrow> bool \<times> PacketBuffer" where
  "copyPacket source destination =
     (case resize (pb_size source) destination of
        (False, d1) \<Rightarrow> (False, d1)
      | (True, d1) \<Rightarrow>
          (let d2 = d1\<lparr>pb_header := pb_header source\<rparr>
           in (True, if 0 < pb_size source then write_payload 0 (payload source) d2 else d2)))"

subsection \<open>Configuration from the slots\<close>

fun receiverEngineConfig_loop :: "PacketBuffer option list \<Rightarrow> u8 \<Rightarrow> u16 \<Rightarrow> u8 \<times> u16" where
  "receiverEngineConfig_loop [] window_width maximum_segment_size = (window_width, maximum_segment_size)"
| "receiverEngineConfig_loop (None # slots) window_width maximum_segment_size =
     receiverEngineConfig_loop slots window_width maximum_segment_size"
| "receiverEngineConfig_loop (Some slot # slots) window_width maximum_segment_size =
     (let slot_segment_size = (if of_nat kSegmentHeaderSize \<le> pb_capacity slot
                               then pb_capacity slot - of_nat kSegmentHeaderSize else 0)
      in receiverEngineConfig_loop slots (window_width + 1)
           (if slot_segment_size < maximum_segment_size then slot_segment_size else maximum_segment_size))"

definition receiverEngineConfig :: "PacketBuffer option list \<Rightarrow> u32 \<Rightarrow> ReceiverEngineConfig" where
  "receiverEngineConfig segment_ingress inactivity_timeout_ms =
     (case receiverEngineConfig_loop (take kCompactWindowWidth segment_ingress) 0 0xFFFF of
        (window_width, maximum_segment_size) \<Rightarrow>
          \<lparr>ec_maximum_segment_size = (if window_width = 0 then 0 else maximum_segment_size),
           ec_receive_window_width = window_width, ec_maximum_object_size = 0xFFFFFFFF,
           ec_inactivity_timeout_ms = inactivity_timeout_ms\<rparr>)"

subsection \<open>The endpoint\<close>

record BitsReceiver =
  br_connection :: ConnectionAddress
  br_segment_ingress :: "PacketBuffer option list"
  br_datagram_ingress :: PacketBuffer
  br_segment_occupied_mask :: u16
  br_datagram_occupied :: bool
  br_engine :: BitsReceiverEngine

definition BitsReceiver_init ::
  "nat \<Rightarrow> ConnectionAddress \<Rightarrow> PacketBuffer option list \<Rightarrow> PacketBuffer \<Rightarrow> u32 \<Rightarrow> BitsReceiver" where
  "BitsReceiver_init max_window connection segment_ingress datagram_ingress inactivity_timeout_ms =
     \<lparr>br_connection = connection, br_segment_ingress = segment_ingress,
      br_datagram_ingress = datagram_ingress, br_segment_occupied_mask = 0,
      br_datagram_occupied = False,
      br_engine = BitsReceiverEngine_init max_window
        (receiverEngineConfig segment_ingress inactivity_timeout_ms)\<rparr>"

text \<open>The scan of \<^verbatim>\<open>receive\<close> for a free slot that can hold the packet.\<close>

fun BitsReceiver_slot_loop ::
  "PacketBuffer \<Rightarrow> nat \<Rightarrow> PacketBuffer option list \<Rightarrow> u16 \<Rightarrow> bool
    \<Rightarrow> ReceiveResult \<times> PacketBuffer option list \<times> u16" where
  "BitsReceiver_slot_loop packet index [] occ free_slot_seen =
     (if free_slot_seen then RX_kRejected else RX_kFull, [], occ)"
| "BitsReceiver_slot_loop packet index (slot # slots) occ free_slot_seen =
     (let skip = (\<lambda>seen. case BitsReceiver_slot_loop packet (index + 1) slots occ seen of
                     (r, slots1, occ1) \<Rightarrow> (r, slot # slots1, occ1))
      in case slot of None \<Rightarrow> skip free_slot_seen
         | Some p \<Rightarrow>
             if occ AND push_bit index 1 \<noteq> 0 then skip free_slot_seen
             else (case copyPacket packet p of
                 (True, p1) \<Rightarrow> (RX_kAccepted, Some p1 # slots, occ OR push_bit index 1)
               | (False, p1) \<Rightarrow> skip True))"

definition BitsReceiver_receive :: "PacketBuffer \<Rightarrow> BitsReceiver \<Rightarrow> ReceiveResult \<times> BitsReceiver" where
  "BitsReceiver_receive packet b =
     (if \<not> matchesConnection packet (br_connection b) \<or> payload packet = [] then (RX_kRejected, b)
      else (case decodeControl (payload packet ! 0) of None \<Rightarrow> (RX_kRejected, b)
        | Some control \<Rightarrow>
            if ct_type control \<noteq> MT_kSegment
            then if br_datagram_occupied b then (RX_kFull, b)
                 else (case copyPacket packet (br_datagram_ingress b) of
                     (False, d) \<Rightarrow> (RX_kRejected, b)
                   | (True, d) \<Rightarrow> (RX_kAccepted, b\<lparr>br_datagram_ingress := d, br_datagram_occupied := True\<rparr>))
            else (case BitsReceiver_slot_loop packet 0 (take kCompactWindowWidth (br_segment_ingress b))
                     (br_segment_occupied_mask b) False of
                   (r, slots, occ) \<Rightarrow>
                     (r, b\<lparr>br_segment_ingress := slots @ drop kCompactWindowWidth (br_segment_ingress b),
                           br_segment_occupied_mask := occ\<rparr>))))"

subsection \<open>The sender the engine uses\<close>

definition BitsReceiver_prepare ::
  "ConnectionAddress \<Rightarrow> u16 \<Rightarrow> PacketBuffer \<times> 'w \<Rightarrow> bytes \<times> PacketBuffer \<times> 'w" where
  "BitsReceiver_prepare connection payload_size s =
     (case initializeConnection payload_size connection (ControlFields_bits kNormal) (fst s) of
        (False, p) \<Rightarrow> ([], p, snd s)
      | (True, p) \<Rightarrow> (payload p, p, snd s))"

definition BitsReceiver_sendPrepared ::
  "(PacketBuffer \<Rightarrow> 'w \<Rightarrow> RouteResult \<times> 'w) \<Rightarrow> PacketBuffer \<times> 'w \<Rightarrow> SendResult \<times> PacketBuffer \<times> 'w" where
  "BitsReceiver_sendPrepared forward s =
     (case forward (fst s) (snd s) of (r, w) \<Rightarrow> (sendResult r, fst s, w))"

definition endpoint_env ::
  "ConnectionAddress \<Rightarrow> (PacketBuffer \<Rightarrow> 'w \<Rightarrow> RouteResult \<times> 'w)
    \<Rightarrow> (PacketBuffer \<times> 'w) EngineEnv \<Rightarrow> (PacketBuffer \<times> 'w) EngineEnv" where
  "endpoint_env connection forward callbacks =
     callbacks\<lparr>ee_prepare := BitsReceiver_prepare connection,
       ee_store := (\<lambda>bs s. (write_payload 0 bs (fst s), snd s)),
       ee_sendPrepared := BitsReceiver_sendPrepared forward\<rparr>"

subsection \<open>Processing\<close>

text \<open>The lowest occupied slot, if any; the loop of \<^verbatim>\<open>process\<close> stops at it.\<close>

fun BitsReceiver_first_occupied :: "u16 \<Rightarrow> nat list \<Rightarrow> nat option" where
  "BitsReceiver_first_occupied occ [] = None"
| "BitsReceiver_first_occupied occ (index # indices) =
     (if occ AND push_bit index 1 = 0 then BitsReceiver_first_occupied occ indices else Some index)"

definition slot_message :: "PacketBuffer option list \<Rightarrow> nat \<Rightarrow> bytes" where
  "slot_message slots index = (case slots ! index of None \<Rightarrow> [] | Some p \<Rightarrow> payload p)"

definition BitsReceiver_process_segment ::
  "'w EngineEnv \<Rightarrow> u32 \<Rightarrow> BitsReceiver \<Rightarrow> 'w \<Rightarrow> ProcessResult \<times> BitsReceiver \<times> 'w" where
  "BitsReceiver_process_segment env now_ms b w =
     (if br_segment_occupied_mask b = 0 then (PR_kIdle, b, w)
      else (case BitsReceiver_first_occupied (br_segment_occupied_mask b) [0..<kCompactWindowWidth] of
          None \<Rightarrow> (PR_kIdle, b, w)
        | Some index \<Rightarrow>
            (case engine_process env (slot_message (br_segment_ingress b) index) now_ms (br_engine b) w of
               (result, e, w1) \<Rightarrow>
                 (result, b\<lparr>br_segment_occupied_mask := br_segment_occupied_mask b AND NOT (push_bit index 1),
                    br_engine := e\<rparr>, w1))))"

definition BitsReceiver_process_datagram ::
  "'w EngineEnv \<Rightarrow> u32 \<Rightarrow> ProcessResult \<Rightarrow> BitsReceiver \<Rightarrow> 'w \<Rightarrow> ProcessResult \<times> BitsReceiver \<times> 'w" where
  "BitsReceiver_process_datagram env now_ms result b w =
     (if \<not> br_datagram_occupied b then (result, b, w)
      else (case engine_process env (payload (br_datagram_ingress b)) now_ms (br_engine b) w of
         (datagram_result, e, w1) \<Rightarrow>
           (if datagram_result = PR_kError \<or> result = PR_kError then PR_kError
            else if result = PR_kBlocked \<or> datagram_result = PR_kBlocked then PR_kBlocked
            else PR_kProgress,
            b\<lparr>br_engine := e, br_datagram_occupied := False\<rparr>, w1)))"

definition BitsReceiver_process ::
  "'w EngineEnv \<Rightarrow> u32 \<Rightarrow> BitsReceiver \<Rightarrow> 'w \<Rightarrow> ProcessResult \<times> BitsReceiver \<times> 'w" where
  "BitsReceiver_process env now_ms b w =
     (case engine_poll env now_ms (br_engine b) w of (polled, e, w1) \<Rightarrow>
        if polled = PR_kError
        then (PR_kError, b\<lparr>br_engine := e, br_segment_occupied_mask := 0, br_datagram_occupied := False\<rparr>, w1)
        else (case BitsReceiver_process_segment env now_ms (b\<lparr>br_engine := e\<rparr>) w1 of
          (result, b2, w2) \<Rightarrow> BitsReceiver_process_datagram env now_ms result b2 w2))"

definition BitsReceiver_sendDatagram :: "'w EngineEnv \<Rightarrow> bytes \<Rightarrow> 'w \<Rightarrow> SendResult \<times> 'w" where
  "BitsReceiver_sendDatagram env datagram w = engine_sendDatagram env datagram w"

definition BitsReceiver_abort ::
  "'w EngineEnv \<Rightarrow> BitsReceiver \<Rightarrow> 'w \<Rightarrow> SendResult \<times> BitsReceiver \<times> 'w" where
  "BitsReceiver_abort env b w =
     (case engine_abort env (br_engine b) w of (r, e, w1) \<Rightarrow> (r, b\<lparr>br_engine := e\<rparr>, w1))"

subsection \<open>Ingress never overwrites\<close>

lemma copyPacket_fst: "fst (copyPacket source p) \<longleftrightarrow> pb_size source \<le> pb_capacity p"
  by (auto simp: copyPacket_def resize_def Let_def not_less)

lemma copyPacket_failure: "\<not> fst (copyPacket source p) \<Longrightarrow> snd (copyPacket source p) = p"
  by (auto simp: copyPacket_def resize_def Let_def)

lemma copyPacket_success:
  assumes "packet_invar source" and "packet_invar p" and "pb_size source \<le> pb_capacity p"
  shows "payload (snd (copyPacket source p)) = payload source"
    and "pb_header (snd (copyPacket source p)) = pb_header source"
    and "pb_capacity (snd (copyPacket source p)) = pb_capacity p"
    and "packet_invar (snd (copyPacket source p))"
proof -
  have eq: "snd (copyPacket source p) = (if 0 < pb_size source
      then write_payload 0 (payload source) (p\<lparr>pb_size := pb_size source, pb_header := pb_header source\<rparr>)
      else p\<lparr>pb_size := pb_size source, pb_header := pb_header source\<rparr>)"
    using assms(3) by (simp add: copyPacket_def resize_def Let_def leD)
  have inv: "packet_invar (p\<lparr>pb_size := pb_size source, pb_header := pb_header source\<rparr>)"
    using assms(2,3) by (simp add: packet_invar_def)
  show "packet_invar (snd (copyPacket source p))" unfolding eq using inv assms(1) by simp
  show "pb_header (snd (copyPacket source p)) = pb_header source"
    "pb_capacity (snd (copyPacket source p)) = pb_capacity p" unfolding eq by simp_all
  show "payload (snd (copyPacket source p)) = payload source"
    unfolding eq using assms(1) inv
    by (auto simp: payload_write_payload) (simp add: payload_def word_gt_0)
qed

text \<open>Slot \<open>i\<close> is usable for a packet: present, free and large enough.\<close>

definition slot_free :: "PacketBuffer option list \<Rightarrow> u16 \<Rightarrow> nat \<Rightarrow> nat \<Rightarrow> bool" where
  "slot_free slots occ k i \<longleftrightarrow> slots ! i \<noteq> None \<and> \<not> bit occ (k + i)"

definition slot_fits :: "PacketBuffer \<Rightarrow> PacketBuffer option list \<Rightarrow> nat \<Rightarrow> bool" where
  "slot_fits packet slots i \<longleftrightarrow> (case slots ! i of None \<Rightarrow> False | Some p \<Rightarrow> pb_size packet \<le> pb_capacity p)"

lemma slot_loop_accepted:
  assumes "BitsReceiver_slot_loop packet k slots occ seen = (RX_kAccepted, slots', occ')"
    and "k + length slots \<le> 16"
  shows "\<exists>i p. i < length slots \<and> slots ! i = Some p \<and> slot_free slots occ k i \<and> slot_fits packet slots i
    \<and> slots' = slots[i := Some (snd (copyPacket packet p))] \<and> occ' = occ OR push_bit (k + i) 1"
  using assms
proof (induction slots arbitrary: k seen slots')
  case (Cons slot slots)
  have k: "k < LENGTH(16)" using Cons.prems(2) by simp
  note test = segment_bit_test [OF k, of occ]
  have skip: ?case if "BitsReceiver_slot_loop packet (k + 1) slots occ s = (RX_kAccepted, sl, occ')"
    "slots' = slot # sl" for s sl
  proof -
    from Cons.IH [OF that(1)] Cons.prems(2) obtain i p where "i < length slots" "slots ! i = Some p"
      "slot_free slots occ (k + 1) i" "slot_fits packet slots i"
      "sl = slots[i := Some (snd (copyPacket packet p))]" "occ' = occ OR push_bit (k + 1 + i) 1" by auto
    then show ?thesis
      using that(2) by (intro exI [of _ "Suc i"] exI [of _ p]) (simp add: slot_free_def slot_fits_def)
  qed
  show ?case
  proof (cases slot)
    case None
    with Cons.prems(1) skip show ?thesis by (auto split: prod.splits)
  next
    case (Some p)
    show ?thesis
    proof (cases "bit occ k")
      case True
      with Some Cons.prems(1) test skip show ?thesis by (auto simp: Let_def split: prod.splits)
    next
      case False
      obtain r p1 where c: "copyPacket packet p = (r, p1)" by fastforce
      show ?thesis
      proof (cases r)
        case True
        with c False Some Cons.prems(1) test copyPacket_fst [of packet p] show ?thesis
          by (intro exI [of _ 0] exI [of _ p]) (auto simp: slot_free_def slot_fits_def Let_def)
      next
        case False
        with c \<open>\<not> bit occ k\<close> Some Cons.prems(1) test skip show ?thesis
          by (auto simp: Let_def split: prod.splits)
      qed
    qed
  qed
qed (simp split: if_splits)

lemma slot_loop_refused:
  assumes "BitsReceiver_slot_loop packet k slots occ seen = (r, slots', occ')" and "r \<noteq> RX_kAccepted"
    and "k + length slots \<le> 16"
  shows "slots' = slots \<and> occ' = occ
    \<and> (\<forall>i < length slots. slot_free slots occ k i \<longrightarrow> \<not> slot_fits packet slots i)
    \<and> r = (if seen \<or> (\<exists>i < length slots. slot_free slots occ k i) then RX_kRejected else RX_kFull)"
  using assms
proof (induction slots arbitrary: k seen slots')
  case (Cons slot slots)
  have k: "k < LENGTH(16)" using Cons.prems(3) by simp
  note test = segment_bit_test [OF k, of occ]
  have skip: ?case if "BitsReceiver_slot_loop packet (k + 1) slots occ s = (r, sl, occ')"
    "slots' = slot # sl" "s = (seen \<or> slot_free (slot # slots) occ k 0)"
    "slot_free (slot # slots) occ k 0 \<Longrightarrow> \<not> slot_fits packet (slot # slots) 0" for s sl
  proof -
    have ih: "sl = slots \<and> occ' = occ
        \<and> (\<forall>i < length slots. slot_free slots occ (k + 1) i \<longrightarrow> \<not> slot_fits packet slots i)
        \<and> r = (if s \<or> (\<exists>i < length slots. slot_free slots occ (k + 1) i) then RX_kRejected else RX_kFull)"
      using Cons.IH [OF that(1)] Cons.prems by simp
    have free: "slot_free (slot # slots) occ k (Suc i) = slot_free slots occ (k + 1) i"
      "slot_fits packet (slot # slots) (Suc i) = slot_fits packet slots i" for i
      by (simp_all add: slot_free_def slot_fits_def)
    have split: "(\<forall>i < length (slot # slots). P i) = (P 0 \<and> (\<forall>i < length slots. P (Suc i)))"
      "(\<exists>i < length (slot # slots). P i) = (P 0 \<or> (\<exists>i < length slots. P (Suc i)))" for P
      by (auto simp: less_Suc_eq_0_disj)
    show ?thesis unfolding split free using ih that(2-4) by auto
  qed
  have rest: "\<exists>a sl b. BitsReceiver_slot_loop packet (k + 1) slots occ s = (a, sl, b)" for s
    by (metis prod_cases3)
  show ?case
  proof (cases "slot = None \<or> bit occ k")
    case True
    then have nf: "\<not> slot_free (slot # slots) occ k 0" by (auto simp: slot_free_def)
    from rest [of seen] obtain sl where "BitsReceiver_slot_loop packet (k + 1) slots occ seen = (r, sl, occ')"
      "slots' = slot # sl" using True Cons.prems(1) test by (cases slot) (auto simp: Let_def)
    with nf show ?thesis by (intro skip) auto
  next
    case False
    then obtain p where p: "slot = Some p" "\<not> bit occ k" by auto
    obtain c p1 where c: "copyPacket packet p = (c, p1)" by fastforce
    with p Cons.prems test have nc: "\<not> c" by (auto simp: Let_def)
    have f: "slot_free (slot # slots) occ k 0" "\<not> slot_fits packet (slot # slots) 0"
      using p c nc copyPacket_fst [of packet p] by (auto simp: slot_free_def slot_fits_def)
    from rest [of True] obtain sl where "BitsReceiver_slot_loop packet (k + 1) slots occ True = (r, sl, occ')"
      "slots' = slot # sl" using p c nc Cons.prems(1) test by (auto simp: Let_def)
    with f show ?thesis by (intro skip) auto
  qed
qed (simp split: if_splits)

subsection \<open>The configuration fits every slot\<close>

lemma config_loop_spec:
  assumes "receiverEngineConfig_loop slots w0 z0 = (w, z)" and "unat w0 + length slots \<le> 255"
  shows "unat w = unat w0 + length (filter (\<lambda>s. s \<noteq> None) slots)"
    and "z \<le> z0" and "\<And>p. Some p \<in> set slots \<Longrightarrow> z \<noteq> 0 \<Longrightarrow> unat z + 4 \<le> unat (pb_capacity p)"
proof -
  have "unat w = unat w0 + length (filter (\<lambda>s. s \<noteq> None) slots) \<and> z \<le> z0
    \<and> (\<forall>p. Some p \<in> set slots \<longrightarrow> z \<noteq> 0 \<longrightarrow> unat z + 4 \<le> unat (pb_capacity p))"
    using assms
  proof (induction slots w0 z0 rule: receiverEngineConfig_loop.induct)
    case (3 slot slots w0 z0)
    define q where "q = (if of_nat kSegmentHeaderSize \<le> pb_capacity slot
        then pb_capacity slot - of_nat kSegmentHeaderSize else 0)"
    define z1 where "z1 = (if q < z0 then q else z0)"
    have z1: "z1 \<le> q" "z1 \<le> z0" by (auto simp: z1_def)
    have w1: "unat (w0 + 1) = unat w0 + 1" using unat_add_le [of w0 1] "3.prems"(2) by simp
    have "receiverEngineConfig_loop slots (w0 + 1) z1 = (w, z)"
      using "3.prems"(1) unfolding q_def z1_def by (simp add: Let_def split del: if_split)
    then have ih: "unat w = unat (w0 + 1) + length (filter (\<lambda>s. s \<noteq> None) slots)" "z \<le> z1"
      "\<forall>p. Some p \<in> set slots \<longrightarrow> z \<noteq> 0 \<longrightarrow> unat z + 4 \<le> unat (pb_capacity p)"
      using "3.IH" [OF refl] "3.prems"(2) w1 unfolding q_def [symmetric] z1_def [symmetric] by auto
    have fit: "unat z + 4 \<le> unat (pb_capacity slot)" if "z \<noteq> 0"
    proof -
      have le: "z \<le> q" using ih(2) z1(1) by (rule order.trans)
      then have "q \<noteq> 0" using that by auto
      then have four: "4 \<le> pb_capacity slot" "q = pb_capacity slot - 4"
        by (auto simp: q_def bits_sizes split: if_splits)
      then have "4 \<le> unat (pb_capacity slot)" by (simp add: word_le_nat_alt)
      then have "unat q = unat (pb_capacity slot) - 4" by (simp add: four(2) unat_sub_le)
      with le \<open>4 \<le> unat (pb_capacity slot)\<close> show ?thesis by (simp add: word_le_nat_alt)
    qed
    have "z \<le> z0" using ih(2) z1(2) by (rule order.trans)
    then show ?case using ih(1,3) fit w1 by simp
  qed auto
  then show "unat w = unat w0 + length (filter (\<lambda>s. s \<noteq> None) slots)" "z \<le> z0"
    "\<And>p. Some p \<in> set slots \<Longrightarrow> z \<noteq> 0 \<Longrightarrow> unat z + 4 \<le> unat (pb_capacity p)" by auto
qed

lemma receiverEngineConfig_window:
  "unat (ec_receive_window_width (receiverEngineConfig slots t)) =
     length (filter (\<lambda>s. s \<noteq> None) (take 16 slots))"
  by (auto simp: receiverEngineConfig_def kCompactWindowWidth_def dest: config_loop_spec(1) split: prod.splits)

lemma receiverEngineConfig_fits:
  assumes "Some p \<in> set (take 16 slots)"
    and "0 < n" and "n \<le> unat (ec_maximum_segment_size (receiverEngineConfig slots t))"
  shows "n + 4 \<le> unat (pb_capacity p)"
proof -
  obtain w z where l: "receiverEngineConfig_loop (take 16 slots) 0 0xFFFF = (w, z)" by fastforce
  then have m: "n \<le> unat z"
    using assms(2,3) by (auto simp: receiverEngineConfig_def kCompactWindowWidth_def split: if_splits)
  then have "z \<noteq> 0" using assms(2) by auto
  then have "unat z + 4 \<le> unat (pb_capacity p)" by (intro config_loop_spec(3) [OF l _ assms(1)]) auto
  with m show ?thesis by simp
qed

subsection \<open>Endpoint state\<close>

definition endpoint_invar :: "BitsReceiver \<Rightarrow> bool" where
  "endpoint_invar b \<longleftrightarrow>
     (\<forall>i. bit (br_segment_occupied_mask b) i \<longrightarrow>
        i < length (br_segment_ingress b) \<and> br_segment_ingress b ! i \<noteq> None)
     \<and> (\<forall>p. Some p \<in> set (br_segment_ingress b) \<longrightarrow> packet_invar p) \<and> packet_invar (br_datagram_ingress b)"

definition endpoint_pending :: "BitsReceiver \<Rightarrow> bytes set" where
  "endpoint_pending b =
     {slot_message (br_segment_ingress b) i | i. bit (br_segment_occupied_mask b) i}
     \<union> (if br_datagram_occupied b then {payload (br_datagram_ingress b)} else {})"

lemma endpoint_engine_frame [simp]:
  "endpoint_invar (b\<lparr>br_engine := e\<rparr>) = endpoint_invar b"
  "endpoint_pending (b\<lparr>br_engine := e\<rparr>) = endpoint_pending b"
  by (simp_all add: endpoint_invar_def endpoint_pending_def)

lemma endpoint_init:
  assumes "\<forall>p. Some p \<in> set slots \<longrightarrow> packet_invar p" and "packet_invar d"
  shows "endpoint_invar (BitsReceiver_init m conn slots d t)"
    and "endpoint_pending (BitsReceiver_init m conn slots d t) = {}"
  using assms by (simp_all add: endpoint_invar_def endpoint_pending_def BitsReceiver_init_def)

lemma receive_slot:
  assumes "endpoint_invar b" and "packet_invar packet"
    and "BitsReceiver_slot_loop packet 0 (take 16 (br_segment_ingress b)) (br_segment_occupied_mask b) False
      = (RX_kAccepted, slots, occ)"
    and "b' = b\<lparr>br_segment_ingress := slots @ drop 16 (br_segment_ingress b), br_segment_occupied_mask := occ\<rparr>"
  shows "endpoint_invar b'" and "endpoint_pending b' = insert (payload packet) (endpoint_pending b)"
proof -
  let ?s = "br_segment_ingress b" and ?o = "br_segment_occupied_mask b"
  from slot_loop_accepted [OF assms(3)] obtain i p where
    i: "i < length (take 16 ?s)" "take 16 ?s ! i = Some p" "slot_free (take 16 ?s) ?o 0 i"
      "slot_fits packet (take 16 ?s) i"
      "slots = (take 16 ?s)[i := Some (snd (copyPacket packet p))]" "occ = ?o OR push_bit i 1" by auto
  then have i16: "i < 16" "i < length ?s" "?s ! i = Some p" by auto
  have ing: "br_segment_ingress b' = ?s[i := Some (snd (copyPacket packet p))]"
    using i(1,5) assms(4) by (simp add: list_update_append1 [symmetric])
  have p: "packet_invar p" using assms(1) i16 by (auto simp: endpoint_invar_def in_set_conv_nth)
  have fits: "pb_size packet \<le> pb_capacity p" using i(2,4) by (simp add: slot_fits_def)
  note cp = copyPacket_success [OF assms(2) p fits]
  have free: "\<not> bit ?o i" using i(3) by (simp add: slot_free_def)
  have bo: "bit occ j \<longleftrightarrow> bit ?o j \<or> j = i" for j
    using i(6) i16 by (auto simp: bit_simps)
  have "packet_invar q" if "Some q \<in> set (?s[i := Some (snd (copyPacket packet p))])" for q
    using set_update_subset_insert [of ?s i "Some (snd (copyPacket packet p))"] that cp(4) assms(1)
    by (auto simp: endpoint_invar_def)
  then show "endpoint_invar b'"
    using assms(1,4) ing bo i16 by (auto simp: endpoint_invar_def nth_list_update)
  have msg: "slot_message (br_segment_ingress b') j = (if j = i then payload packet else slot_message ?s j)" for j
    using ing i16 cp(1) by (simp add: slot_message_def)
  have "{slot_message (br_segment_ingress b') j | j. bit occ j}
      = insert (payload packet) {slot_message ?s j | j. bit ?o j}"
    unfolding msg bo using free by auto
  then show "endpoint_pending b' = insert (payload packet) (endpoint_pending b)"
    using assms(4) by (simp add: endpoint_pending_def)
qed

text \<open>Admission: an accepted packet is queued and nothing queued is lost; a refused one changes nothing.\<close>

lemma BitsReceiver_receive_spec:
  assumes inv: "endpoint_invar b" and pk: "packet_invar packet"
    and r: "BitsReceiver_receive packet b = (r, b')"
  shows "endpoint_invar b'" and "br_engine b' = br_engine b"
    and "endpoint_pending b' = (if r = RX_kAccepted then insert (payload packet) (endpoint_pending b)
                                else endpoint_pending b)"
proof -
  have "endpoint_invar b' \<and> br_engine b' = br_engine b
    \<and> endpoint_pending b' = (if r = RX_kAccepted then insert (payload packet) (endpoint_pending b)
                             else endpoint_pending b)"
  proof (cases "matchesConnection packet (br_connection b) \<and> payload packet \<noteq> []
      \<and> decodeControl (payload packet ! 0) \<noteq> None")
    case False
    then have "BitsReceiver_receive packet b = (RX_kRejected, b)"
      by (auto simp: BitsReceiver_receive_def)
    with r inv show ?thesis by simp
  next
    case True
    then obtain c where c: "decodeControl (payload packet ! 0) = Some c" by auto
    show ?thesis
    proof (cases "ct_type c = MT_kSegment")
      case False
      obtain k d where cp: "copyPacket packet (br_datagram_ingress b) = (k, d)" by fastforce
      have d: "k \<longrightarrow> payload d = payload packet \<and> packet_invar d"
        using copyPacket_success [OF pk, of "br_datagram_ingress b"] inv copyPacket_fst [of packet "br_datagram_ingress b"] cp
        by (auto simp: endpoint_invar_def)
      show ?thesis
        using r True False c cp d inv
        by (auto simp: BitsReceiver_receive_def endpoint_invar_def endpoint_pending_def split: if_splits bool.splits)
    next
      case seg: True
      obtain r1 slots occ where l: "BitsReceiver_slot_loop packet 0 (take 16 (br_segment_ingress b))
          (br_segment_occupied_mask b) False = (r1, slots, occ)" by (metis prod_cases3)
      then have rb: "r = r1" "b' = b\<lparr>br_segment_ingress := slots @ drop 16 (br_segment_ingress b),
          br_segment_occupied_mask := occ\<rparr>"
        using r True c seg by (auto simp: BitsReceiver_receive_def kCompactWindowWidth_def)
      show ?thesis
      proof (cases "r1 = RX_kAccepted")
        case True
        with receive_slot [OF inv pk _ rb(2)] l rb show ?thesis by simp
      next
        case False
        have "slots = take 16 (br_segment_ingress b)" "occ = br_segment_occupied_mask b"
          using slot_loop_refused [OF l False] by auto
        then have "b' = b" using rb(2) by simp
        with False rb inv show ?thesis by simp
      qed
    qed
  qed
  then show "endpoint_invar b'" "br_engine b' = br_engine b"
    "endpoint_pending b' = (if r = RX_kAccepted then insert (payload packet) (endpoint_pending b)
                            else endpoint_pending b)" by auto
qed

lemma first_occupied_some:
  assumes "occ \<noteq> (0 :: u16)"
  shows "\<exists>i < 16. BitsReceiver_first_occupied occ [0..<16] = Some i \<and> bit occ i \<and> (\<forall>j < i. \<not> bit occ j)"
proof -
  have scan: "BitsReceiver_first_occupied occ xs = find (bit occ) xs" if "\<forall>x \<in> set xs. x < 16" for xs
    using that
  proof (induction xs)
    case (Cons x xs)
    then show ?case using segment_bit_test [of x occ] by auto
  qed simp
  have ex: "\<exists>i < 16. bit occ i"
    using assms bit_word_eqI [of occ 0] by auto
  define i where "i = (LEAST i. bit occ i)"
  have i: "bit occ i" "\<And>j. j < i \<Longrightarrow> \<not> bit occ j"
    unfolding i_def using ex by (auto intro: LeastI dest: not_less_Least)
  have i16: "i < 16" using i(1) bit_imp_le_length by fastforce
  have "[0..<16] = [0..<i] @ i # [Suc i..<16]"
    using i16 upt_add_eq_append [of 0 i "16 - i"] by (simp add: upt_conv_Cons)
  moreover have app: "find P (xs @ x # ys) = Some x" if "find P xs = None" "P x" for P and xs ys :: "nat list" and x
    using that by (induction xs) (auto split: if_splits)
  ultimately have "find (bit occ) [0..<16] = Some i"
    using i app by (simp add: find_None_iff)
  with scan [of "[0..<16]"] i i16 show ?thesis by auto
qed

lemma process_segment_pending:
  "endpoint_invar b \<Longrightarrow> BitsReceiver_process_segment env now b w = (r, b', w') \<Longrightarrow>
     endpoint_invar b' \<and> endpoint_pending b' \<subseteq> endpoint_pending b"
  by (auto simp: BitsReceiver_process_segment_def endpoint_invar_def endpoint_pending_def bit_simps
      split: if_splits option.splits prod.splits)

lemma process_datagram_pending:
  "endpoint_invar b \<Longrightarrow> BitsReceiver_process_datagram env now r0 b w = (r, b', w') \<Longrightarrow>
     endpoint_invar b' \<and> endpoint_pending b' \<subseteq> endpoint_pending b"
  by (auto simp: BitsReceiver_process_datagram_def endpoint_invar_def endpoint_pending_def
      split: if_splits prod.splits)

subsection \<open>Reassembly through the endpoint\<close>

datatype endpoint_event = RecvEvent PacketBuffer | ProcEvent u32 | AbortEvent

fun endpoint_step :: "'w EngineEnv \<Rightarrow> endpoint_event \<Rightarrow> BitsReceiver \<times> 'w \<Rightarrow> BitsReceiver \<times> 'w" where
  "endpoint_step env (RecvEvent packet) (b, w) = (snd (BitsReceiver_receive packet b), w)"
| "endpoint_step env (ProcEvent now) (b, w) = snd (BitsReceiver_process env now b w)"
| "endpoint_step env AbortEvent (b, w) = snd (BitsReceiver_abort env b w)"

definition endpoint_run ::
  "'w EngineEnv \<Rightarrow> endpoint_event list \<Rightarrow> BitsReceiver \<times> 'w \<Rightarrow> BitsReceiver \<times> 'w" where
  "endpoint_run env events s = fold (endpoint_step env) events s"

fun honest_endpoint_event :: "Setup \<Rightarrow> bytes \<Rightarrow> endpoint_event \<Rightarrow> bool" where
  "honest_endpoint_event s obj (RecvEvent packet) = (packet_invar packet \<and> honest_message s obj (payload packet))"
| "honest_endpoint_event s obj (ProcEvent now) = True"
| "honest_endpoint_event s obj AbortEvent = True"

context object_sink
begin

definition endpoint_ok :: "Setup \<Rightarrow> bytes \<Rightarrow> BitsReceiver \<Rightarrow> 'w \<Rightarrow> bool" where
  "endpoint_ok s obj b w \<longleftrightarrow> endpoint_invar b \<and> (\<forall>m \<in> endpoint_pending b. honest_message s obj m)
     \<and> engine_invar (ee_max_window env) (br_engine b) \<and> transfer_ok s obj (br_engine b) w"

lemma engine_message_ok:
  assumes "endpoint_ok s obj b w" and "setup_valid s" and "length obj = unat (setupTotalSize s)"
    and "honest_message s obj message" and "engine_process env message now (br_engine b) w = (r, e', w')"
  shows "engine_invar (ee_max_window env) e' \<and> transfer_ok s obj e' w'"
  using assms step_transfer_ok [of "br_engine b" s obj w "EvMessage message now" e' w']
  by (auto simp: endpoint_ok_def)

lemma process_segment_ok:
  assumes ok: "endpoint_ok s obj b w" and v: "setup_valid s" "length obj = unat (setupTotalSize s)"
    and p: "BitsReceiver_process_segment env now b w = (r, b', w')"
  shows "endpoint_ok s obj b' w'"
proof (cases "br_segment_occupied_mask b = 0")
  case True
  then show ?thesis using ok p by (simp add: BitsReceiver_process_segment_def)
next
  case False
  from first_occupied_some [OF False] obtain i where i: "bit (br_segment_occupied_mask b) i"
    "BitsReceiver_first_occupied (br_segment_occupied_mask b) [0..<16] = Some i" by blast
  obtain r1 e1 w1 where e: "engine_process env (slot_message (br_segment_ingress b) i) now (br_engine b) w
      = (r1, e1, w1)" by (metis prod_cases3)
  have "honest_message s obj (slot_message (br_segment_ingress b) i)"
    using ok i(1) by (auto simp: endpoint_ok_def endpoint_pending_def)
  from engine_message_ok [OF ok v this e] have "engine_invar (ee_max_window env) e1 \<and> transfer_ok s obj e1 w1" .
  moreover have "br_engine b' = e1" "w' = w1"
    using p False i(2) e by (auto simp: BitsReceiver_process_segment_def kCompactWindowWidth_def)
  moreover have "endpoint_invar b' \<and> endpoint_pending b' \<subseteq> endpoint_pending b"
    using ok process_segment_pending [OF _ p] by (simp add: endpoint_ok_def)
  ultimately show ?thesis using ok by (auto simp: endpoint_ok_def)
qed

lemma process_datagram_ok:
  assumes ok: "endpoint_ok s obj b w" and v: "setup_valid s" "length obj = unat (setupTotalSize s)"
    and p: "BitsReceiver_process_datagram env now r0 b w = (r, b', w')"
  shows "endpoint_ok s obj b' w'"
proof (cases "br_datagram_occupied b")
  case False
  then show ?thesis using ok p by (simp add: BitsReceiver_process_datagram_def)
next
  case True
  obtain r1 e1 w1 where e: "engine_process env (payload (br_datagram_ingress b)) now (br_engine b) w
      = (r1, e1, w1)" by (metis prod_cases3)
  have "honest_message s obj (payload (br_datagram_ingress b))"
    using ok True by (auto simp: endpoint_ok_def endpoint_pending_def)
  from engine_message_ok [OF ok v this e] have "engine_invar (ee_max_window env) e1 \<and> transfer_ok s obj e1 w1" .
  moreover have "br_engine b' = e1" "w' = w1"
    using p True e by (auto simp: BitsReceiver_process_datagram_def)
  moreover have "endpoint_invar b' \<and> endpoint_pending b' \<subseteq> endpoint_pending b"
    using ok process_datagram_pending [OF _ p] by (simp add: endpoint_ok_def)
  ultimately show ?thesis using ok by (auto simp: endpoint_ok_def)
qed

lemma endpoint_step_ok:
  assumes ok: "endpoint_ok s obj b w" and v: "setup_valid s" "length obj = unat (setupTotalSize s)"
    and hon: "honest_endpoint_event s obj ev" and st: "endpoint_step env ev (b, w) = (b', w')"
  shows "endpoint_ok s obj b' w'"
proof (cases ev)
  case (RecvEvent packet)
  obtain r where r: "BitsReceiver_receive packet b = (r, b')" "w' = w"
    using st RecvEvent by (cases "BitsReceiver_receive packet b") auto
  have "packet_invar packet" "honest_message s obj (payload packet)" using hon RecvEvent by auto
  then show ?thesis
    using BitsReceiver_receive_spec [OF _ _ r(1)] ok r(2) by (auto simp: endpoint_ok_def split: if_splits)
next
  case (ProcEvent now)
  obtain r0 e0 w0 where p: "engine_poll env now (br_engine b) w = (r0, e0, w0)" by (metis prod_cases3)
  have e0: "engine_invar (ee_max_window env) e0 \<and> transfer_ok s obj e0 w0"
    using step_transfer_ok [of "br_engine b" s obj w "EvPoll now" e0 w0] ok v p by (auto simp: endpoint_ok_def)
  have ok0: "endpoint_ok s obj (b\<lparr>br_engine := e0\<rparr>) w0"
    using ok e0 by (simp add: endpoint_ok_def)
  have clear: "endpoint_ok s obj (b\<lparr>br_engine := e0, br_segment_occupied_mask := 0,
      br_datagram_occupied := False\<rparr>) w0"
    using ok e0 by (simp add: endpoint_ok_def endpoint_invar_def endpoint_pending_def)
  obtain r1 b1 w1 where s1: "BitsReceiver_process_segment env now (b\<lparr>br_engine := e0\<rparr>) w0 = (r1, b1, w1)"
    by (metis prod_cases3)
  obtain r2 b2 w2 where s2: "BitsReceiver_process_datagram env now r1 b1 w1 = (r2, b2, w2)"
    by (metis prod_cases3)
  have "endpoint_ok s obj b2 w2"
    using process_datagram_ok [OF process_segment_ok [OF ok0 v s1] v s2] .
  then show ?thesis
    using st ProcEvent p s1 s2 clear by (auto simp: BitsReceiver_process_def split: if_splits)
next
  case AbortEvent
  obtain r e1 w1 where a: "engine_abort env (br_engine b) w = (r, e1, w1)" by (metis prod_cases3)
  have "engine_invar (ee_max_window env) e1 \<and> transfer_ok s obj e1 w1"
    using step_transfer_ok [of "br_engine b" s obj w EvAbort e1 w1] ok v a by (auto simp: endpoint_ok_def)
  then show ?thesis
    using st AbortEvent a ok
    by (auto simp: BitsReceiver_abort_def endpoint_ok_def)
qed

lemma endpoint_run_ok:
  assumes "endpoint_ok s obj b w" and "setup_valid s" and "length obj = unat (setupTotalSize s)"
    and "\<forall>ev \<in> set events. honest_endpoint_event s obj ev" and "endpoint_run env events (b, w) = (b', w')"
  shows "endpoint_ok s obj b' w'"
  using assms
proof (induction events arbitrary: b w)
  case (Cons ev events)
  obtain b1 w1 where s1: "endpoint_step env ev (b, w) = (b1, w1)" by fastforce
  have "endpoint_ok s obj b1 w1" by (rule endpoint_step_ok [OF Cons.prems(1-3) _ s1]) (use Cons.prems(4) in simp)
  then show ?case by (rule Cons.IH [OF _ Cons.prems(2,3)]) (use Cons.prems(4,5) s1 in \<open>simp_all add: endpoint_run_def\<close>)
qed (simp add: endpoint_run_def)

lemma endpoint_init_ok:
  assumes "\<forall>p. Some p \<in> set slots \<longrightarrow> packet_invar p" "packet_invar d" and "room \<le> length (sink w)"
  shows "endpoint_ok s obj (BitsReceiver_init (ee_max_window env) conn slots d t) w"
proof -
  let ?b = "BitsReceiver_init (ee_max_window env) conn slots d t"
  have "engine_invar (ee_max_window env) (br_engine ?b)" "transfer_ok s obj (br_engine ?b) w"
    using engine_invar_init [OF window_limits] assms(3)
    by (auto simp: BitsReceiver_init_def transfer_ok_def) (simp_all add: BitsReceiver_init_def BitsReceiverEngine_init_def)
  then show ?thesis using endpoint_init [OF assms(1,2)] by (simp add: endpoint_ok_def)
qed

theorem endpoint_completed_object:
  assumes v: "setup_valid s" "length obj = unat (setupTotalSize s)"
    and slots: "\<forall>p. Some p \<in> set slots \<longrightarrow> packet_invar p" "packet_invar d" and room: "room \<le> length (sink w)"
    and ev: "\<forall>ev \<in> set events. honest_endpoint_event s obj ev"
    and run: "endpoint_run env events (BitsReceiver_init (ee_max_window env) conn slots d t, w) = (b', w')"
    and fin: "re_state (br_engine b') = TS_kCompleted"
  shows "take (length obj) (sink w') = obj"
proof -
  from endpoint_run_ok [OF endpoint_init_ok [OF slots room] v ev run]
  have r: "engine_invar (ee_max_window env) (br_engine b')" "transfer_ok s obj (br_engine b') w'"
    by (auto simp: endpoint_ok_def)
  then show ?thesis using completed_object_state [OF v r fin] by blast
qed

end

text \<open>A refused packet leaves the endpoint as it was.\<close>

lemma slot_loop_unchanged:
  "BitsReceiver_slot_loop packet i slots occ seen = (r, slots', occ') \<Longrightarrow> r \<noteq> RX_kAccepted \<Longrightarrow> slots' = slots \<and> occ' = occ"
proof (induction packet i slots occ seen arbitrary: r slots' occ' rule: BitsReceiver_slot_loop.induct)
  case (2 packet i slot slots occ seen)
  show ?case
  proof (cases slot)
    case None
    then show ?thesis using 2 by (auto simp: Let_def split: prod.splits)
  next
    case (Some p)
    then show ?thesis using 2 by (auto simp: Let_def split: prod.splits bool.splits if_splits)
  qed
qed simp

lemma BitsReceiver_receive_refused:
  assumes "BitsReceiver_receive packet b = (r, b')" and "r \<noteq> RX_kAccepted"
  shows "b' = b"
  using assms by (auto simp: BitsReceiver_receive_def dest!: slot_loop_unchanged split: if_splits option.splits prod.splits bool.splits)

end
