(* ===== verification/Bits_Transmitter.thy ===== *)
theory Bits_Transmitter
  imports Bits_Endpoint
begin

section \<open>The BITS transmitter\<close>

text \<open>
  The sending half of \<^verbatim>\<open>transports/bits/bits.cpp\<close>: SETUP, windowed SEGMENTs with selective
  retransmission, PROBEs, and the handling of ACK, REJECT and ABORT.  The router and the
  callbacks are functions on the memory \<open>'w\<close>.
\<close>

subsection \<open>Data\<close>

record TimingConfig =
  tm_retransmission_timeout_ms :: u32
  tm_probe_timeout_ms :: u32
  tm_max_retries :: u8

datatype StartResult = ST_kStarted | ST_kBusy | ST_kInvalidArgument | ST_kPacketTooSmall

record 'w TransmitterEnv =
  te_forward :: "PacketBuffer \<Rightarrow> 'w \<Rightarrow> RouteResult \<times> 'w"
  te_onDatagram :: "bytes \<Rightarrow> 'w \<Rightarrow> 'w"
  te_onTransferComplete :: "'w \<Rightarrow> 'w"
  te_onTransferRejected :: "RejectReason \<Rightarrow> 'w \<Rightarrow> 'w"
  te_onTransferAborted :: "'w \<Rightarrow> 'w"

record TransferSession =
  ts_state :: TransferState
  ts_object :: bytes
  ts_setup :: Setup
  ts_segment_count :: u32
  ts_acknowledged_count :: u32
  ts_granted_end :: u32
  ts_sent_bitmap :: u16
  ts_acknowledged_bitmap :: u16
  ts_segment_last_send_ms :: "u32 list"
  ts_segment_retry_count :: "u8 list"
  ts_setup_last_send_ms :: u32
  ts_probe_last_send_ms :: u32
  ts_setup_retry_count :: u8
  ts_probe_retry_count :: u8
  ts_setup_sent :: bool
  ts_probe_timer_active :: bool

definition TransferSession_init :: TransferSession where
  "TransferSession_init = \<lparr>ts_state = TS_kIdle, ts_object = [], ts_setup = Setup_zero,
     ts_segment_count = 0, ts_acknowledged_count = 0, ts_granted_end = 0, ts_sent_bitmap = 0,
     ts_acknowledged_bitmap = 0, ts_segment_last_send_ms = replicate 16 0,
     ts_segment_retry_count = replicate 16 0, ts_setup_last_send_ms = 0, ts_probe_last_send_ms = 0,
     ts_setup_retry_count = 0, ts_probe_retry_count = 0, ts_setup_sent = False,
     ts_probe_timer_active = False\<rparr>"

record BitsTransmitter =
  bt_connection :: ConnectionAddress
  bt_timing :: TimingConfig
  bt_datagram_ingress :: PacketBuffer
  bt_transmit_packet :: PacketBuffer
  bt_datagram_occupied :: bool
  bt_session :: TransferSession
  bt_last_send :: SendResult

definition BitsTransmitter_init ::
  "ConnectionAddress \<Rightarrow> TimingConfig \<Rightarrow> PacketBuffer \<Rightarrow> PacketBuffer \<Rightarrow> BitsTransmitter" where
  "BitsTransmitter_init connection timing datagram_ingress transmit_packet =
     \<lparr>bt_connection = connection, bt_timing = timing, bt_datagram_ingress = datagram_ingress,
      bt_transmit_packet = transmit_packet, bt_datagram_occupied = False,
      bt_session = TransferSession_init, bt_last_send = SR_kSent\<rparr>"

type_synonym 'w tx_action = "BitsTransmitter \<Rightarrow> 'w \<Rightarrow> bool \<times> BitsTransmitter \<times> 'w"

definition tx_session :: "(TransferSession \<Rightarrow> TransferSession) \<Rightarrow> BitsTransmitter \<Rightarrow> BitsTransmitter" where
  "tx_session f t = t\<lparr>bt_session := f (bt_session t)\<rparr>"

definition elapsed :: "u32 \<Rightarrow> u32 \<Rightarrow> u32 \<Rightarrow> bool" where
  "elapsed now_ms start_ms duration_ms = (duration_ms \<le> now_ms - start_ms)"

definition segmentCount :: "u32 \<Rightarrow> u16 \<Rightarrow> u32" where
  "segmentCount total_size segment_size =
     total_size div ucast segment_size + (if total_size mod ucast segment_size = 0 then 0 else 1)"

definition retryLimitReached :: "u8 \<Rightarrow> BitsTransmitter \<Rightarrow> bool" where
  "retryLimitReached retry_count t = (tm_max_retries (bt_timing t) \<le> retry_count)"

subsection \<open>Sending\<close>

definition preparePacket :: "u16 \<Rightarrow> QoS \<Rightarrow> BitsTransmitter \<Rightarrow> bool \<times> BitsTransmitter" where
  "preparePacket payload_size qos t =
     (case initializeConnection payload_size (bt_connection t) (ControlFields_bits qos) (bt_transmit_packet t) of
        (ok, p) \<Rightarrow> (ok, t\<lparr>bt_last_send := SR_kTooLarge, bt_transmit_packet := p\<rparr>))"

definition forwardPacket :: "'w TransmitterEnv \<Rightarrow> 'w tx_action" where
  "forwardPacket env t w =
     (case te_forward env (bt_transmit_packet t) w of (r, w1) \<Rightarrow>
        (sendResult r = SR_kSent, t\<lparr>bt_last_send := sendResult r\<rparr>, w1))"

text \<open>A fixed-size message: prepare the packet, encode into its payload, forward.\<close>

definition tx_send_message ::
  "'w TransmitterEnv \<Rightarrow> nat \<Rightarrow> QoS \<Rightarrow> (bytes \<Rightarrow> bool \<times> bytes) \<Rightarrow> 'w tx_action" where
  "tx_send_message env message_size qos encode t w =
     (case preparePacket (of_nat message_size) qos t of
        (False, t1) \<Rightarrow> (False, t1, w)
      | (True, t1) \<Rightarrow>
          (case encode (payload (bt_transmit_packet t1)) of
             (ok, bs) \<Rightarrow>
               let t2 = t1\<lparr>bt_transmit_packet := write_payload 0 bs (bt_transmit_packet t1)\<rparr>
               in if \<not> ok then (False, t2, w) else forwardPacket env t2 w))"

definition tx_sendSetup :: "'w TransmitterEnv \<Rightarrow> u32 \<Rightarrow> bool \<Rightarrow> 'w tx_action" where
  "tx_sendSetup env now_ms retransmission t w =
     (case tx_send_message env kSetupSize kNormal (encodeSetup (ts_setup (bt_session t))) t w of
        (False, t1, w1) \<Rightarrow> (False, t1, w1)
      | (True, t1, w1) \<Rightarrow>
          (True, tx_session (\<lambda>s. s\<lparr>ts_setup_sent := True, ts_setup_last_send_ms := now_ms,
             ts_setup_retry_count := (if retransmission then ts_setup_retry_count s + 1
                                      else ts_setup_retry_count s)\<rparr>) t1, w1))"

definition tx_sendProbe :: "'w TransmitterEnv \<Rightarrow> u32 \<Rightarrow> 'w tx_action" where
  "tx_sendProbe env now_ms t w =
     (case tx_send_message env kProbeSize kNormal
         (encodeProbe \<lparr>pr_session_id = su_session_id (ts_setup (bt_session t))\<rparr>) t w of
        (False, t1, w1) \<Rightarrow> (False, t1, w1)
      | (True, t1, w1) \<Rightarrow>
          (True, tx_session (\<lambda>s. s\<lparr>ts_probe_last_send_ms := now_ms,
             ts_probe_retry_count := ts_probe_retry_count s + 1\<rparr>) t1, w1))"

definition tx_sendAbort :: "'w TransmitterEnv \<Rightarrow> 'w tx_action" where
  "tx_sendAbort env t w = tx_send_message env kAbortSize kNormal
     (encodeAbort \<lparr>ab_session_id = su_session_id (ts_setup (bt_session t))\<rparr>) t w"

text \<open>The bytes of a SEGMENT in the prepared packet: header, then the slice of the object.\<close>

definition tx_segment_size :: "TransferSession \<Rightarrow> u32 \<Rightarrow> u16" where
  "tx_segment_size s segment_index =
     (if segment_index = ucast (su_final_segment_index (ts_setup s))
      then su_final_segment_size (ts_setup s) else su_segment_size (ts_setup s))"

definition tx_sendSegment :: "'w TransmitterEnv \<Rightarrow> u8 \<Rightarrow> u32 \<Rightarrow> bool \<Rightarrow> 'w tx_action" where
  "tx_sendSegment env window_offset now_ms retransmission t w =
     (let s = bt_session t;
          segment_index = ts_acknowledged_count s + ucast window_offset
      in if ts_segment_count s \<le> segment_index then (False, t, w)
         else (let object_offset = segment_index * ucast (su_segment_size (ts_setup s));
                   payload_size = tx_segment_size s segment_index;
                   message_size = of_nat kSegmentHeaderSize + payload_size
               in case preparePacket message_size kBackground t of
                    (False, t1) \<Rightarrow> (False, t1, w)
                  | (True, t1) \<Rightarrow>
                      (case encodeSegmentHeader \<lparr>sh_session_id = su_session_id (ts_setup s),
                              sh_segment_index = ucast segment_index\<rparr> (payload (bt_transmit_packet t1)) of
                         (False, bs) \<Rightarrow> (False, t1, w)
                       | (True, bs) \<Rightarrow>
                           (let p = write_payload kSegmentHeaderSize
                                      (subspan (ts_object s) (unat object_offset) (unat payload_size))
                                      (write_payload 0 bs (bt_transmit_packet t1))
                            in case forwardPacket env (t1\<lparr>bt_transmit_packet := p\<rparr>) w of
                                 (False, t2, w2) \<Rightarrow> (False, t2, w2)
                               | (True, t2, w2) \<Rightarrow>
                                   (True, tx_session (\<lambda>s. s\<lparr>
                                      ts_sent_bitmap := ts_sent_bitmap s OR push_bit (unat window_offset) 1,
                                      ts_segment_last_send_ms :=
                                        (ts_segment_last_send_ms s)[unat window_offset := now_ms],
                                      ts_segment_retry_count := (ts_segment_retry_count s)[unat window_offset :=
                                        (if retransmission then ts_segment_retry_count s ! unat window_offset + 1
                                         else 0)],
                                      ts_probe_timer_active := False\<rparr>) t2, w2)))))"

subsection \<open>Session bookkeeping\<close>

definition shiftWindow :: "u8 \<Rightarrow> TransferSession \<Rightarrow> TransferSession" where
  "shiftWindow count s =
     (if count = 0 then s
      else if kCompactWindowWidth \<le> unat count
      then s\<lparr>ts_sent_bitmap := 0, ts_acknowledged_bitmap := 0,
             ts_segment_last_send_ms := replicate kCompactWindowWidth 0,
             ts_segment_retry_count := replicate kCompactWindowWidth 0\<rparr>
      else s\<lparr>ts_sent_bitmap := drop_bit (unat count) (ts_sent_bitmap s),
             ts_acknowledged_bitmap := drop_bit (unat count) (ts_acknowledged_bitmap s),
             ts_segment_last_send_ms := drop (unat count) (ts_segment_last_send_ms s) @ replicate (unat count) 0,
             ts_segment_retry_count := drop (unat count) (ts_segment_retry_count s) @ replicate (unat count) 0\<rparr>)"

definition resetTransferTracking :: "TransferSession \<Rightarrow> TransferSession" where
  "resetTransferTracking s = s\<lparr>ts_acknowledged_count := 0, ts_granted_end := 0, ts_sent_bitmap := 0,
     ts_acknowledged_bitmap := 0, ts_setup_last_send_ms := 0, ts_probe_last_send_ms := 0,
     ts_setup_retry_count := 0, ts_probe_retry_count := 0, ts_setup_sent := False,
     ts_probe_timer_active := False, ts_segment_last_send_ms := replicate kCompactWindowWidth 0,
     ts_segment_retry_count := replicate kCompactWindowWidth 0\<rparr>"

definition transitionToAborted :: "'w TransmitterEnv \<Rightarrow> BitsTransmitter \<Rightarrow> 'w \<Rightarrow> BitsTransmitter \<times> 'w" where
  "transitionToAborted env t w =
     (if ts_state (bt_session t) = TS_kAborted then (t, w)
      else (tx_session (\<lambda>s. s\<lparr>ts_state := TS_kAborted\<rparr>) t, te_onTransferAborted env w))"

definition startTransfer ::
  "bytes \<Rightarrow> u16 \<Rightarrow> u8 \<Rightarrow> u8 \<Rightarrow> BitsTransmitter \<Rightarrow> StartResult \<times> BitsTransmitter" where
  "startTransfer obj segment_size session_id initial_sequence_number t =
     (if ts_state (bt_session t) = TS_kStarting \<or> ts_state (bt_session t) = TS_kActive then (ST_kBusy, t)
      else if obj = [] \<or> segment_size = 0 \<or> 0xFFFFFFFF < length obj then (ST_kInvalidArgument, t)
      else (let object_size = of_nat (length obj);
                count = segmentCount object_size segment_size
            in if count = 0 \<or> kMaximumCompactSegmentCount < count then (ST_kInvalidArgument, t)
               else if unat (pb_capacity (bt_transmit_packet t)) < kSetupSize
                       \<or> (ucast (pb_capacity (bt_transmit_packet t)) :: u32)
                           < ucast segment_size + of_nat kSegmentHeaderSize
               then (ST_kPacketTooSmall, t)
               else (let final_segment_index = ucast (count - 1) :: u16;
                         final_segment_size = ucast (object_size
                           - ucast final_segment_index * ucast segment_size) :: u16
                     in (ST_kStarted, tx_session (\<lambda>s.
                          (resetTransferTracking (s\<lparr>ts_object := obj,
                             ts_setup := \<lparr>su_session_id = session_id,
                               su_initial_sequence_number = initial_sequence_number,
                               su_final_segment_index = final_segment_index,
                               su_segment_size = segment_size,
                               su_final_segment_size = final_segment_size\<rparr>,
                             ts_segment_count := count\<rparr>))\<lparr>ts_state := TS_kStarting\<rparr>) t))))"

subsection \<open>Replies of the receiver\<close>

definition tx_live :: "BitsTransmitter \<Rightarrow> bool" where
  "tx_live t = (ts_state (bt_session t) = TS_kStarting \<or> ts_state (bt_session t) = TS_kActive)"

text \<open>The checks of \<^verbatim>\<open>handleAck\<close> on the advertised window (lines 449 to 466).\<close>

definition ack_admissible :: "Ack \<Rightarrow> TransferSession \<Rightarrow> bool" where
  "ack_admissible ack s =
     (let current_base = baseSequence (ts_setup s) (ts_acknowledged_count s);
          advance = ak_window_base ack - current_base;
          grant_span = ak_max_receive_sequence ack - ak_window_base ack
      in \<not> (kCompactWindowWidth < unat advance
            \<or> ts_segment_count s < ts_acknowledged_count s + ucast advance
            \<or> kCompactWindowWidth < unat grant_span
            \<or> ts_segment_count s < ts_acknowledged_count s + ucast advance + ucast grant_span
            \<or> ak_window_bitmap ack AND NOT (lowBitMask grant_span) \<noteq> 0)
         \<and> ts_sent_bitmap s AND lowBitMask advance = lowBitMask advance)"

text \<open>The session update of an admissible ACK (lines 468 to 479).\<close>

definition ack_apply :: "Ack \<Rightarrow> TransferSession \<Rightarrow> TransferSession" where
  "ack_apply ack s =
     (let current_base = baseSequence (ts_setup s) (ts_acknowledged_count s);
          advance = ak_window_base ack - current_base;
          grant_span = ak_max_receive_sequence ack - ak_window_base ack;
          s1 = shiftWindow advance s;
          acknowledged = ts_acknowledged_count s1 + ucast advance;
          advertised_end = acknowledged + ucast grant_span
      in s1\<lparr>ts_acknowledged_count := acknowledged,
            ts_acknowledged_bitmap := ts_acknowledged_bitmap s1
              OR (ak_window_bitmap ack AND lowBitMask grant_span AND ts_sent_bitmap s1),
            ts_granted_end := (if ts_granted_end s1 < advertised_end then advertised_end else ts_granted_end s1),
            ts_setup_sent := True, ts_probe_timer_active := False, ts_probe_retry_count := 0\<rparr>)"

definition tx_handleAck :: "'w TransmitterEnv \<Rightarrow> bytes \<Rightarrow> 'w tx_action" where
  "tx_handleAck env message t w =
     (case decodeAckKnownType message of None \<Rightarrow> (False, t, w)
      | Some ack \<Rightarrow>
          let s = bt_session t
          in if \<not> tx_live t \<or> ak_session_id ack \<noteq> su_session_id (ts_setup s) \<or> \<not> ts_setup_sent s
             then (True, t, w)
             else if \<not> ack_admissible ack s then (True, t, w)
             else (let s1 = ack_apply ack s
                   in if ts_acknowledged_count s1 = ts_segment_count s1
                      then (True, t\<lparr>bt_session := s1\<lparr>ts_state := TS_kCompleted\<rparr>\<rparr>, te_onTransferComplete env w)
                      else (True, t\<lparr>bt_session := s1\<lparr>ts_state := TS_kActive\<rparr>\<rparr>, w)))"

definition tx_handleReject :: "'w TransmitterEnv \<Rightarrow> bytes \<Rightarrow> 'w tx_action" where
  "tx_handleReject env message t w =
     (case decodeRejectKnownType message of None \<Rightarrow> (False, t, w)
      | Some reject \<Rightarrow>
          if \<not> tx_live t \<or> rj_session_id reject \<noteq> su_session_id (ts_setup (bt_session t)) then (True, t, w)
          else (True, tx_session (\<lambda>s. s\<lparr>ts_state := TS_kRejected\<rparr>) t,
                te_onTransferRejected env (rj_reason reject) w))"

definition tx_handleAbort :: "'w TransmitterEnv \<Rightarrow> bytes \<Rightarrow> 'w tx_action" where
  "tx_handleAbort env message t w =
     (case decodeAbortKnownType message of None \<Rightarrow> (False, t, w)
      | Some abort_message \<Rightarrow>
          if \<not> tx_live t \<or> ab_session_id abort_message \<noteq> su_session_id (ts_setup (bt_session t))
          then (True, t, w)
          else (True, transitionToAborted env t w))"

definition tx_handleDatagram :: "'w TransmitterEnv \<Rightarrow> 'w tx_action" where
  "tx_handleDatagram env t w =
     (let message = payload (bt_datagram_ingress t)
      in if message = [] then (False, t, w)
         else (case decodeControl (message ! 0) of None \<Rightarrow> (False, t, w)
           | Some control \<Rightarrow>
               (case ct_type control of
                  MT_kAck \<Rightarrow> tx_handleAck env message t w
                | MT_kReject \<Rightarrow> tx_handleReject env message t w
                | MT_kAbort \<Rightarrow> tx_handleAbort env message t w
                | MT_kUserDatagram \<Rightarrow>
                    (case decodeUserDatagramKnownType message of None \<Rightarrow> (False, t, w)
                     | Some datagram \<Rightarrow> (True, t, te_onDatagram env datagram w))
                | _ \<Rightarrow> (False, t, w))))"

subsection \<open>Endpoint operations\<close>

definition BitsTransmitter_receive :: "PacketBuffer \<Rightarrow> BitsTransmitter \<Rightarrow> ReceiveResult \<times> BitsTransmitter" where
  "BitsTransmitter_receive packet t =
     (if \<not> matchesConnection packet (bt_connection t) \<or> payload packet = [] then (RX_kRejected, t)
      else (case decodeControl (payload packet ! 0) of None \<Rightarrow> (RX_kRejected, t)
        | Some control \<Rightarrow>
            if ct_type control \<notin> {MT_kAck, MT_kReject, MT_kAbort, MT_kUserDatagram} then (RX_kRejected, t)
            else if bt_datagram_occupied t then (RX_kFull, t)
            else (case copyPacket packet (bt_datagram_ingress t) of
                (False, d) \<Rightarrow> (RX_kRejected, t)
              | (True, d) \<Rightarrow> (RX_kAccepted, t\<lparr>bt_datagram_ingress := d, bt_datagram_occupied := True\<rparr>))))"

definition tx_error :: "BitsTransmitter \<Rightarrow> BitsTransmitter" where
  "tx_error = tx_session (\<lambda>s. s\<lparr>ts_state := TS_kError\<rparr>)"

text \<open>The outcome of a send attempt in \<^verbatim>\<open>process\<close>: progress, blocked by a full link, or an error.\<close>

definition tx_attempt :: "bool \<times> BitsTransmitter \<times> 'w \<Rightarrow> ProcessResult \<times> BitsTransmitter \<times> 'w" where
  "tx_attempt a =
     (case a of (sent, t, w) \<Rightarrow>
        if sent then (PR_kProgress, t, w)
        else if bt_last_send t = SR_kFull then (PR_kBlocked, t, w)
        else (PR_kError, tx_error t, w))"

definition tx_give_up :: "'w TransmitterEnv \<Rightarrow> BitsTransmitter \<Rightarrow> 'w \<Rightarrow> ProcessResult \<times> BitsTransmitter \<times> 'w" where
  "tx_give_up env t w =
     (case tx_sendAbort env t w of (sent, t1, w1) \<Rightarrow> (PR_kError, transitionToAborted env t1 w1))"

definition tx_idle :: "bool \<Rightarrow> ProcessResult" where
  "tx_idle progressed = (if progressed then PR_kProgress else PR_kIdle)"

definition tx_process_starting ::
  "'w TransmitterEnv \<Rightarrow> u32 \<Rightarrow> bool \<Rightarrow> BitsTransmitter \<Rightarrow> 'w \<Rightarrow> ProcessResult \<times> BitsTransmitter \<times> 'w" where
  "tx_process_starting env now_ms progressed t w =
     (let s = bt_session t
      in if \<not> ts_setup_sent s then tx_attempt (tx_sendSetup env now_ms False t w)
         else if elapsed now_ms (ts_setup_last_send_ms s) (tm_retransmission_timeout_ms (bt_timing t))
         then if retryLimitReached (ts_setup_retry_count s) t then tx_give_up env t w
              else tx_attempt (tx_sendSetup env now_ms True t w)
         else (tx_idle progressed, t, w))"

definition tx_window_span :: "TransferSession \<Rightarrow> u8" where
  "tx_window_span s = ucast (ts_granted_end s - ts_acknowledged_count s)"

definition tx_outstanding :: "TransferSession \<Rightarrow> u16" where
  "tx_outstanding s = ts_sent_bitmap s AND NOT (ts_acknowledged_bitmap s) AND lowBitMask (tx_window_span s)"

text \<open>
  The two scans over the window offsets: the first offset never sent, and the first
  outstanding one whose retransmission timer has run out.
\<close>

definition tx_first_unsent :: "TransferSession \<Rightarrow> nat option" where
  "tx_first_unsent s =
     find (\<lambda>off. ts_sent_bitmap s AND push_bit off 1 = 0) [0..<unat (tx_window_span s)]"

definition tx_first_expired :: "u32 \<Rightarrow> TimingConfig \<Rightarrow> TransferSession \<Rightarrow> nat option" where
  "tx_first_expired now_ms timing s =
     find (\<lambda>off. \<not> (tx_outstanding s AND push_bit off 1 = 0
             \<or> \<not> elapsed now_ms (ts_segment_last_send_ms s ! off) (tm_retransmission_timeout_ms timing)))
       [0..<unat (tx_window_span s)]"

definition tx_process_probe ::
  "'w TransmitterEnv \<Rightarrow> u32 \<Rightarrow> bool \<Rightarrow> BitsTransmitter \<Rightarrow> 'w \<Rightarrow> ProcessResult \<times> BitsTransmitter \<times> 'w" where
  "tx_process_probe env now_ms progressed t w =
     (let s = bt_session t
      in if ts_acknowledged_count s < ts_segment_count s \<and> tx_outstanding s = 0
         then if \<not> ts_probe_timer_active s
              then (tx_idle progressed,
                    tx_session (\<lambda>s. s\<lparr>ts_probe_timer_active := True, ts_probe_last_send_ms := now_ms\<rparr>) t, w)
              else if elapsed now_ms (ts_probe_last_send_ms s) (tm_probe_timeout_ms (bt_timing t))
              then if retryLimitReached (ts_probe_retry_count s) t then tx_give_up env t w
                   else tx_attempt (tx_sendProbe env now_ms t w)
              else (tx_idle progressed, t, w)
         else (tx_idle progressed,
               tx_session (\<lambda>s. s\<lparr>ts_probe_timer_active := False, ts_probe_retry_count := 0\<rparr>) t, w))"

definition tx_process_active ::
  "'w TransmitterEnv \<Rightarrow> u32 \<Rightarrow> bool \<Rightarrow> BitsTransmitter \<Rightarrow> 'w \<Rightarrow> ProcessResult \<times> BitsTransmitter \<times> 'w" where
  "tx_process_active env now_ms progressed t w =
     (let s = bt_session t
      in case tx_first_unsent s of
           Some off \<Rightarrow> tx_attempt (tx_sendSegment env (of_nat off) now_ms False t w)
         | None \<Rightarrow>
             (case tx_first_expired now_ms (bt_timing t) s of
                Some off \<Rightarrow>
                  if retryLimitReached (ts_segment_retry_count s ! off) t then tx_give_up env t w
                  else tx_attempt (tx_sendSegment env (of_nat off) now_ms True t w)
              | None \<Rightarrow> tx_process_probe env now_ms progressed t w))"

definition BitsTransmitter_process ::
  "'w TransmitterEnv \<Rightarrow> u32 \<Rightarrow> BitsTransmitter \<Rightarrow> 'w \<Rightarrow> ProcessResult \<times> BitsTransmitter \<times> 'w" where
  "BitsTransmitter_process env now_ms t w =
     (let progressed = bt_datagram_occupied t
      in case (if progressed
               then (case tx_handleDatagram env t w of (handled, t1, w1) \<Rightarrow>
                       (handled, t1\<lparr>bt_datagram_occupied := False\<rparr>, w1))
               else (True, t, w)) of
           (False, t1, w1) \<Rightarrow> (PR_kError, tx_error t1, w1)
         | (True, t1, w1) \<Rightarrow>
             if ts_state (bt_session t1) = TS_kStarting then tx_process_starting env now_ms progressed t1 w1
             else if ts_state (bt_session t1) \<noteq> TS_kActive then (tx_idle progressed, t1, w1)
             else tx_process_active env now_ms progressed t1 w1)"

definition BitsTransmitter_sendDatagram ::
  "'w TransmitterEnv \<Rightarrow> bytes \<Rightarrow> BitsTransmitter \<Rightarrow> 'w \<Rightarrow> SendResult \<times> BitsTransmitter \<times> 'w" where
  "BitsTransmitter_sendDatagram env datagram t w =
     (let capacity = unat (pb_capacity (bt_transmit_packet t))
      in if capacity < kUserDatagramHeaderSize \<or> capacity - kUserDatagramHeaderSize < length datagram
         then (SR_kTooLarge, t, w)
         else (case preparePacket (of_nat (length datagram + kUserDatagramHeaderSize)) kNormal t of
                 (False, t1) \<Rightarrow> (SR_kTooLarge, t1, w)
               | (True, t1) \<Rightarrow>
                   (case encodeUserDatagram datagram (payload (bt_transmit_packet t1)) of
                      (ok, bs) \<Rightarrow>
                        let t2 = t1\<lparr>bt_transmit_packet := write_payload 0 bs (bt_transmit_packet t1)\<rparr>
                        in if \<not> ok then (SR_kTooLarge, t2, w)
                           else (case forwardPacket env t2 w of (sent, t3, w3) \<Rightarrow> (bt_last_send t3, t3, w3)))))"

definition BitsTransmitter_abort ::
  "'w TransmitterEnv \<Rightarrow> BitsTransmitter \<Rightarrow> 'w \<Rightarrow> SendResult \<times> BitsTransmitter \<times> 'w" where
  "BitsTransmitter_abort env t w =
     (if \<not> tx_live t then (SR_kInvalidState, t, w)
      else (case tx_sendAbort env t w of (sent, t1, w1) \<Rightarrow>
        (case transitionToAborted env t1 w1 of (t2, w2) \<Rightarrow> (bt_last_send t2, t2, w2))))"

end
