(* ===== verification/Bits_Sender.thy ===== *)
theory Bits_Sender
  imports Bits_Transmitter
begin

section \<open>Correctness of the BITS transmitter\<close>

text \<open>
  The invariant of a transmitter session (geometry of the object, bounds of the window,
  bitmaps inside it), that every operation keeps it, and that every packet handed to the
  router during a transfer is a message of that transfer.
\<close>

subsection \<open>The session invariant\<close>

definition session_window :: "TransferSession \<Rightarrow> bool" where
  "session_window s \<longleftrightarrow>
     setup_valid (ts_setup s) \<and> length (ts_object s) = unat (setupTotalSize (ts_setup s))
     \<and> ts_segment_count s = setupSegmentCount (ts_setup s)
     \<and> unat (ts_acknowledged_count s) \<le> unat (ts_granted_end s)
     \<and> unat (ts_granted_end s) \<le> unat (ts_segment_count s)
     \<and> unat (ts_granted_end s) \<le> unat (ts_acknowledged_count s) + 16
     \<and> (\<forall>i. bit (ts_sent_bitmap s) i \<longrightarrow> i < unat (ts_granted_end s) - unat (ts_acknowledged_count s))
     \<and> (\<forall>i. bit (ts_acknowledged_bitmap s) i \<longrightarrow> bit (ts_sent_bitmap s) i)"

lemma session_window_state [simp]: "session_window (s\<lparr>ts_state := x\<rparr>) = session_window s"
  by (simp add: session_window_def)

definition session_invar :: "TransferSession \<Rightarrow> bool" where
  "session_invar s \<longleftrightarrow>
     length (ts_segment_last_send_ms s) = 16 \<and> length (ts_segment_retry_count s) = 16
     \<and> (ts_state s \<in> {TS_kStarting, TS_kActive, TS_kCompleted} \<longrightarrow> session_window s)
     \<and> (ts_state s \<in> {TS_kStarting, TS_kActive} \<longrightarrow> ts_acknowledged_count s < ts_segment_count s)
     \<and> (ts_state s = TS_kCompleted \<longrightarrow> ts_acknowledged_count s = ts_segment_count s)"

definition tx_invar :: "BitsTransmitter \<Rightarrow> bool" where
  "tx_invar t \<longleftrightarrow> packet_invar (bt_transmit_packet t) \<and> packet_invar (bt_datagram_ingress t)
     \<and> session_invar (bt_session t)
     \<and> (tx_live t \<longrightarrow> 10 \<le> unat (pb_capacity (bt_transmit_packet t))
          \<and> unat (su_segment_size (ts_setup (bt_session t))) + 4 \<le> unat (pb_capacity (bt_transmit_packet t)))"

lemma tx_invar_init:
  "packet_invar d \<Longrightarrow> packet_invar p \<Longrightarrow> tx_invar (BitsTransmitter_init conn timing d p)"
  by (simp add: tx_invar_def BitsTransmitter_init_def session_invar_def TransferSession_init_def tx_live_def)

subsection \<open>Starting a transfer cuts the object exactly\<close>

lemma segmentCount_bounds:
  fixes z :: u16
  assumes "z \<noteq> 0" and "0 < L" and "L < 2 ^ 32"
  defines "c \<equiv> segmentCount (of_nat L) z"
  shows "0 < unat c" and "(unat c - 1) * unat z < L" and "L \<le> unat c * unat z"
proof -
  have z: "0 < unat z" using assms(1) by (simp add: unat_gt_0)
  have L: "unat (of_nat L :: u32) = L" using assms(3) by (simp add: unat_of_nat take_bit_nat_eq_self)
  have uz: "unat (ucast z :: u32) = unat z" by (simp add: unat_ucast_up)
  have m: "((of_nat L :: u32) mod ucast z = 0) = (L mod unat z = 0)"
    using L uz by (metis unat_eq_0 unat_mod_distrib)
  have d: "unat ((of_nat L :: u32) div ucast z) = L div unat z"
    using L uz by (simp add: unat_div_distrib)
  have "L div unat z + 1 < 2 ^ 32 \<or> L mod unat z = 0"
  proof (cases "unat z = 1")
    case False
    then have "L div unat z \<le> L div 2" using z by (intro div_le_mono2) auto
    then show ?thesis using assms(3) by auto
  qed simp
  then have c: "unat c = L div unat z + (if L mod unat z = 0 then 0 else 1)"
    unfolding c_def segmentCount_def using m d by (auto simp: unat_word_ariths)
  have split: "L = L div unat z * unat z + L mod unat z" by simp
  have lt: "L mod unat z < unat z" using z by simp
  show "0 < unat c" using c split assms(2) by (cases "L mod unat z = 0") auto
  have "(L div unat z + 1) * unat z = L div unat z * unat z + unat z" by simp
  then have up: "L \<le> (L div unat z + 1) * unat z" using split lt by linarith
  show "L \<le> unat c * unat z"
  proof (cases "L mod unat z = 0")
    case True
    then show ?thesis using c split by simp
  next
    case False
    then show ?thesis using c up by simp
  qed
  show "(unat c - 1) * unat z < L"
  proof (cases "L mod unat z = 0")
    case True
    then have "0 < L div unat z" using split assms(2) by (cases "L div unat z = 0") auto
    then have "(L div unat z - 1) * unat z < L div unat z * unat z" using z by simp
    moreover have "unat c - 1 = L div unat z - 1" using True c by simp
    moreover have "L = L div unat z * unat z" using True split by linarith
    ultimately show ?thesis by metis
  next
    case False
    then have "L div unat z * unat z < L" using split by linarith
    then show ?thesis using False c by simp
  qed
qed

lemma startTransfer_started:
  assumes inv: "tx_invar t" and st: "startTransfer obj z sid isn t = (ST_kStarted, t')"
  shows "tx_invar t'" and "ts_object (bt_session t') = obj" and "ts_state (bt_session t') = TS_kStarting"
    and "su_segment_size (ts_setup (bt_session t')) = z"
    and "su_session_id (ts_setup (bt_session t')) = sid"
proof -
  let ?L = "length obj" and ?c = "segmentCount (of_nat (length obj)) z"
  from st have a: "obj \<noteq> []" "z \<noteq> 0" "?L < 2 ^ 32" "?c \<noteq> 0" "\<not> kMaximumCompactSegmentCount < ?c"
    "\<not> (unat (pb_capacity (bt_transmit_packet t)) < kSetupSize
        \<or> (ucast (pb_capacity (bt_transmit_packet t)) :: u32) < ucast z + of_nat kSegmentHeaderSize)"
    by (auto simp: startTransfer_def Let_def split: if_splits)
  define fi where "fi = (ucast (?c - 1) :: u16)"
  define fs where "fs = (ucast (of_nat ?L - ucast fi * ucast z :: u32) :: u16)"
  define su where "su = \<lparr>su_session_id = sid, su_initial_sequence_number = isn,
      su_final_segment_index = fi, su_segment_size = z, su_final_segment_size = fs\<rparr>"
  have t': "t' = tx_session (\<lambda>s. (resetTransferTracking (s\<lparr>ts_object := obj, ts_setup := su,
      ts_segment_count := ?c\<rparr>))\<lparr>ts_state := TS_kStarting\<rparr>) t"
    using st by (auto simp: startTransfer_def Let_def su_def fi_def fs_def split: if_splits)
  have L0: "0 < ?L" using a(1) by simp
  note b = segmentCount_bounds [OF a(2) L0 a(3)]
  have c16: "unat ?c \<le> 65536"
    using a(5) by (simp add: kMaximumCompactSegmentCount_def word_less_nat_alt)
  have c1: "unat (?c - 1) = unat ?c - 1" using b(1) by (simp add: unat_sub_le)
  then have fi: "unat fi = unat ?c - 1"
    using c16 b(1) by (simp add: fi_def unsigned_ucast_eq take_bit_nat_eq_self)
  have z16: "unat z \<le> 65535" by (rule unat_u16_le)
  have "unat fi * unat z < 2 ^ 32" using b(2) a(3) fi by simp
  then have m: "unat (ucast fi * ucast z :: u32) = unat fi * unat z"
    by (simp add: unat_word_ariths unat_ucast_up)
  have L: "unat (of_nat ?L :: u32) = ?L" using a(3) by (simp add: unat_of_nat take_bit_nat_eq_self)
  have rest: "unat (of_nat ?L - ucast fi * ucast z :: u32) = ?L - unat fi * unat z"
    using b(2) fi m L by (subst unat_sub_le) auto
  have "unat ?c * unat z = unat fi * unat z + unat z"
    using fi b(1) by (cases "unat ?c") auto
  then have le: "?L - unat fi * unat z \<le> unat z" using b(3) by simp
  then have fs: "unat fs = ?L - unat fi * unat z"
    using rest z16 by (simp add: fs_def unsigned_ucast_eq take_bit_nat_eq_self)
  have pos: "0 < ?L - unat fi * unat z" using b(2) fi by simp
  have valid: "setup_valid su"
    using fs pos le by (simp add: setup_valid_def su_def word_less_nat_alt word_le_nat_alt)
  have total: "unat (setupTotalSize su) = ?L"
    using fs pos by (simp add: unat_setupTotalSize su_def)
  have "unat (setupSegmentCount su) = unat ?c"
    using fi b(1) by (simp add: unat_setupSegmentCount su_def)
  then have count: "?c = setupSegmentCount su" by (simp add: unat_eq_iff)
  have cap: "unat z + 4 \<le> unat (pb_capacity (bt_transmit_packet t))" "10 \<le> unat (pb_capacity (bt_transmit_packet t))"
    using a(6) z16 by (simp_all add: word_less_nat_alt unat_ucast_up unat_word_ariths bits_sizes not_less)
  show "tx_invar t'"
    using inv valid total count cap b(1)
    by (simp add: t' tx_session_def tx_invar_def session_invar_def session_window_def
        resetTransferTracking_def tx_live_def kCompactWindowWidth_def word_less_nat_alt su_def)
  show "ts_object (bt_session t') = obj" "ts_state (bt_session t') = TS_kStarting"
    "su_segment_size (ts_setup (bt_session t')) = z" "su_session_id (ts_setup (bt_session t')) = sid"
    by (simp_all add: t' tx_session_def resetTransferTracking_def su_def)
qed

subsection \<open>Acknowledgements\<close>

lemma shiftWindow_eq:
  assumes "length (ts_segment_last_send_ms s) = 16" and "length (ts_segment_retry_count s) = 16"
    and "unat k \<le> 16"
  shows "shiftWindow k s = s\<lparr>ts_sent_bitmap := drop_bit (unat k) (ts_sent_bitmap s),
     ts_acknowledged_bitmap := drop_bit (unat k) (ts_acknowledged_bitmap s),
     ts_segment_last_send_ms := drop (unat k) (ts_segment_last_send_ms s) @ replicate (unat k) 0,
     ts_segment_retry_count := drop (unat k) (ts_segment_retry_count s) @ replicate (unat k) 0\<rparr>"
proof -
  have "drop_bit 16 (x :: u16) = 0" for x
    by (rule bit_word_eqI) (auto simp: bit_simps dest: bit_imp_le_length)
  moreover have "unat k = 16" if "16 \<le> unat k" using that assms(3) by simp
  ultimately show ?thesis
    using assms by (auto simp: shiftWindow_def kCompactWindowWidth_def)
qed

lemma ack_admissible_bounds:
  assumes win: "session_window s" and ack: "ack_admissible a s"
  defines "adv \<equiv> ak_window_base a - baseSequence (ts_setup s) (ts_acknowledged_count s)"
    and "span \<equiv> ak_max_receive_sequence a - ak_window_base a"
  shows "unat adv \<le> 16" and "unat span \<le> 16"
    and "unat (ts_acknowledged_count s + ucast adv) = unat (ts_acknowledged_count s) + unat adv"
    and "unat (ts_acknowledged_count s + ucast adv + ucast span)
       = unat (ts_acknowledged_count s) + unat adv + unat span"
    and "unat (ts_acknowledged_count s) + unat adv + unat span \<le> unat (ts_segment_count s)"
    and "unat (ts_acknowledged_count s) + unat adv \<le> unat (ts_granted_end s)"
    and "\<forall>i < unat adv. bit (ts_sent_bitmap s) i"
proof -
  have n: "unat (ts_segment_count s) \<le> 65536" "unat (ts_acknowledged_count s) \<le> unat (ts_segment_count s)"
    using win unat_u16_le [of "su_final_segment_index (ts_setup s)"]
    by (auto simp: session_window_def unat_setupSegmentCount)
  show adv: "unat adv \<le> 16" and span: "unat span \<le> 16"
    using ack by (auto simp: ack_admissible_def kCompactWindowWidth_def Let_def adv_def span_def)
  have u: "unat (ucast adv :: u32) = unat adv" "unat (ucast span :: u32) = unat span"
    by (simp_all add: unat_ucast_up)
  show e1: "unat (ts_acknowledged_count s + ucast adv) = unat (ts_acknowledged_count s) + unat adv"
    using n adv u by (subst unat_add_le) auto
  show e2: "unat (ts_acknowledged_count s + ucast adv + ucast span)
       = unat (ts_acknowledged_count s) + unat adv + unat span"
    using n adv span u e1 by (subst unat_add_le) auto
  have "\<not> ts_segment_count s < ts_acknowledged_count s + ucast adv + ucast span"
    using ack by (auto simp: ack_admissible_def Let_def adv_def span_def)
  then show "unat (ts_acknowledged_count s) + unat adv + unat span \<le> unat (ts_segment_count s)"
    using e2 by (simp add: word_less_nat_alt)
  have "ts_sent_bitmap s AND lowBitMask adv = lowBitMask adv"
    using ack by (simp add: ack_admissible_def Let_def adv_def)
  then have "bit (lowBitMask adv) i \<Longrightarrow> bit (ts_sent_bitmap s) i" for i by (metis bit_and_iff)
  then show sent: "\<forall>i < unat adv. bit (ts_sent_bitmap s) i" using adv by (auto simp: bit_lowBitMask)
  show "unat (ts_acknowledged_count s) + unat adv \<le> unat (ts_granted_end s)"
  proof (cases "unat adv")
    case (Suc k)
    then have "k < unat (ts_granted_end s) - unat (ts_acknowledged_count s)"
      using sent win by (auto simp: session_window_def)
    then show ?thesis using Suc by simp
  qed (use win in \<open>simp add: session_window_def\<close>)
qed

lemma ack_apply_window:
  assumes win: "session_window s" and ack: "ack_admissible a s"
    and len: "length (ts_segment_last_send_ms s) = 16" "length (ts_segment_retry_count s) = 16"
  shows "session_window (ack_apply a s)"
    and "length (ts_segment_last_send_ms (ack_apply a s)) = 16"
    and "length (ts_segment_retry_count (ack_apply a s)) = 16"
    and "ts_setup (ack_apply a s) = ts_setup s" and "ts_object (ack_apply a s) = ts_object s"
    and "ts_segment_count (ack_apply a s) = ts_segment_count s"
proof -
  define adv where "adv = ak_window_base a - baseSequence (ts_setup s) (ts_acknowledged_count s)"
  define span where "span = ak_max_receive_sequence a - ak_window_base a"
  note b = ack_admissible_bounds [OF win ack, folded adv_def span_def]
  let ?e = "ts_acknowledged_count s + ucast adv + ucast span"
  have eq: "ack_apply a s = s\<lparr>
      ts_sent_bitmap := drop_bit (unat adv) (ts_sent_bitmap s),
      ts_acknowledged_bitmap := drop_bit (unat adv) (ts_acknowledged_bitmap s)
        OR (ak_window_bitmap a AND lowBitMask span AND drop_bit (unat adv) (ts_sent_bitmap s)),
      ts_segment_last_send_ms := drop (unat adv) (ts_segment_last_send_ms s) @ replicate (unat adv) 0,
      ts_segment_retry_count := drop (unat adv) (ts_segment_retry_count s) @ replicate (unat adv) 0,
      ts_acknowledged_count := ts_acknowledged_count s + ucast adv,
      ts_granted_end := (if ts_granted_end s < ?e then ?e else ts_granted_end s),
      ts_setup_sent := True, ts_probe_timer_active := False, ts_probe_retry_count := 0\<rparr>"
    unfolding ack_apply_def adv_def [symmetric] span_def [symmetric] Let_def
    using shiftWindow_eq [OF len b(1)] by simp
  show "length (ts_segment_last_send_ms (ack_apply a s)) = 16"
    "length (ts_segment_retry_count (ack_apply a s)) = 16"
    unfolding eq using len b(1) by simp_all
  show "ts_setup (ack_apply a s) = ts_setup s" "ts_object (ack_apply a s) = ts_object s"
    "ts_segment_count (ack_apply a s) = ts_segment_count s" unfolding eq by simp_all
  have g: "unat (if ts_granted_end s < ?e then ?e else ts_granted_end s) = max (unat (ts_granted_end s)) (unat ?e)"
    by (auto simp: word_less_nat_alt)
  have sent: "i < unat (ts_granted_end s) - unat (ts_acknowledged_count s)" if "bit (ts_sent_bitmap s) i" for i
    using win that by (auto simp: session_window_def)
  have "i < max (unat (ts_granted_end s)) (unat ?e) - (unat (ts_acknowledged_count s) + unat adv)"
    if "bit (ts_sent_bitmap s) (unat adv + i)" for i
    using sent [OF that] by auto
  then show "session_window (ack_apply a s)"
    using win b g unfolding eq by (auto simp: session_window_def bit_drop_bit_eq bit_simps)
qed

subsection \<open>Sending keeps the session\<close>

lemma preparePacket_facts:
  assumes "preparePacket n q t = (ok, t1)" and "packet_invar (bt_transmit_packet t)"
  shows "packet_invar (bt_transmit_packet t1)" and "bt_session t1 = bt_session t"
    and "bt_datagram_ingress t1 = bt_datagram_ingress t" and "bt_timing t1 = bt_timing t"
    and "bt_connection t1 = bt_connection t" and "bt_datagram_occupied t1 = bt_datagram_occupied t"
    and "pb_capacity (bt_transmit_packet t1) = pb_capacity (bt_transmit_packet t)"
    and "ok \<longleftrightarrow> n \<le> pb_capacity (bt_transmit_packet t)"
    and "ok \<Longrightarrow> pb_size (bt_transmit_packet t1) = n \<and> length (payload (bt_transmit_packet t1)) = unat n"
proof -
  obtain k p where i: "initializeConnection n (bt_connection t) (ControlFields_bits q) (bt_transmit_packet t) = (k, p)"
    by fastforce
  then have t1: "ok = k" "t1 = t\<lparr>bt_last_send := SR_kTooLarge, bt_transmit_packet := p\<rparr>"
    using assms(1) by (auto simp: preparePacket_def)
  have p: "packet_invar p" "pb_capacity p = pb_capacity (bt_transmit_packet t)"
    "k \<longleftrightarrow> n \<le> pb_capacity (bt_transmit_packet t)"
    using initializeConnection_invar [OF assms(2), of n "bt_connection t" "ControlFields_bits q"]
      initializeConnection_capacity [of n "bt_connection t" "ControlFields_bits q" "bt_transmit_packet t"]
      initializeConnection_fst [of n "bt_connection t" "ControlFields_bits q" "bt_transmit_packet t"] i
    by simp_all
  have sz: "k \<Longrightarrow> pb_size p = n" using initializeConnection_success(1) i by simp
  show "packet_invar (bt_transmit_packet t1)" "bt_session t1 = bt_session t"
    "bt_datagram_ingress t1 = bt_datagram_ingress t" "bt_timing t1 = bt_timing t"
    "bt_connection t1 = bt_connection t" "bt_datagram_occupied t1 = bt_datagram_occupied t"
    "pb_capacity (bt_transmit_packet t1) = pb_capacity (bt_transmit_packet t)"
    "ok \<longleftrightarrow> n \<le> pb_capacity (bt_transmit_packet t)" using p t1 by simp_all
  show "ok \<Longrightarrow> pb_size (bt_transmit_packet t1) = n \<and> length (payload (bt_transmit_packet t1)) = unat n"
    using p sz t1 by simp
qed

text \<open>Two transmitters that differ only in the packet being built and the last send result.\<close>

definition tx_same :: "BitsTransmitter \<Rightarrow> BitsTransmitter \<Rightarrow> bool" where
  "tx_same t t' \<longleftrightarrow> bt_session t' = bt_session t \<and> bt_datagram_ingress t' = bt_datagram_ingress t
     \<and> bt_timing t' = bt_timing t \<and> bt_connection t' = bt_connection t
     \<and> bt_datagram_occupied t' = bt_datagram_occupied t
     \<and> pb_capacity (bt_transmit_packet t') = pb_capacity (bt_transmit_packet t)
     \<and> (packet_invar (bt_transmit_packet t) \<longrightarrow> packet_invar (bt_transmit_packet t'))"

lemma tx_same_refl [simp]: "tx_same t t"
  by (simp add: tx_same_def)

lemma tx_same_invar: "tx_same t t' \<Longrightarrow> tx_invar t \<Longrightarrow> tx_invar t'"
  by (auto simp: tx_same_def tx_invar_def tx_live_def)

lemma forwardPacket_same: "tx_same t (fst (snd (forwardPacket env t w)))"
  by (simp add: forwardPacket_def tx_same_def split: prod.splits)

text \<open>An encoder that writes a fixed image of the prepared size.\<close>

lemma tx_send_message_facts:
  assumes pk: "packet_invar (bt_transmit_packet t)" and n: "n < 65536"
    and enc: "\<And>out. length out = n \<Longrightarrow> encode out = (True, wire)" and len: "length wire = n"
    and send: "tx_send_message env n q encode t w = (sent, t', w')"
  shows "tx_same t t'"
    and "w' = w \<and> \<not> sent \<or> (\<exists>p r. te_forward env p w = (r, w') \<and> packet_invar p \<and> payload p = wire)"
proof -
  obtain ok t1 where pp: "preparePacket (of_nat n) q t = (ok, t1)" by fastforce
  note f = preparePacket_facts [OF pp pk]
  have un: "unat (of_nat n :: u16) = n" using n by (simp add: unat_of_nat take_bit_nat_eq_self)
  have "tx_same t t' \<and> (w' = w \<and> \<not> sent \<or> (\<exists>p r. te_forward env p w = (r, w') \<and> packet_invar p \<and> payload p = wire))"
  proof (cases ok)
    case False
    then have "t' = t1" "w' = w" "\<not> sent" using send pp by (auto simp: tx_send_message_def)
    then show ?thesis using f by (simp add: tx_same_def)
  next
    case True
    let ?p = "write_payload 0 wire (bt_transmit_packet t1)"
    have e: "encode (payload (bt_transmit_packet t1)) = (True, wire)"
      using f(9) [OF True] un by (intro enc) simp
    have size: "unat (pb_size (bt_transmit_packet t1)) = n" using f(9) [OF True] un by simp
    have inv: "packet_invar ?p" using f(1) size len by simp
    have pay: "payload ?p = wire"
      using f(1) f(9) [OF True] size len un by (simp add: payload_write_payload)
    have "forwardPacket env (t1\<lparr>bt_transmit_packet := ?p\<rparr>) w = (sent, t', w')"
      using send pp True e by (simp add: tx_send_message_def Let_def)
    moreover obtain r w1 where "te_forward env ?p w = (r, w1)" by fastforce
    ultimately show ?thesis
      using f inv pay by (auto simp: forwardPacket_def tx_same_def)
  qed
  then show "tx_same t t'"
    "w' = w \<and> \<not> sent \<or> (\<exists>p r. te_forward env p w = (r, w') \<and> packet_invar p \<and> payload p = wire)" by auto
qed

lemma encode_exact:
  "length out = 10 \<Longrightarrow> encodeSetup s out = (True, setup_wire s)"
  "length out = 2 \<Longrightarrow> encodeProbe pr out = (True, probe_wire pr)"
  "length out = 2 \<Longrightarrow> encodeAbort ab out = (True, abort_wire ab)"
  by (simp_all add: encode_wires)

text \<open>A SEGMENT packet carries the header of its index and the bytes of the object.\<close>

lemma tx_sendSegment_facts:
  assumes inv: "tx_invar t" and live: "tx_live t" and off: "unat off < 16"
    and send: "tx_sendSegment env off now re t w = (sent, t', w')"
    and idx: "unat (ts_acknowledged_count (bt_session t)) + unat off < unat (ts_segment_count (bt_session t))"
  defines "i \<equiv> unat (ts_acknowledged_count (bt_session t)) + unat off"
    and "su \<equiv> ts_setup (bt_session t)"
  shows "\<exists>p r h. te_forward env p w = (r, w') \<and> packet_invar p
      \<and> payload p = segment_wire h @ object_segment su (ts_object (bt_session t)) i
      \<and> sh_session_id h = su_session_id su \<and> unat (sh_segment_index h) = i"
    and "\<not> sent \<Longrightarrow> tx_same t t'"
    and "sent \<Longrightarrow> \<exists>t2. tx_same t t2 \<and> t' = tx_session (\<lambda>s. s\<lparr>
        ts_sent_bitmap := ts_sent_bitmap s OR push_bit (unat off) 1,
        ts_segment_last_send_ms := (ts_segment_last_send_ms s)[unat off := now],
        ts_segment_retry_count := (ts_segment_retry_count s)[unat off :=
          (if re then ts_segment_retry_count s ! unat off + 1 else 0)],
        ts_probe_timer_active := False\<rparr>) t2"
proof -
  let ?s = "bt_session t"
  define x where "x = ts_acknowledged_count ?s + ucast off"
  have win: "session_window ?s" using inv live by (auto simp: tx_invar_def session_invar_def tx_live_def)
  have n: "unat (ts_segment_count ?s) = unat (su_final_segment_index su) + 1"
    using win by (simp add: session_window_def unat_setupSegmentCount su_def)
  have fi: "unat (su_final_segment_index su) \<le> 65535" by (rule unat_u16_le)
  have x: "unat x = i"
    using idx n fi unfolding x_def i_def by (subst unat_add_le) (simp_all add: unat_ucast_up)
  have ilt: "i \<le> unat (su_final_segment_index su)" using idx n by (simp add: i_def)
  have notge: "\<not> ts_segment_count ?s \<le> x" using x idx by (simp add: word_le_nat_alt i_def)
  have valid: "setup_valid su" using win by (simp add: session_window_def su_def)
  have objlen: "length (ts_object ?s) = unat (setupTotalSize su)" using win by (simp add: session_window_def su_def)
  have "(x = ucast (su_final_segment_index su)) = (i = unat (su_final_segment_index su))"
    using x unat_eq_iff [of x "ucast (su_final_segment_index su)"] by (simp add: unat_ucast_up)
  then have sz: "unat (tx_segment_size ?s x) = setup_segment_length su i"
    by (simp add: tx_segment_size_def setup_segment_length_def su_def)
  have zs: "setup_segment_length su i \<le> unat (su_segment_size su)" using valid by (rule segment_length_le)
  have cap: "unat (su_segment_size su) + 4 \<le> unat (pb_capacity (bt_transmit_packet t))"
    using inv live by (simp add: tx_invar_def su_def)
  have pk: "packet_invar (bt_transmit_packet t)" using inv by (simp add: tx_invar_def)
  let ?m = "of_nat kSegmentHeaderSize + tx_segment_size ?s x"
  have m: "unat ?m = 4 + setup_segment_length su i"
    using sz zs cap unat_u16_le [of "pb_capacity (bt_transmit_packet t)"]
    by (subst unat_add_le) (simp_all add: bits_sizes)
  obtain ok t1 where pp: "preparePacket ?m kBackground t = (ok, t1)" by fastforce
  note f = preparePacket_facts [OF pp pk]
  have ok: ok using f(8) m zs cap by (simp add: word_le_nat_alt)
  define h where "h = \<lparr>sh_session_id = su_session_id su, sh_segment_index = ucast x\<rparr>"
  define slice where "slice = subspan (ts_object ?s) (unat (x * ucast (su_segment_size su))) (unat (tx_segment_size ?s x))"
  let ?bs = "span_write 0 (segment_wire h) (payload (bt_transmit_packet t1))"
  let ?p = "write_payload 4 slice (write_payload 0 ?bs (bt_transmit_packet t1))"
  have len1: "length (payload (bt_transmit_packet t1)) = 4 + setup_segment_length su i" "pb_size (bt_transmit_packet t1) = ?m"
    using f(9) [OF ok] m by simp_all
  have enc: "encodeSegmentHeader h (payload (bt_transmit_packet t1)) = (True, ?bs)"
    using len1 by (simp add: encode_wires)
  have hx: "unat (sh_segment_index h) = i"
    using x ilt fi by (simp add: h_def unsigned_ucast_eq take_bit_nat_eq_self)
  have end_le: "i * unat (su_segment_size su) + setup_segment_length su i \<le> unat (setupTotalSize su)"
    by (rule segment_end_le_total [OF valid ilt])
  have "unat (setupTotalSize su) < 2 ^ 32" using unsigned_less [of "setupTotalSize su", where ?'a = nat] by simp
  then have mul: "unat (x * ucast (su_segment_size su)) = i * unat (su_segment_size su)"
    using end_le x by (simp add: unat_word_ariths unat_ucast_up)
  have slice: "slice = object_segment su (ts_object ?s) i"
    by (simp add: slice_def mul sz object_segment_def)
  then have slen: "length slice = setup_segment_length su i"
    using length_object_segment [OF valid objlen ilt] by simp
  have inv0: "packet_invar (write_payload 0 ?bs (bt_transmit_packet t1))"
    using f(1) len1 m by simp
  have pinv: "packet_invar ?p" using inv0 len1 m slen by simp
  have "payload (write_payload 0 ?bs (bt_transmit_packet t1)) = ?bs"
    using f(1) len1 m by (simp add: payload_write_payload)
  then have "payload ?p = span_write 4 slice ?bs"
    using payload_write_payload [OF inv0, of 4 slice] len1 m slen by simp
  then have pay: "payload ?p = segment_wire h @ slice"
    using span_write_append [of 0 "segment_wire h" slice "payload (bt_transmit_packet t1)"] len1 slen by simp
  obtain r w1 where fw: "te_forward env ?p w = (r, w1)" by fastforce
  have go: "tx_sendSegment env off now re t w =
      (if sendResult r = SR_kSent
       then (True, tx_session (\<lambda>s. s\<lparr>
          ts_sent_bitmap := ts_sent_bitmap s OR push_bit (unat off) 1,
          ts_segment_last_send_ms := (ts_segment_last_send_ms s)[unat off := now],
          ts_segment_retry_count := (ts_segment_retry_count s)[unat off :=
            (if re then ts_segment_retry_count s ! unat off + 1 else 0)],
          ts_probe_timer_active := False\<rparr>) (t1\<lparr>bt_transmit_packet := ?p, bt_last_send := sendResult r\<rparr>), w1)
       else (False, t1\<lparr>bt_transmit_packet := ?p, bt_last_send := sendResult r\<rparr>, w1))"
    unfolding tx_sendSegment_def x_def [symmetric] su_def [symmetric] Let_def if_not_P [OF notge]
    using pp ok enc fw by (simp add: h_def forwardPacket_def slice_def bits_sizes)
  have same: "tx_same t (t1\<lparr>bt_transmit_packet := ?p, bt_last_send := sendResult r\<rparr>)"
    using f pinv by (simp add: tx_same_def)
  have w': "w' = w1" "sent \<longleftrightarrow> sendResult r = SR_kSent" using go send by (auto split: if_splits)
  show "\<exists>p r h. te_forward env p w = (r, w') \<and> packet_invar p
      \<and> payload p = segment_wire h @ object_segment su (ts_object (bt_session t)) i
      \<and> sh_session_id h = su_session_id su \<and> unat (sh_segment_index h) = i"
    using fw w' pinv pay slice hx by (intro exI [of _ ?p] exI [of _ r] exI [of _ h]) (simp add: h_def)
  show "\<not> sent \<Longrightarrow> tx_same t t'" using go send same w' by auto
  show "sent \<Longrightarrow> \<exists>t2. tx_same t t2 \<and> t' = tx_session (\<lambda>s. s\<lparr>
        ts_sent_bitmap := ts_sent_bitmap s OR push_bit (unat off) 1,
        ts_segment_last_send_ms := (ts_segment_last_send_ms s)[unat off := now],
        ts_segment_retry_count := (ts_segment_retry_count s)[unat off :=
          (if re then ts_segment_retry_count s ! unat off + 1 else 0)],
        ts_probe_timer_active := False\<rparr>) t2"
    using go send same w' by auto
qed

lemma unat_window_span:
  assumes "session_window s"
  shows "unat (tx_window_span s) = unat (ts_granted_end s) - unat (ts_acknowledged_count s)"
proof -
  have "unat (ts_granted_end s - ts_acknowledged_count s) = unat (ts_granted_end s) - unat (ts_acknowledged_count s)"
    using assms by (simp add: session_window_def unat_sub_le)
  moreover have "unat (ts_granted_end s) - unat (ts_acknowledged_count s) < 2 ^ 8"
    using assms by (auto simp: session_window_def)
  ultimately show ?thesis
    by (simp add: tx_window_span_def unsigned_ucast_eq take_bit_nat_eq_self)
qed

subsection \<open>Messages of a transfer\<close>

lemma honest_wires:
  "honest_message s obj (setup_wire s)"
  "honest_message s obj (probe_wire pr)"
  "honest_message s obj (abort_wire ab)"
  "honest_message s obj (5 # datagram)"
  "sh_session_id h = su_session_id s \<Longrightarrow>
     honest_message s obj (segment_wire h @ object_segment s obj (unat (sh_segment_index h)))"
proof -
  have no: "decodeSegmentHeader m = None" if "m = x # m'" "x \<noteq> 1" for m m' and x :: u8
    using that by (auto simp: decodeSegmentHeader_def hasType_iff)
  have ns: "decodeSetup m = None" if "m = x # m'" "x \<noteq> 0" for m m' and x :: u8
    using that by (auto simp: decodeSetup_def hasType_iff)
  have "decodeSetup (setup_wire s) = Some s" by (simp add: decodeSetup_iff)
  moreover have "decodeSegmentHeader (setup_wire s) = None" by (rule no [of _ 0]) (simp_all add: wire_defs)
  ultimately show "honest_message s obj (setup_wire s)" by (simp add: honest_message_def)
  show "honest_message s obj (probe_wire pr)" "honest_message s obj (abort_wire ab)"
    "honest_message s obj (5 # datagram)"
    by (simp_all add: honest_message_def no [OF refl] ns [OF refl] wire_defs)
  assume h: "sh_session_id h = su_session_id s"
  let ?m = "segment_wire h @ object_segment s obj (unat (sh_segment_index h))"
  have "decodeSegmentHeader ?m = Some h" by (auto simp: decodeSegmentHeader_iff)
  moreover have "decodeSetup ?m = None" by (rule ns [of _ 1]) (simp_all add: wire_defs)
  ultimately show "honest_message s obj ?m" by (simp add: honest_message_def)
qed

text \<open>
  The messages of a transmitter that moves \<open>obj\<close> under \<open>s\<close>: the SETUP, the SEGMENTs of the object, the
  PROBE and the ABORT, all of the session of \<open>s\<close>, and the datagrams it was given.
\<close>

definition transfer_message :: "Setup \<Rightarrow> bytes \<Rightarrow> bytes set \<Rightarrow> bytes \<Rightarrow> bool" where
  "transfer_message s obj datagrams message \<longleftrightarrow>
     message = setup_wire s
     \<or> (\<exists>i \<le> unat (su_final_segment_index s). message =
          segment_wire \<lparr>sh_session_id = su_session_id s, sh_segment_index = of_nat i\<rparr> @ object_segment s obj i)
     \<or> message = probe_wire \<lparr>pr_session_id = su_session_id s\<rparr>
     \<or> message = abort_wire \<lparr>ab_session_id = su_session_id s\<rparr>
     \<or> (\<exists>d \<in> datagrams. message = 5 # d)"

lemma transfer_messageI:
  "transfer_message s obj datagrams (setup_wire s)"
  "transfer_message s obj datagrams (probe_wire \<lparr>pr_session_id = su_session_id s\<rparr>)"
  "transfer_message s obj datagrams (abort_wire \<lparr>ab_session_id = su_session_id s\<rparr>)"
  "d \<in> datagrams \<Longrightarrow> transfer_message s obj datagrams (5 # d)"
  "sh_session_id h = su_session_id s \<Longrightarrow> unat (sh_segment_index h) \<le> unat (su_final_segment_index s) \<Longrightarrow>
     transfer_message s obj datagrams (segment_wire h @ object_segment s obj (unat (sh_segment_index h)))"
proof -
  assume h: "sh_session_id h = su_session_id s" "unat (sh_segment_index h) \<le> unat (su_final_segment_index s)"
  have "\<lparr>sh_session_id = su_session_id s, sh_segment_index = of_nat (unat (sh_segment_index h))\<rparr> = h"
    using h(1) by (cases h) simp
  then show "transfer_message s obj datagrams (segment_wire h @ object_segment s obj (unat (sh_segment_index h)))"
    unfolding transfer_message_def using h(2) by metis
qed (simp_all add: transfer_message_def)

lemma transfer_message_honest: "transfer_message s obj datagrams message \<Longrightarrow> honest_message s obj message"
proof -
  have "honest_message s obj (segment_wire \<lparr>sh_session_id = su_session_id s, sh_segment_index = of_nat i\<rparr> @ object_segment s obj i)"
    if "i \<le> unat (su_final_segment_index s)" for i
  proof -
    have "i < 65536" using that unat_u16_le [of "su_final_segment_index s"] by simp
    then have "unat (of_nat i :: u16) = i" by (simp add: unat_of_nat take_bit_nat_eq_self)
    then show ?thesis
      using honest_wires(5) [of "\<lparr>sh_session_id = su_session_id s, sh_segment_index = of_nat i\<rparr>" s obj] by simp
  qed
  then show "transfer_message s obj datagrams message \<Longrightarrow> honest_message s obj message"
    by (auto simp: transfer_message_def honest_wires)
qed

subsection \<open>Everything forwarded belongs to the transfer\<close>

text \<open>What can happen to a transmitter while a transfer runs.\<close>

datatype tx_event = TxReceive PacketBuffer | TxProcess u32 | TxDatagram bytes | TxAbort

fun tx_step :: "'w TransmitterEnv \<Rightarrow> tx_event \<Rightarrow> BitsTransmitter \<times> 'w \<Rightarrow> BitsTransmitter \<times> 'w" where
  "tx_step env (TxReceive packet) (t, w) = (snd (BitsTransmitter_receive packet t), w)"
| "tx_step env (TxProcess now) (t, w) = snd (BitsTransmitter_process env now t w)"
| "tx_step env (TxDatagram datagram) (t, w) = snd (BitsTransmitter_sendDatagram env datagram t w)"
| "tx_step env TxAbort (t, w) = snd (BitsTransmitter_abort env t w)"

definition tx_run :: "'w TransmitterEnv \<Rightarrow> tx_event list \<Rightarrow> BitsTransmitter \<times> 'w \<Rightarrow> BitsTransmitter \<times> 'w" where
  "tx_run env events s = fold (tx_step env) events s"

fun tx_event_wf :: "tx_event \<Rightarrow> bool" where
  "tx_event_wf (TxReceive packet) = packet_invar packet"
| "tx_event_wf (TxProcess now) = True"
| "tx_event_wf (TxDatagram datagram) = True"
| "tx_event_wf TxAbort = True"

text \<open>Sending a datagram is sending a message of its size.\<close>

lemma sendDatagram_as_message:
  assumes "BitsTransmitter_sendDatagram env d t w = (r, t', w')"
  shows "t' = t \<and> w' = w \<or> length d + 1 < 65536 \<and>
    (\<exists>sent. tx_send_message env (length d + 1) kNormal (encodeUserDatagram d) t w = (sent, t', w'))"
proof (cases "unat (pb_capacity (bt_transmit_packet t)) < kUserDatagramHeaderSize
    \<or> unat (pb_capacity (bt_transmit_packet t)) - kUserDatagramHeaderSize < length d")
  case True
  then show ?thesis using assms by (auto simp: BitsTransmitter_sendDatagram_def Let_def)
next
  case False
  then have "length d + 1 < 65536"
    using unat_u16_le [of "pb_capacity (bt_transmit_packet t)"] by (auto simp: bits_sizes)
  moreover have "\<exists>sent. tx_send_message env (length d + 1) kNormal (encodeUserDatagram d) t w = (sent, t', w')"
    using assms False unfolding BitsTransmitter_sendDatagram_def tx_send_message_def Let_def
    by (auto simp: bits_sizes split: prod.splits bool.splits if_splits)
  ultimately show ?thesis by blast
qed

text \<open>A record of packets that grows only by the packets the router is given; callbacks leave it alone.\<close>

locale packet_recorder =
  fixes env :: "'w TransmitterEnv" and forwarded :: "'w \<Rightarrow> PacketBuffer list" and datagrams :: "bytes set"
  assumes forward_logs: "te_forward env p w = (r, w') \<Longrightarrow> set (forwarded w') \<subseteq> insert p (set (forwarded w))"
    and datagram_keeps: "forwarded (te_onDatagram env bs w) = forwarded w"
    and complete_keeps: "forwarded (te_onTransferComplete env w) = forwarded w"
    and rejected_keeps: "forwarded (te_onTransferRejected env reason w) = forwarded w"
    and aborted_keeps: "forwarded (te_onTransferAborted env w) = forwarded w"
begin

definition log_ok :: "Setup \<Rightarrow> bytes \<Rightarrow> 'w \<Rightarrow> bool" where
  "log_ok s obj w \<longleftrightarrow> (\<forall>p \<in> set (forwarded w). packet_invar p \<and> transfer_message s obj datagrams (payload p))"

definition tx_ok :: "Setup \<Rightarrow> bytes \<Rightarrow> BitsTransmitter \<Rightarrow> 'w \<Rightarrow> bool" where
  "tx_ok s obj t w \<longleftrightarrow> tx_invar t \<and> ts_setup (bt_session t) = s \<and> ts_object (bt_session t) = obj \<and> log_ok s obj w"

lemma log_ok_forward:
  "log_ok s obj w \<Longrightarrow> te_forward env p w = (r, w') \<Longrightarrow> packet_invar p \<Longrightarrow>
     transfer_message s obj datagrams (payload p) \<Longrightarrow> log_ok s obj w'"
  using forward_logs by (fastforce simp: log_ok_def)

lemma send_message_ok:
  assumes "tx_ok s obj t w" and "tx_send_message env n q encode t w = (sent, t', w')"
    and "n < 65536" and "\<And>out. length out = n \<Longrightarrow> encode out = (True, wire)" and "length wire = n"
    and "transfer_message s obj datagrams wire"
  shows "tx_same t t'" and "tx_ok s obj t' w'"
proof -
  have pk: "packet_invar (bt_transmit_packet t)" using assms(1) by (simp add: tx_ok_def tx_invar_def)
  note f = tx_send_message_facts [OF pk assms(3,4,5,2)]
  show same: "tx_same t t'" by (rule f(1))
  have "log_ok s obj w'"
    using f(2) assms(1,6) log_ok_forward by (auto simp: tx_ok_def)
  then show "tx_ok s obj t' w'"
    using assms(1) same tx_same_invar by (auto simp: tx_ok_def tx_same_def)
qed

lemma sendSetup_message_ok:
  assumes "tx_ok s obj t w" and "tx_send_message env kSetupSize q (encodeSetup s) t w = (sent, t', w')"
  shows "tx_same t t'" and "tx_ok s obj t' w'"
  using send_message_ok [OF assms _ _ _ transfer_messageI(1)] by (simp_all add: bits_sizes encode_exact)

lemma sendProbe_message_ok:
  assumes "tx_ok s obj t w"
    and "tx_send_message env kProbeSize q (encodeProbe \<lparr>pr_session_id = su_session_id (ts_setup (bt_session t))\<rparr>) t w = (sent, t', w')"
  shows "tx_same t t'" and "tx_ok s obj t' w'"
proof -
  have "ts_setup (bt_session t) = s" using assms(1) by (simp add: tx_ok_def)
  then have "transfer_message s obj datagrams (probe_wire \<lparr>pr_session_id = su_session_id (ts_setup (bt_session t))\<rparr>)"
    by (simp add: transfer_messageI)
  from send_message_ok [OF assms _ _ _ this] show "tx_same t t'" "tx_ok s obj t' w'" by (simp_all add: bits_sizes encode_exact)
qed

lemma sendAbort_message_ok:
  assumes "tx_ok s obj t w" and "tx_sendAbort env t w = (sent, t', w')"
  shows "tx_same t t'" and "tx_ok s obj t' w'"
proof -
  have "ts_setup (bt_session t) = s" using assms(1) by (simp add: tx_ok_def)
  then have "transfer_message s obj datagrams (abort_wire \<lparr>ab_session_id = su_session_id (ts_setup (bt_session t))\<rparr>)"
    by (simp add: transfer_messageI)
  from send_message_ok [OF assms(1) assms(2) [unfolded tx_sendAbort_def] _ _ _ this]
  show "tx_same t t'" "tx_ok s obj t' w'" by (simp_all add: bits_sizes encode_exact)
qed

text \<open>Session updates that leave the window alone.\<close>

lemma session_update_ok:
  assumes "tx_ok s obj t w"
    and "\<And>x. session_invar x \<Longrightarrow> session_invar (f x)"
    and "\<And>x. ts_setup (f x) = ts_setup x \<and> ts_object (f x) = ts_object x"
    and "\<And>x. ts_state (f x) \<in> {TS_kStarting, TS_kActive} \<Longrightarrow> ts_state x \<in> {TS_kStarting, TS_kActive}"
  shows "tx_ok s obj (tx_session f t) w"
  using assms by (auto simp: tx_ok_def tx_invar_def tx_session_def tx_live_def)

lemma error_ok: "tx_ok s obj t w \<Longrightarrow> tx_ok s obj (tx_error t) w"
  unfolding tx_error_def by (rule session_update_ok) (auto simp: session_invar_def)

lemma attempt_ok:
  "tx_ok s obj t w \<Longrightarrow> tx_attempt (sent, t, w) = (r, t', w') \<Longrightarrow> tx_ok s obj t' w'"
  by (auto simp: tx_attempt_def error_ok split: if_splits)

lemma sendSetup_ok:
  assumes ok: "tx_ok s obj t w" and send: "tx_sendSetup env now re t w = (sent, t', w')"
  shows "tx_ok s obj t' w'"
proof -
  obtain k t1 w1 where m: "tx_send_message env kSetupSize kNormal (encodeSetup s) t w = (k, t1, w1)"
    by (metis prod_cases3)
  have "tx_ok s obj t1 w1" by (rule sendSetup_message_ok(2) [OF ok m])
  then show ?thesis
    using send m ok
    by (auto simp: tx_sendSetup_def tx_ok_def [of s obj t] split: bool.splits
        intro!: session_update_ok simp: session_invar_def session_window_def)
qed

lemma sendProbe_ok:
  assumes ok: "tx_ok s obj t w" and send: "tx_sendProbe env now t w = (sent, t', w')"
  shows "tx_ok s obj t' w'"
proof -
  obtain k t1 w1 where m: "tx_send_message env kProbeSize kNormal
      (encodeProbe \<lparr>pr_session_id = su_session_id (ts_setup (bt_session t))\<rparr>) t w = (k, t1, w1)"
    by (metis prod_cases3)
  have "tx_ok s obj t1 w1" by (rule sendProbe_message_ok(2) [OF ok m])
  then show ?thesis
    using send m
    by (auto simp: tx_sendProbe_def split: bool.splits
        intro!: session_update_ok simp: session_invar_def session_window_def)
qed

lemma aborted_ok:
  "tx_ok s obj t w \<Longrightarrow> transitionToAborted env t w = (t', w') \<Longrightarrow> tx_ok s obj t' w'"
  using session_update_ok [of s obj t w "\<lambda>x. x\<lparr>ts_state := TS_kAborted\<rparr>"]
  by (auto simp: transitionToAborted_def tx_ok_def log_ok_def aborted_keeps session_invar_def split: if_splits)

lemma give_up_ok: "tx_ok s obj t w \<Longrightarrow> tx_give_up env t w = (r, t', w') \<Longrightarrow> tx_ok s obj t' w'"
  by (auto simp: tx_give_up_def split: prod.splits dest: sendAbort_message_ok(2) aborted_ok)

lemma sendSegment_ok:
  assumes ok: "tx_ok s obj t w" and live: "ts_state (bt_session t) = TS_kActive"
    and off: "off < unat (tx_window_span (bt_session t))"
    and send: "tx_sendSegment env (of_nat off) now re t w = (sent, t', w')"
  shows "tx_ok s obj t' w'"
proof -
  let ?s = "bt_session t"
  have inv: "tx_invar t" "ts_setup ?s = s" "ts_object ?s = obj" "log_ok s obj w" using ok by (auto simp: tx_ok_def)
  have tl: "tx_live t" using live by (simp add: tx_live_def)
  have si: "session_invar ?s" "session_window ?s" using inv(1) live by (auto simp: tx_invar_def session_invar_def)
  have span: "unat (tx_window_span ?s) = unat (ts_granted_end ?s) - unat (ts_acknowledged_count ?s)"
    using si(2) by (rule unat_window_span)
  then have off16: "off < 16" "unat (of_nat off :: u8) = off"
    using off si(2) by (auto simp: session_window_def unat_of_nat take_bit_nat_eq_self)
  have lt: "unat (ts_acknowledged_count ?s) + unat (of_nat off :: u8) < unat (ts_segment_count ?s)"
    using off span si(2) off16 by (auto simp: session_window_def)
  have o8: "unat (of_nat off :: u8) < 16" using off16 by simp
  have idx: "unat (ts_acknowledged_count ?s) + unat (of_nat off :: u8) \<le> unat (su_final_segment_index s)"
    using lt si(2) inv(2) by (auto simp: session_window_def unat_setupSegmentCount)
  note f = tx_sendSegment_facts [OF inv(1) tl o8 send lt]
  have "log_ok s obj w'"
    using f(1) log_ok_forward [OF inv(4)] transfer_messageI(5) [of _ s obj] inv(2,3) idx by metis
  moreover have "tx_invar t' \<and> ts_setup (bt_session t') = s \<and> ts_object (bt_session t') = obj"
  proof (cases sent)
    case False
    then show ?thesis using f(2) inv tx_same_invar by (auto simp: tx_same_def)
  next
    case True
    obtain t2 where t2: "tx_same t t2" "t' = tx_session (\<lambda>s. s\<lparr>
        ts_sent_bitmap := ts_sent_bitmap s OR push_bit off 1,
        ts_segment_last_send_ms := (ts_segment_last_send_ms s)[off := now],
        ts_segment_retry_count := (ts_segment_retry_count s)[off :=
          (if re then ts_segment_retry_count s ! off + 1 else 0)],
        ts_probe_timer_active := False\<rparr>) t2" using f(3) [OF True] unfolding off16(2) by blast
    have i2: "tx_invar t2" "bt_session t2 = ?s" using t2(1) inv(1) tx_same_invar by (auto simp: tx_same_def)
    have "session_window (bt_session t')"
      using si(2) span off off16 unfolding t2(2) tx_session_def
      by (auto simp: i2 session_window_def bit_simps)
    then show ?thesis
      using i2 inv si(1) t2(2) by (auto simp: tx_invar_def tx_session_def session_invar_def tx_live_def)
  qed
  ultimately show ?thesis by (simp add: tx_ok_def)
qed

lemma first_unsent_bound: "tx_first_unsent x = Some off \<Longrightarrow> off < unat (tx_window_span x)"
  by (auto simp: tx_first_unsent_def find_Some_iff)

lemma first_expired_bound: "tx_first_expired now tm x = Some off \<Longrightarrow> off < unat (tx_window_span x)"
  by (auto simp: tx_first_expired_def find_Some_iff)

lemma process_starting_ok:
  assumes ok: "tx_ok s obj t w" and p: "tx_process_starting env now pr t w = (r, t', w')"
  shows "tx_ok s obj t' w'"
proof -
  have send: "tx_ok s obj t' w'" if "tx_attempt (tx_sendSetup env now re t w) = (r, t', w')" for re
    using that ok sendSetup_ok attempt_ok by (metis prod_cases3)
  show ?thesis
    using p ok send give_up_ok by (auto simp: tx_process_starting_def Let_def split: if_splits)
qed

lemma process_probe_ok:
  assumes ok: "tx_ok s obj t w" and p: "tx_process_probe env now pr t w = (r, t', w')"
  shows "tx_ok s obj t' w'"
proof -
  have send: "tx_ok s obj t' w'" if "tx_attempt (tx_sendProbe env now t w) = (r, t', w')"
    using that ok sendProbe_ok attempt_ok by (metis prod_cases3)
  have on: "tx_ok s obj (tx_session (\<lambda>s. s\<lparr>ts_probe_timer_active := True, ts_probe_last_send_ms := now\<rparr>) t) w"
    "tx_ok s obj (tx_session (\<lambda>s. s\<lparr>ts_probe_timer_active := False, ts_probe_retry_count := 0\<rparr>) t) w"
    by (auto intro!: session_update_ok [OF ok] simp: session_invar_def session_window_def)
  show ?thesis
    using p ok send on give_up_ok by (auto simp: tx_process_probe_def Let_def split: if_splits)
qed

lemma process_active_ok:
  assumes ok: "tx_ok s obj t w" and act: "ts_state (bt_session t) = TS_kActive"
    and p: "tx_process_active env now pr t w = (r, t', w')"
  shows "tx_ok s obj t' w'"
proof -
  have send: "tx_ok s obj t' w'"
    if "tx_attempt (tx_sendSegment env (of_nat off) now re t w) = (r, t', w')"
      "off < unat (tx_window_span (bt_session t))" for re off
    using that sendSegment_ok [OF ok act that(2)] attempt_ok by (metis prod_cases3)
  show ?thesis
  proof (cases "tx_first_unsent (bt_session t)")
    case (Some off)
    then show ?thesis using p send [of off False] first_unsent_bound by (simp add: tx_process_active_def)
  next
    case unsent: None
    show ?thesis
    proof (cases "tx_first_expired now (bt_timing t) (bt_session t)")
      case (Some off)
      then show ?thesis
        using p unsent send [of off True] first_expired_bound give_up_ok [OF ok]
        by (simp add: tx_process_active_def split: if_splits)
    next
      case None
      then show ?thesis using p unsent process_probe_ok [OF ok] by (simp add: tx_process_active_def)
    qed
  qed
qed

lemma handleAck_ok:
  assumes ok: "tx_ok s obj t w" and h: "tx_handleAck env message t w = (r, t', w')"
  shows "tx_ok s obj t' w'"
proof (cases "\<exists>a. decodeAckKnownType message = Some a \<and> tx_live t \<and> ts_setup_sent (bt_session t)
    \<and> ak_session_id a = su_session_id (ts_setup (bt_session t)) \<and> ack_admissible a (bt_session t)")
  case False
  then have "t' = t" "w' = w"
    using h by (auto simp: tx_handleAck_def Let_def split: option.splits if_splits)
  then show ?thesis using ok by simp
next
  case True
  then obtain a where a: "decodeAckKnownType message = Some a" "tx_live t" "ts_setup_sent (bt_session t)"
    "ak_session_id a = su_session_id (ts_setup (bt_session t))" "ack_admissible a (bt_session t)" by blast
  have inv: "session_invar (bt_session t)" "session_window (bt_session t)"
    using ok a(2) by (auto simp: tx_ok_def tx_invar_def session_invar_def tx_live_def)
  then have len: "length (ts_segment_last_send_ms (bt_session t)) = 16"
    "length (ts_segment_retry_count (bt_session t)) = 16" by (auto simp: session_invar_def)
  note s1 = ack_apply_window [OF inv(2) a(5) len]
  let ?s1 = "ack_apply a (bt_session t)"
  have le: "unat (ts_acknowledged_count ?s1) \<le> unat (ts_segment_count ?s1)"
    using s1(1) by (auto simp: session_window_def)
  then have lt: "ts_acknowledged_count ?s1 \<noteq> ts_segment_count ?s1 \<Longrightarrow> ts_acknowledged_count ?s1 < ts_segment_count ?s1"
    by (simp add: word_le_nat_alt [symmetric] order_less_le)
  have "session_invar (?s1\<lparr>ts_state := if ts_acknowledged_count ?s1 = ts_segment_count ?s1
      then TS_kCompleted else TS_kActive\<rparr>)"
    using s1(1,2,3) lt by (simp add: session_invar_def)
  moreover have "t' = t\<lparr>bt_session := ?s1\<lparr>ts_state := if ts_acknowledged_count ?s1 = ts_segment_count ?s1
      then TS_kCompleted else TS_kActive\<rparr>\<rparr>" "forwarded w' = forwarded w"
    using h a by (auto simp: tx_handleAck_def Let_def complete_keeps split: if_splits)
  ultimately show ?thesis
    using ok s1 a(2) by (auto simp: tx_ok_def tx_invar_def tx_live_def log_ok_def)
qed

lemma handleDatagram_ok:
  assumes ok: "tx_ok s obj t w" and h: "tx_handleDatagram env t w = (r, t', w')"
  shows "tx_ok s obj t' w'"
proof -
  have rej: "tx_ok s obj t1 w1" if "tx_handleReject env m t w = (k, t1, w1)" for m k t1 w1
    using that ok session_update_ok [OF ok, of "\<lambda>x. x\<lparr>ts_state := TS_kRejected\<rparr>"]
    by (auto simp: tx_handleReject_def session_invar_def tx_ok_def log_ok_def rejected_keeps
        split: option.splits if_splits)
  have ab: "tx_ok s obj t1 w1" if "tx_handleAbort env m t w = (k, t1, w1)" for m k t1 w1
    using that ok aborted_ok by (auto simp: tx_handleAbort_def split: option.splits if_splits)
  have dg: "tx_ok s obj t (te_onDatagram env bs w)" for bs
    using ok by (simp add: tx_ok_def log_ok_def datagram_keeps)
  show ?thesis
    using h ok rej ab dg handleAck_ok [OF ok]
    by (auto simp: tx_handleDatagram_def Let_def split: option.splits MessageType.splits if_splits)
qed

lemma process_ok:
  assumes ok: "tx_ok s obj t w" and p: "BitsTransmitter_process env now t w = (r, t', w')"
  shows "tx_ok s obj t' w'"
proof -
  define a where "a = (if bt_datagram_occupied t
      then (case tx_handleDatagram env t w of (handled, t1, w1) \<Rightarrow> (handled, t1\<lparr>bt_datagram_occupied := False\<rparr>, w1))
      else (True, t, w))"
  obtain k t1 w1 where a1: "a = (k, t1, w1)" by (metis prod_cases3)
  have frame: "tx_ok s obj (x\<lparr>bt_datagram_occupied := b\<rparr>) v = tx_ok s obj x v" for x b v
    by (simp add: tx_ok_def tx_invar_def tx_live_def)
  have ok1: "tx_ok s obj t1 w1"
    using a1 ok handleDatagram_ok [OF ok] by (auto simp: a_def frame split: if_splits prod.splits)
  show ?thesis
    using p ok1 error_ok process_starting_ok [OF ok1] process_active_ok [OF ok1]
    unfolding BitsTransmitter_process_def Let_def a_def [symmetric] a1
    by (auto split: bool.splits if_splits)
qed

lemma receive_ok:
  assumes ok: "tx_ok s obj t w" and pk: "packet_invar packet"
  shows "tx_ok s obj (snd (BitsTransmitter_receive packet t)) w"
proof -
  have "packet_invar (bt_datagram_ingress t)" using ok by (simp add: tx_ok_def tx_invar_def)
  then have "packet_invar d" if "copyPacket packet (bt_datagram_ingress t) = (True, d)" for d
    using that copyPacket_success(4) [OF pk] copyPacket_fst by (metis fst_conv snd_conv)
  then show ?thesis
    using ok by (auto simp: BitsTransmitter_receive_def tx_ok_def tx_invar_def tx_live_def
        split: option.splits prod.splits bool.splits)
qed

lemma abort_ok:
  assumes "tx_ok s obj t w" and "BitsTransmitter_abort env t w = (r, t', w')"
  shows "tx_ok s obj t' w'"
  using assms by (auto simp: BitsTransmitter_abort_def split: if_splits prod.splits
      dest: sendAbort_message_ok(2) aborted_ok)

lemma datagram_ok:
  assumes ok: "tx_ok s obj t w" and d: "BitsTransmitter_sendDatagram env d t w = (r, t', w')"
    and given: "d \<in> datagrams"
  shows "tx_ok s obj t' w'"
  using sendDatagram_as_message [OF d]
proof (elim disjE conjE exE)
  fix sent assume n: "length d + 1 < 65536"
    and m: "tx_send_message env (length d + 1) kNormal (encodeUserDatagram d) t w = (sent, t', w')"
  show ?thesis
    by (rule send_message_ok(2) [OF ok m n _ _ transfer_messageI(4) [OF given]]) (simp_all add: encodeUserDatagram_wire)
qed (use ok in simp)

lemma step_ok:
  assumes ok: "tx_ok s obj t w" and wf: "tx_event_wf ev" and given: "\<forall>d. ev = TxDatagram d \<longrightarrow> d \<in> datagrams" and st: "tx_step env ev (t, w) = (t', w')"
  shows "tx_ok s obj t' w'"
proof (cases ev)
  case (TxReceive packet)
  then show ?thesis using st wf receive_ok [OF ok, of packet] by auto
next
  case (TxProcess now)
  then show ?thesis using st process_ok [OF ok] by (metis prod.collapse tx_step.simps(2))
next
  case (TxDatagram d)
  then show ?thesis using st datagram_ok [OF ok] given by (metis prod.collapse tx_step.simps(3))
next
  case TxAbort
  then show ?thesis using st abort_ok [OF ok] by (metis prod.collapse tx_step.simps(4))
qed

lemma run_ok:
  assumes "tx_ok s obj t w" and "\<forall>ev \<in> set events. tx_event_wf ev" and "\<forall>d. TxDatagram d \<in> set events \<longrightarrow> d \<in> datagrams"
    and "tx_run env events (t, w) = (t', w')"
  shows "tx_ok s obj t' w'"
  using assms
proof (induction events arbitrary: t w)
  case (Cons ev events)
  obtain t1 w1 where s1: "tx_step env ev (t, w) = (t1, w1)" by fastforce
  have "tx_ok s obj t1 w1" by (rule step_ok [OF Cons.prems(1) _ _ s1]) (use Cons.prems(2,3) in simp_all)
  then show ?case
    by (rule Cons.IH) (use Cons.prems(2-4) s1 in \<open>simp_all add: tx_run_def\<close>)
qed (simp add: tx_run_def)

end

subsection \<open>Recording a transmitter\<close>

text \<open>Any router and callbacks, with the packets handed to the router recorded beside their memory.\<close>

definition record_env :: "'w TransmitterEnv \<Rightarrow> ('w \<times> PacketBuffer list) TransmitterEnv" where
  "record_env env = \<lparr>te_forward = (\<lambda>p s. case te_forward env p (fst s) of (r, w) \<Rightarrow> (r, w, snd s @ [p])),
     te_onDatagram = (\<lambda>d s. (te_onDatagram env d (fst s), snd s)),
     te_onTransferComplete = (\<lambda>s. (te_onTransferComplete env (fst s), snd s)),
     te_onTransferRejected = (\<lambda>r s. (te_onTransferRejected env r (fst s), snd s)),
     te_onTransferAborted = (\<lambda>s. (te_onTransferAborted env (fst s), snd s))\<rparr>"

interpretation recorded: packet_recorder "record_env env" snd datagrams for env :: "'w TransmitterEnv" and datagrams
  by unfold_locales (auto simp: record_env_def split: prod.splits)

text \<open>With nothing recorded: any router and callbacks keep the transmitter's invariant.\<close>

interpretation unlogged: packet_recorder env "\<lambda>_. []" UNIV for env :: "'w TransmitterEnv"
  by unfold_locales simp_all

lemma transmitter_run:
  assumes "tx_invar t" and st: "startTransfer obj z sid isn t = (ST_kStarted, t0)"
    and "\<forall>ev \<in> set events. tx_event_wf ev" and run: "tx_run (record_env env) events (t0, w, []) = (t1, w1, sent)"
  shows "tx_invar t1 \<and> ts_setup (bt_session t1) = ts_setup (bt_session t0) \<and> ts_object (bt_session t1) = obj
    \<and> (\<forall>p \<in> set sent. packet_invar p \<and> transfer_message (ts_setup (bt_session t0)) obj {d. TxDatagram d \<in> set events} (payload p))"
proof -
  have "recorded.tx_ok {d. TxDatagram d \<in> set events} (ts_setup (bt_session t0)) obj t0 (w, [])"
    using startTransfer_started [OF assms(1) st] by (simp add: recorded.tx_ok_def recorded.log_ok_def)
  from recorded.run_ok [OF this assms(3) _ run] show ?thesis
    by (simp add: recorded.tx_ok_def recorded.log_ok_def)
qed

lemma transmitter_packets_honest:
  assumes "tx_invar t" and "startTransfer obj z sid isn t = (ST_kStarted, t0)"
    and "\<forall>ev \<in> set events. tx_event_wf ev" and "tx_run (record_env env) events (t0, w, []) = (t1, w1, sent)"
  shows "\<forall>p \<in> set sent. packet_invar p \<and> honest_message (ts_setup (bt_session t0)) obj (payload p)"
  using transmitter_run [OF assms] transfer_message_honest by blast

subsection \<open>Segments and acknowledgements\<close>

lemma object_segments_prefix:
  "k \<le> unat (su_final_segment_index s) \<Longrightarrow> length obj = unat (setupTotalSize s) \<Longrightarrow>
     concat (map (object_segment s obj) [0..<k]) = take (k * unat (su_segment_size s)) obj"
proof (induction k)
  case (Suc k)
  let ?z = "unat (su_segment_size s)"
  have "object_segment s obj k = take ?z (drop (k * ?z) obj)"
    using Suc.prems by (simp add: object_segment_def setup_segment_length_def subspan_def)
  then show ?case using Suc by (simp add: take_add [of "k * ?z" ?z obj, symmetric] add.commute)
qed simp

lemma object_segments_concat:
  assumes "length obj = unat (setupTotalSize s)"
  shows "concat (map (object_segment s obj) [0..<Suc (unat (su_final_segment_index s))]) = obj"
proof -
  let ?f = "unat (su_final_segment_index s)" and ?z = "unat (su_segment_size s)"
  have "length obj - ?f * ?z = unat (su_final_segment_size s)" using assms by (simp add: unat_setupTotalSize)
  then have "object_segment s obj ?f = drop (?f * ?z) obj"
    by (simp add: object_segment_def setup_segment_length_def subspan_def)
  then show ?thesis using object_segments_prefix [OF order_refl assms] by simp
qed

lemma startTransfer_segments:
  assumes "tx_invar t" and "startTransfer obj z sid isn t = (ST_kStarted, t')"
  defines "s \<equiv> ts_setup (bt_session t')" and "n \<equiv> unat (ts_segment_count (bt_session t'))"
  shows "concat (map (object_segment s obj) [0..<n]) = obj \<and> (\<forall>i < n. object_segment s obj i \<noteq> []) \<and> setup_valid s"
proof -
  note st = startTransfer_started [OF assms(1,2)]
  have w: "session_window (bt_session t')" using st(1,3) by (simp add: tx_invar_def session_invar_def)
  then have v: "setup_valid s" "length obj = unat (setupTotalSize s)" "n = Suc (unat (su_final_segment_index s))"
    using st(2) by (auto simp: session_window_def s_def n_def unat_setupSegmentCount)
  have "object_segment s obj i \<noteq> []" if "i < n" for i
  proof -
    have "0 < setup_segment_length s i"
      using v(1) by (auto simp: setup_valid_def setup_segment_length_def word_less_nat_alt word_le_nat_alt)
    then show ?thesis using length_object_segment [OF v(1,2), of i] that v(3) by auto
  qed
  then show ?thesis using object_segments_concat [OF v(2)] v by simp
qed

lemma handleAck_progress:
  assumes inv: "tx_invar t" and h: "tx_handleAck env message t w = (ok, t', w')"
  shows "unat (ts_acknowledged_count (bt_session t)) \<le> unat (ts_acknowledged_count (bt_session t'))
    \<and> (\<forall>i < unat (ts_acknowledged_count (bt_session t')) - unat (ts_acknowledged_count (bt_session t)).
         bit (ts_sent_bitmap (bt_session t)) i)"
proof (cases "bt_session t' = bt_session t")
  case False
  let ?s = "bt_session t"
  obtain a where a: "tx_live t" "ack_admissible a ?s"
    "ts_acknowledged_count (bt_session t') = ts_acknowledged_count (ack_apply a ?s)"
    using h False by (auto simp: tx_handleAck_def Let_def split: option.splits if_splits)
  have win: "session_window ?s" and len: "length (ts_segment_last_send_ms ?s) = 16" "length (ts_segment_retry_count ?s) = 16"
    using inv a(1) by (auto simp: tx_invar_def session_invar_def tx_live_def)
  note b = ack_admissible_bounds [OF win a(2)]
  have "ts_acknowledged_count (ack_apply a ?s) = ts_acknowledged_count ?s
      + ucast (ak_window_base a - baseSequence (ts_setup ?s) (ts_acknowledged_count ?s))"
    using shiftWindow_eq [OF len b(1)] by (simp add: ack_apply_def Let_def)
  then show ?thesis using a(3) b(3,7) by simp
qed simp

end
