(* ===== verification/Bits_Ram.thy ===== *)
theory Bits_Ram
  imports Bits_Sender Uart_Link
begin

section \<open>RAM sinks of the example applications\<close>

text \<open>
  The two implementations of \<^verbatim>\<open>ReceiverCallbacks\<close> in the repository:
  \<^verbatim>\<open>examples/arduino-uno/bits_ram_transfer.cpp\<close> (behind a \<^verbatim>\<open>BitsReceiver\<close> and the router) and
  \<^verbatim>\<open>examples/arduino-uno/bits_boot_profile_ram.cpp\<close> (width-one engine that writes HDLC
  frames to the UART itself).  Both discharge the sink interface of the reassembly theory.
  On the AVR target \<^verbatim>\<open>size_t\<close> has 16 bits, so the bound check of \<^verbatim>\<open>onSegment\<close> is 32-bit.
\<close>

subsection \<open>RAM transfer application\<close>

record RamReceiverCallbacks =
  rc_storage :: bytes
  rc_received_size :: u16
  rc_object_complete :: bool

definition Ram_beginTransfer :: "TransferInfo \<Rightarrow> RamReceiverCallbacks \<Rightarrow> TransferAdmission \<times> RamReceiverCallbacks" where
  "Ram_beginTransfer info c =
     (if rc_object_complete c then (TA_kBusy, c)
      else if length (rc_storage c) < unat (ti_total_size info) then (TA_kTooLarge, c)
      else (TA_kAccepted, c\<lparr>rc_received_size := 0\<rparr>))"

definition releaseCompletedObject :: "RamReceiverCallbacks \<Rightarrow> RamReceiverCallbacks" where
  "releaseCompletedObject c = c\<lparr>rc_received_size := 0, rc_object_complete := False\<rparr>"

definition Ram_onSegment :: "u32 \<Rightarrow> bytes \<Rightarrow> RamReceiverCallbacks \<Rightarrow> bool \<times> RamReceiverCallbacks" where
  "Ram_onSegment object_offset bs c =
     (if length (rc_storage c) < unat (object_offset + of_nat (length bs)) then (False, c)
      else (let segment_end = ucast (object_offset + of_nat (length bs))
            in (True, c\<lparr>rc_storage := span_write (unat object_offset) bs (rc_storage c),
                  rc_received_size := (if rc_received_size c < segment_end then segment_end
                                       else rc_received_size c)\<rparr>)))"

definition Ram_onTransferComplete :: "RamReceiverCallbacks \<Rightarrow> RamReceiverCallbacks" where
  "Ram_onTransferComplete c = c\<lparr>rc_object_complete := True\<rparr>"

definition Ram_completedObject :: "RamReceiverCallbacks \<Rightarrow> bytes" where
  "Ram_completedObject c =
     (if rc_object_complete c then take (unat (rc_received_size c)) (rc_storage c) else [])"

text \<open>The callbacks on the memory of the endpoint: its transmit packet, this object and the rest.\<close>

definition on_ram :: "(RamReceiverCallbacks \<Rightarrow> RamReceiverCallbacks)
    \<Rightarrow> PacketBuffer \<times> RamReceiverCallbacks \<times> 'n \<Rightarrow> PacketBuffer \<times> RamReceiverCallbacks \<times> 'n" where
  "on_ram f s = (fst s, f (fst (snd s)), snd (snd s))"

definition ram_env ::
  "ConnectionAddress \<Rightarrow> (PacketBuffer \<Rightarrow> RamReceiverCallbacks \<times> 'n \<Rightarrow> RouteResult \<times> RamReceiverCallbacks \<times> 'n)
    \<Rightarrow> (PacketBuffer \<times> RamReceiverCallbacks \<times> 'n) EngineEnv" where
  "ram_env connection forward = endpoint_env connection forward
     \<lparr>ee_max_window = 16,
      ee_beginTransfer = (\<lambda>info s. case Ram_beginTransfer info (fst (snd s)) of
        (a, c) \<Rightarrow> (a, on_ram (\<lambda>_. c) s)),
      ee_onTransferFailed = (\<lambda>reason. on_ram releaseCompletedObject),
      ee_onSegment = (\<lambda>off bs s. case Ram_onSegment off bs (fst (snd s)) of (r, c) \<Rightarrow> (r, on_ram (\<lambda>_. c) s)),
      ee_onDatagram = (\<lambda>bs s. s),
      ee_onTransferComplete = on_ram Ram_onTransferComplete,
      ee_onTransferAborted = (\<lambda>reason. on_ram releaseCompletedObject),
      ee_prepare = (\<lambda>sz s. ([], s)), ee_store = (\<lambda>bs s. s), ee_sendPrepared = (\<lambda>s. (SR_kSent, s))\<rparr>"

text \<open>A router whose links do not touch the application's object.\<close>

definition network_forward ::
  "(PacketBuffer \<Rightarrow> 'n \<Rightarrow> RouteResult \<times> 'n)
    \<Rightarrow> PacketBuffer \<Rightarrow> RamReceiverCallbacks \<times> 'n \<Rightarrow> RouteResult \<times> RamReceiverCallbacks \<times> 'n" where
  "network_forward forward p s = (case forward p (snd s) of (r, n) \<Rightarrow> (r, fst s, n))"

lemma Ram_onSegment_cases:
  assumes "Ram_onSegment off bs c = (r, c')"
  shows "\<not> r \<Longrightarrow> c' = c"
    and "r \<Longrightarrow> unat off + length bs < 2 ^ 32 \<Longrightarrow> unat off + length bs \<le> length (rc_storage c)
      \<and> rc_storage c' = span_write (unat off) bs (rc_storage c)"
proof -
  show "\<not> r \<Longrightarrow> c' = c" using assms by (auto simp: Ram_onSegment_def Let_def split: if_splits)
  assume r: r and b: "unat off + length bs < 2 ^ 32"
  have "unat (of_nat (length bs) :: u32) = length bs" using b by (simp add: unat_of_nat take_bit_nat_eq_self)
  then have "unat (off + of_nat (length bs)) = unat off + length bs" using b by (simp add: unat_add_le)
  then show "unat off + length bs \<le> length (rc_storage c)
      \<and> rc_storage c' = span_write (unat off) bs (rc_storage c)"
    using assms r by (auto simp: Ram_onSegment_def Let_def split: if_splits)
qed

interpretation ram_sink: object_sink "ram_env conn (network_forward forward)" "\<lambda>s. rc_storage (fst (snd s))" 0
  for conn and forward :: "PacketBuffer \<Rightarrow> 'n \<Rightarrow> RouteResult \<times> 'n"
proof unfold_locales
  fix off p and w w' :: "PacketBuffer \<times> RamReceiverCallbacks \<times> 'n"
  assume "ee_onSegment (ram_env conn (network_forward forward)) off p w = (True, w')"
    and b: "unat off + length p < 2 ^ 32"
  then obtain c where "Ram_onSegment off p (fst (snd w)) = (True, c)" "w' = on_ram (\<lambda>_. c) w"
    by (auto simp: ram_env_def endpoint_env_def split: prod.splits)
  then show "unat off + length p \<le> length (rc_storage (fst (snd w))) \<and>
      rc_storage (fst (snd w')) = span_write (unat off) p (rc_storage (fst (snd w)))"
    using Ram_onSegment_cases(2) b by (auto simp: on_ram_def)
next
  fix off p and w w' :: "PacketBuffer \<times> RamReceiverCallbacks \<times> 'n"
  assume "ee_onSegment (ram_env conn (network_forward forward)) off p w = (False, w')"
  then obtain c where "Ram_onSegment off p (fst (snd w)) = (False, c)" "w' = on_ram (\<lambda>_. c) w"
    by (auto simp: ram_env_def endpoint_env_def split: prod.splits)
  then show "rc_storage (fst (snd w')) = rc_storage (fst (snd w))"
    using Ram_onSegment_cases(1) [where r = False] by (auto simp: on_ram_def)
qed (auto simp: ram_env_def endpoint_env_def on_ram_def Ram_beginTransfer_def releaseCompletedObject_def
    Ram_onTransferComplete_def BitsReceiver_prepare_def BitsReceiver_sendPrepared_def network_forward_def
    split: prod.splits bool.splits)

subsection \<open>Boot profile: sender\<close>

text \<open>
  The memory of the boot profile: the transmit packet, the bytes written to the UART, and the
  fields of \<^verbatim>\<open>RamProfileCallbacks\<close>.  The build without \<^verbatim>\<open>WS_BITS_BOOT_PROFILE_SIZE_ONLY\<close> is
  modelled, after \<^verbatim>\<open>attach\<close>.
\<close>

record BootProfile =
  bp_packet :: PacketBuffer
  bp_uart_out :: bytes
  bp_object :: bytes
  bp_received_size :: u16
  bp_expected_size :: u16
  bp_session_id :: u8

definition kMaximumObjectSize :: nat where "kMaximumObjectSize = 256"
definition kSegmentPayloadSize :: u16 where "kSegmentPayloadSize = 24"
definition kMaximumUserDatagramSize :: nat where "kMaximumUserDatagramSize = 27"

definition uart0WriteByte :: "u8 \<Rightarrow> BootProfile \<Rightarrow> BootProfile" where
  "uart0WriteByte byte w = w\<lparr>bp_uart_out := bp_uart_out w @ [byte]\<rparr>"

definition writeEscaped :: "u8 \<Rightarrow> BootProfile \<Rightarrow> BootProfile" where
  "writeEscaped byte w =
     (if byte = hdlc_kFlag \<or> byte = hdlc_kEscape
      then uart0WriteByte (byte XOR hdlc_kEscapeXor) (uart0WriteByte hdlc_kEscape w)
      else uart0WriteByte byte w)"

definition UartPduSender_prepare :: "u16 \<Rightarrow> BootProfile \<Rightarrow> bytes \<times> BootProfile" where
  "UartPduSender_prepare payload_size w =
     (case initializeConnection payload_size kUploadConnection (ControlFields_bits kNormal) (bp_packet w) of
        (False, p) \<Rightarrow> ([], w\<lparr>bp_packet := p\<rparr>)
      | (True, p) \<Rightarrow> (payload p, w\<lparr>bp_packet := p\<rparr>))"

definition UartPduSender_sendPrepared :: "BootProfile \<Rightarrow> SendResult \<times> BootProfile" where
  "UartPduSender_sendPrepared w =
     (let tx_bytes = headerAndPayload (bp_packet w);
          crc = crc_compute Crc16CcittFalse tx_bytes;
          w1 = uart0WriteByte hdlc_kFlag w;
          w2 = fold writeEscaped tx_bytes w1;
          w3 = writeEscaped (hi8 crc) (writeEscaped (lo8 crc) w2)
      in (SR_kSent, uart0WriteByte hdlc_kFlag w3))"

definition boot_sender_env :: "BootProfile EngineEnv" where
  "boot_sender_env = \<lparr>ee_max_window = 1, ee_beginTransfer = (\<lambda>info w. (TA_kRejected, w)),
     ee_onTransferFailed = (\<lambda>reason w. w), ee_onSegment = (\<lambda>off bs w. (False, w)),
     ee_onDatagram = (\<lambda>bs w. w), ee_onTransferComplete = (\<lambda>w. w),
     ee_onTransferAborted = (\<lambda>reason w. w), ee_prepare = UartPduSender_prepare,
     ee_store = (\<lambda>bs w. w\<lparr>bp_packet := write_payload 0 bs (bp_packet w)\<rparr>),
     ee_sendPrepared = UartPduSender_sendPrepared\<rparr>"

subsection \<open>Boot profile: callbacks\<close>

definition Boot_beginTransfer :: "TransferInfo \<Rightarrow> BootProfile \<Rightarrow> TransferAdmission \<times> BootProfile" where
  "Boot_beginTransfer info w =
     (if kMaximumObjectSize < unat (ti_total_size info) then (TA_kTooLarge, w)
      else (TA_kAccepted, w\<lparr>bp_session_id := ti_session_id info,
              bp_expected_size := ucast (ti_total_size info), bp_received_size := 0\<rparr>))"

definition Boot_forget :: "BootProfile \<Rightarrow> BootProfile" where
  "Boot_forget w = w\<lparr>bp_received_size := 0, bp_expected_size := 0\<rparr>"

definition Boot_onSegment :: "u32 \<Rightarrow> bytes \<Rightarrow> BootProfile \<Rightarrow> bool \<times> BootProfile" where
  "Boot_onSegment object_offset bs w =
     (if kMaximumObjectSize < unat (object_offset + of_nat (length bs)) then (False, w)
      else (let end_offset = ucast (object_offset + of_nat (length bs))
            in (True, w\<lparr>bp_object := span_write (unat object_offset) bs (bp_object w),
                  bp_received_size := (if bp_received_size w < end_offset then end_offset
                                       else bp_received_size w)\<rparr>)))"

text \<open>\<^verbatim>\<open>engine_->sendDatagram\<close> uses only the sender, so the callbacks can call it.\<close>

definition Boot_onDatagram :: "bytes \<Rightarrow> BootProfile \<Rightarrow> BootProfile" where
  "Boot_onDatagram bs w =
     (if length bs < 2 \<or> bs ! 0 \<noteq> 0x01 then w
      else if kMaximumUserDatagramSize < length bs then w
      else snd (engine_sendDatagram boot_sender_env (bs[0 := 0x81]) w))"

fun first_mismatch :: "bytes \<Rightarrow> nat \<Rightarrow> nat \<Rightarrow> nat option" where
  "first_mismatch obj index 0 = None"
| "first_mismatch obj index (Suc n) =
     (if obj ! index \<noteq> of_nat index then Some index else first_mismatch obj (index + 1) n)"

definition Boot_image_status :: "BootProfile \<Rightarrow> u8 \<times> u16" where
  "Boot_image_status w =
     (if bp_received_size w \<noteq> bp_expected_size w then (1, 0xFFFF)
      else (case first_mismatch (bp_object w) 0 (unat (bp_received_size w)) of
          None \<Rightarrow> (0, 0xFFFF) | Some i \<Rightarrow> (2, of_nat i)))"

definition Boot_onTransferComplete :: "BootProfile \<Rightarrow> BootProfile" where
  "Boot_onTransferComplete w =
     (case Boot_image_status w of (status, bad) \<Rightarrow>
        snd (engine_sendDatagram boot_sender_env
          [0x82, bp_session_id w, status, lo8 (bp_received_size w), hi8 (bp_received_size w), lo8 bad, hi8 bad] w))"

definition boot_env :: "BootProfile EngineEnv" where
  "boot_env = boot_sender_env\<lparr>ee_beginTransfer := Boot_beginTransfer,
     ee_onTransferFailed := (\<lambda>reason. Boot_forget), ee_onSegment := Boot_onSegment,
     ee_onDatagram := Boot_onDatagram, ee_onTransferComplete := Boot_onTransferComplete,
     ee_onTransferAborted := (\<lambda>reason. Boot_forget)\<rparr>"

definition boot_engine_init :: BitsReceiverEngine where
  "boot_engine_init = BitsReceiverEngine_init 1 \<lparr>ec_maximum_segment_size = kSegmentPayloadSize,
     ec_receive_window_width = 1, ec_maximum_object_size = of_nat kMaximumObjectSize,
     ec_inactivity_timeout_ms = 5000\<rparr>"

definition boot_init :: BootProfile where
  "boot_init = \<lparr>bp_packet = PacketBuffer_new 28, bp_uart_out = [], bp_object = replicate kMaximumObjectSize 0,
     bp_received_size = 0, bp_expected_size = 0, bp_session_id = 0\<rparr>"

subsection \<open>Boot profile: frames\<close>

definition boot_matchesConnection :: "Header \<Rightarrow> bool" where
  "boot_matchesConnection h =
     (Header_transportType h = kBits \<and> hasSupportedControl h \<and> h_wire h = kTestWire
      \<and> h_source h = kPcHost \<and> h_destination h = kArduinoHost \<and> h_endpoint h = kBitsUploadEndpoint)"

definition boot_processFrame ::
  "bytes \<Rightarrow> u32 \<Rightarrow> BitsReceiverEngine \<times> BootProfile \<Rightarrow> BitsReceiverEngine \<times> BootProfile" where
  "boot_processFrame frame now_ms s =
     (if length frame < 6 then s
      else if \<not> boot_matchesConnection (header_of_bytes frame) then s
      else (let message = subspan_from frame 6
            in if message = [] then s else snd (engine_process boot_env message now_ms (fst s) (snd s))))"

text \<open>One received UART byte in the main loop.\<close>

definition boot_receive_byte ::
  "u8 \<Rightarrow> u32 \<Rightarrow> HdlcDecoder \<times> BitsReceiverEngine \<times> BootProfile
    \<Rightarrow> HdlcDecoder \<times> BitsReceiverEngine \<times> BootProfile" where
  "boot_receive_byte byte now_ms s =
     (case HdlcDecoder_push byte (fst s) of
        (False, d) \<Rightarrow> (d, snd s)
      | (True, d) \<Rightarrow> (HdlcDecoder_consume d, boot_processFrame (HdlcDecoder_frame d) now_ms (snd s)))"

subsection \<open>Boot profile: correctness\<close>

lemma writeEscaped_out: "bp_uart_out (writeEscaped b w) = bp_uart_out w @ hdlc_stuff1 b"
  by (simp add: writeEscaped_def uart0WriteByte_def hdlc_stuff1_def)

lemma fold_writeEscaped_out: "bp_uart_out (fold writeEscaped bs w) = bp_uart_out w @ hdlc_stuff bs"
  by (induction bs arbitrary: w) (simp_all add: writeEscaped_out)

text \<open>Every packet the boot profile sends leaves the UART as one frame of the link format.\<close>

lemma UartPduSender_frame:
  "bp_uart_out (snd (UartPduSender_sendPrepared w)) =
     bp_uart_out w @ hdlc_frame (hdlc_body (headerAndPayload (bp_packet w)))"
  by (simp add: UartPduSender_sendPrepared_def Let_def uart0WriteByte_def writeEscaped_out
      fold_writeEscaped_out hdlc_frame_def hdlc_body_def)

lemma writeEscaped_object [simp]: "bp_object (writeEscaped b w) = bp_object w"
  by (simp add: writeEscaped_def uart0WriteByte_def)

lemma fold_writeEscaped_object [simp]: "bp_object (fold writeEscaped bs w) = bp_object w"
  by (induction bs arbitrary: w) simp_all

lemma boot_send_object [simp]:
  "bp_object (snd (UartPduSender_sendPrepared w)) = bp_object w"
  "bp_object (snd (UartPduSender_prepare n w)) = bp_object w"
  by (auto simp: UartPduSender_sendPrepared_def UartPduSender_prepare_def uart0WriteByte_def Let_def
      split: prod.splits bool.splits)

lemma boot_datagram_object [simp]: "bp_object (snd (engine_sendDatagram boot_sender_env d w)) = bp_object w"
proof -
  have "bp_object x2 = bp_object w" if "UartPduSender_prepare n w = (x1, x2)" for n x1 x2
    using boot_send_object(2) [of n w] that by simp
  then show ?thesis
    by (auto simp: engine_sendDatagram_def boot_sender_env_def Let_def split: prod.splits)
qed

lemma Boot_onSegment_cases:
  assumes "Boot_onSegment off bs w = (r, w')"
  shows "\<not> r \<Longrightarrow> w' = w"
    and "r \<Longrightarrow> unat off + length bs < 2 ^ 32 \<Longrightarrow> unat off + length bs \<le> 256
      \<and> bp_object w' = span_write (unat off) bs (bp_object w)"
proof -
  show "\<not> r \<Longrightarrow> w' = w" using assms by (auto simp: Boot_onSegment_def Let_def split: if_splits)
  assume r: r and b: "unat off + length bs < 2 ^ 32"
  have "unat (of_nat (length bs) :: u32) = length bs" using b by (simp add: unat_of_nat take_bit_nat_eq_self)
  then have "unat (off + of_nat (length bs)) = unat off + length bs" using b by (simp add: unat_add_le)
  then show "unat off + length bs \<le> 256 \<and> bp_object w' = span_write (unat off) bs (bp_object w)"
    using assms r by (auto simp: Boot_onSegment_def kMaximumObjectSize_def Let_def split: if_splits)
qed

lemma boot_sender_fields [simp]:
  "ee_max_window boot_sender_env = 1" "ee_prepare boot_sender_env = UartPduSender_prepare"
  "ee_store boot_sender_env bs w = w\<lparr>bp_packet := write_payload 0 bs (bp_packet w)\<rparr>"
  "ee_sendPrepared boot_sender_env = UartPduSender_sendPrepared"
  by (simp_all add: boot_sender_env_def)

interpretation boot_sink: object_sink boot_env bp_object 256
proof unfold_locales
  fix off p w w'
  assume "ee_onSegment boot_env off p w = (True, w')" and "unat off + length p < 2 ^ 32"
    and "256 \<le> length (bp_object w)"
  then show "unat off + length p \<le> length (bp_object w) \<and> bp_object w' = span_write (unat off) p (bp_object w)"
    using Boot_onSegment_cases(2) [of off p w True w'] by (simp add: boot_env_def)
next
  fix off p w w'
  assume "ee_onSegment boot_env off p w = (False, w')"
  then show "bp_object w' = bp_object w"
    using Boot_onSegment_cases(1) [of off p w False w'] by (simp add: boot_env_def)
next
  fix reason w
  show "bp_object (ee_onTransferComplete boot_env w) = bp_object w"
    by (simp add: boot_env_def Boot_onTransferComplete_def split: prod.splits)
qed (auto simp: boot_env_def Boot_beginTransfer_def Boot_forget_def Boot_onDatagram_def)

end
