(* ===== verification/Bits_Completion.thy ===== *)
theory Bits_Completion
  imports Bits_Ram
begin

section \<open>Completion of a BITS transfer\<close>

text \<open>
  Progress of the receiver engine: when its sink and its link accept, a SETUP it can admit
  followed by the segments in order ends in the completed state.  The interface
  \<open>willing_receiver\<close> says what accepting means: \<open>sendable\<close> memories can always send an ACK,
  \<open>vacant\<close> ones admit a transfer of up to \<open>limit\<close> bytes and store its segments, and \<open>line\<close> is what
  has been sent, which the callbacks leave alone.
\<close>

text \<open>The first \<open>k\<close> SEGMENTs of a transfer in order, with the time each arrives.\<close>

definition segment_message :: "Setup \<Rightarrow> bytes \<Rightarrow> nat \<Rightarrow> bytes" where
  "segment_message s obj i = segment_wire \<lparr>sh_session_id = su_session_id s, sh_segment_index = of_nat i\<rparr>
     @ object_segment s obj i"

definition segment_events :: "Setup \<Rightarrow> bytes \<Rightarrow> (nat \<Rightarrow> u32) \<Rightarrow> nat \<Rightarrow> engine_event list" where
  "segment_events s obj clk k = map (\<lambda>i. EvMessage (segment_message s obj i) (clk (Suc i))) [0..<k]"

definition in_order_transfer :: "Setup \<Rightarrow> bytes \<Rightarrow> (nat \<Rightarrow> u32) \<Rightarrow> engine_event list" where
  "in_order_transfer s obj clk =
     EvMessage (setup_wire s) (clk 0) # segment_events s obj clk (Suc (unat (su_final_segment_index s)))"

text \<open>Consecutive arrivals are closer than the inactivity timeout, or there is none.\<close>

definition timely :: "u32 \<Rightarrow> (nat \<Rightarrow> u32) \<Rightarrow> nat \<Rightarrow> bool" where
  "timely timeout clk k \<longleftrightarrow> timeout = 0 \<or> (\<forall>i \<le> k. clk (Suc i) - clk i < timeout)"

locale willing_receiver =
  fixes env :: "'w EngineEnv" and sendable vacant :: "'w \<Rightarrow> bool" and limit :: nat and line :: "'w \<Rightarrow> 'm"
  assumes window: "1 \<le> ee_max_window env" "ee_max_window env \<le> 16"
    and begin_ok: "sendable w \<Longrightarrow> vacant w \<Longrightarrow> unat (ti_total_size info) \<le> limit \<Longrightarrow>
      \<exists>w'. ee_beginTransfer env info w = (TA_kAccepted, w') \<and> sendable w' \<and> vacant w' \<and> line w' = line w"
    and segment_ok: "sendable w \<Longrightarrow> vacant w \<Longrightarrow> unat off + length p \<le> limit \<Longrightarrow> unat off + length p < 2 ^ 32 \<Longrightarrow>
      \<exists>w'. ee_onSegment env off p w = (True, w') \<and> sendable w' \<and> vacant w' \<and> line w' = line w"
    and complete_ok: "sendable w \<Longrightarrow> sendable (ee_onTransferComplete env w) \<and> line (ee_onTransferComplete env w) = line w"
    and prepare_ok: "sendable w \<Longrightarrow> \<exists>st w'. ee_prepare env 6 w = (st, w') \<and> length st = 6 \<and> sendable w'
      \<and> vacant w' = vacant w"
    and store_ok: "sendable w \<Longrightarrow> length bs = 6 \<Longrightarrow> sendable (ee_store env bs w) \<and> vacant (ee_store env bs w) = vacant w"
    and send_ok: "sendable w \<Longrightarrow> \<exists>r w'. ee_sendPrepared env w = (r, w') \<and> r \<in> {SR_kSent, SR_kFull}
      \<and> sendable w' \<and> vacant w' = vacant w"
begin

lemma ack_sent:
  assumes "sendable w"
  shows "\<exists>r w'. engine_sendAck env e w = (True, e\<lparr>re_last_send := r\<rparr>, w') \<and> sendable w' \<and> vacant w' = vacant w"
proof -
  obtain st w1 where p: "ee_prepare env 6 w = (st, w1)" "length st = 6" "sendable w1" "vacant w1 = vacant w"
    using prepare_ok [OF assms] by blast
  obtain bs where a: "engine_ack_storage (ee_max_window env) e st = (True, bs)" "length bs = 6"
    using p(2) by (cases "ee_max_window env = 1") (simp_all add: engine_ack_storage_def encode_wires Let_def)
  have s: "sendable (ee_store env bs w1)" "vacant (ee_store env bs w1) = vacant w"
    using store_ok [OF p(3) a(2)] p(4) by simp_all
  obtain r w2 where r: "ee_sendPrepared env (ee_store env bs w1) = (r, w2)" "r \<in> {SR_kSent, SR_kFull}"
    "sendable w2" "vacant w2 = vacant w"
    using send_ok [OF s(1)] s(2) by blast
  then show ?thesis
    using p a by (auto simp: engine_sendAck_def engine_sendPrepared_def bits_sizes Let_def)
qed

text \<open>The engine's answer to a message of the transfer is an ACK of the state it leaves.\<close>

definition answers :: "'w \<Rightarrow> BitsReceiverEngine \<Rightarrow> 'w \<Rightarrow> bool" where
  "answers w e' w' \<longleftrightarrow> (\<exists>e0 r w0. e' = e0\<lparr>re_last_send := r\<rparr> \<and> engine_sendAck env e0 w0 = (True, e', w')
     \<and> sendable w0 \<and> line w0 = line w)"

text \<open>The state between two segments: \<open>i\<close> received in order, the next one expected.\<close>

definition awaiting :: "Setup \<Rightarrow> nat \<Rightarrow> BitsReceiverEngine \<Rightarrow> 'w \<Rightarrow> bool" where
  "awaiting s i e w \<longleftrightarrow> engine_invar (ee_max_window env) e \<and> re_state e = TS_kActive \<and> re_setup e = s
     \<and> engine_received e = {..<i} \<and> sendable w \<and> vacant w"

lemma received_prefix:
  assumes "window_invar e" and "engine_received e = {..<i}"
  shows "unat (re_contiguous_count e) = i" and "re_receive_bitmap e = 0"
proof -
  let ?c = "unat (re_contiguous_count e)"
  have nb: "bit (re_receive_bitmap e) j \<Longrightarrow> j \<noteq> 0" for j
    using assms(1) unfolding window_invar_def by blast
  have mem: "x \<in> engine_received e \<longleftrightarrow> x < i" for x by (simp only: assms(2) lessThan_iff)
  have "\<not> ?c < i"
  proof
    assume "?c < i"
    then obtain j where "?c = ?c + j" "bit (re_receive_bitmap e) j"
      using mem [of ?c] unfolding engine_received_def by blast
    then show False using nb by simp
  qed
  moreover have "x < i" if "x < ?c" for x using mem [of x] that by (simp add: engine_received_def)
  ultimately show c: "?c = i" by (meson less_irrefl linorder_neqE_nat)
  have "\<not> bit (re_receive_bitmap e) j" for j
  proof
    assume "bit (re_receive_bitmap e) j"
    then have "?c + j \<in> engine_received e" unfolding engine_received_def by blast
    then show False using mem [of "?c + j"] c by simp
  qed
  then have "bit (re_receive_bitmap e) = bot" by (simp add: fun_eq_iff)
  then show "re_receive_bitmap e = 0" by (metis bit_0_eq bit_eq_iff)
qed

lemma engine_process_handled:
  assumes "engine_poll env now e w = (PR_kIdle, e, w)" and "message = MessageType_value t # rest"
    and "engine_handle env message t now (e\<lparr>re_last_send := SR_kSent\<rparr>) w = (True, e', w')"
  shows "\<exists>r. engine_process env message now e w = (r, e', w') \<and> r \<in> {PR_kProgress, PR_kBlocked}"
  using assms by (simp add: engine_process_def Let_def)

lemma setup_begins:
  assumes e: "engine_invar (ee_max_window env) e" "re_state e \<noteq> TS_kActive"
    and s: "setup_valid s" "setupTotalSize s \<le> ec_maximum_object_size (re_config e)"
      "ec_receive_window_width (re_config e) \<noteq> 0" "su_segment_size s \<le> ec_maximum_segment_size (re_config e)"
    and w: "sendable w" "vacant w" "unat (setupTotalSize s) \<le> limit"
  shows "\<exists>r e' w'. engine_process env (setup_wire s) now e w = (r, e', w') \<and> r \<in> {PR_kProgress, PR_kBlocked}
    \<and> awaiting s 0 e' w' \<and> re_last_activity_ms e' = now \<and> re_config e' = re_config e \<and> answers w e' w'"
proof -
  let ?e = "e\<lparr>re_last_send := SR_kSent\<rparr>" and ?m = "ee_max_window env"
  obtain w1 where b: "ee_beginTransfer env \<lparr>ti_session_id = su_session_id s, ti_total_size = setupTotalSize s,
      ti_segment_size = su_segment_size s\<rparr> w = (TA_kAccepted, w1)" "sendable w1" "vacant w1" "line w1 = line w"
    using begin_ok [OF w(1,2), of "\<lparr>ti_session_id = su_session_id s, ti_total_size = setupTotalSize s,
      ti_segment_size = su_segment_size s\<rparr>"] w(3) by auto
  have inv: "engine_invar ?m ?e" using engine_same_invar [OF _ e(1), of ?e] by simp
  note st = engine_begin_step [OF inv _ s(1), of now]
  obtain r w2 where a: "engine_sendAck env (engine_begin ?m s now ?e) w1 =
      (True, (engine_begin ?m s now ?e)\<lparr>re_last_send := r\<rparr>, w2)" "sendable w2" "vacant w2"
    using ack_sent [OF b(2)] b(3) by blast
  let ?e2 = "(engine_begin ?m s now ?e)\<lparr>re_last_send := r\<rparr>"
  have dec: "decodeSetupKnownType (setup_wire s) = Some s"
    using decodeSetup_iff [of "setup_wire s" s] by (auto simp: decodeSetup_def split: if_splits)
  have h: "handleSetup env (setup_wire s) now ?e w = (True, ?e2, w2)"
    using s e(2) b(1) a(1) unfolding handleSetup_def dec
    by (auto simp: setup_valid_def not_less leD)
  have p: "engine_poll env now e w = (PR_kIdle, e, w)" using e(2) by (simp add: engine_poll_def)
  have c: "setup_wire s = MessageType_value MT_kSetup # tl (setup_wire s)" by (simp add: setup_wire_def)
  have "engine_invar ?m ?e2" "re_state ?e2 = TS_kActive" "re_setup ?e2 = s" "engine_received ?e2 = {}"
    using st s(3) engine_same_invar [of "engine_begin ?m s now ?e" ?e2] by (auto simp: engine_received_def)
  then have "awaiting s 0 ?e2 w2" using a(2,3) by (simp add: awaiting_def)
  moreover have "re_last_activity_ms ?e2 = now" "re_config ?e2 = re_config e" by (simp_all add: engine_begin_def)
  moreover have "answers w ?e2 w2" unfolding answers_def using a(1) b(2,4) by blast
  ultimately show ?thesis
    using engine_process_handled [OF p c, of ?e2 w2] h by (auto simp: engine_handle_def)
qed

lemma engine_advance_activity: "re_last_activity_ms (engine_advance m b p e) = re_last_activity_ms e"
  by (simp add: engine_advance_def split: prod.splits)

lemma answersI:
  "engine_sendAck env e0 w0 = (True, e0\<lparr>re_last_send := r\<rparr>, w') \<Longrightarrow> sendable w0 \<Longrightarrow> line w0 = line w \<Longrightarrow>
     answers w (e0\<lparr>re_last_send := r\<rparr>) w'"
  unfolding answers_def by blast

lemma accept_segment_sent:
  assumes "engine_accept_segment env b p e w = (ok, e', w')" and "sendable w" and "vacant w" and "re_state e = TS_kActive"
  shows "ok \<and> sendable w' \<and> answers w e' w' \<and> re_last_activity_ms e' = re_last_activity_ms e
    \<and> (re_state e' = TS_kCompleted \<or> re_state e' = TS_kActive \<and> vacant w')"
proof -
  let ?a = "engine_advance (ee_max_window env) b p e"
  obtain r1 w1 where "engine_sendAck env ?a w = (True, ?a\<lparr>re_last_send := r1\<rparr>, w1)" "sendable w1" "vacant w1 = vacant w"
    using ack_sent [OF assms(2), of ?a] by blast
  moreover obtain r2 w2 where "engine_sendAck env (?a\<lparr>re_state := TS_kCompleted\<rparr>) (ee_onTransferComplete env w) =
      (True, ?a\<lparr>re_state := TS_kCompleted, re_last_send := r2\<rparr>, w2)" "sendable w2"
    using ack_sent [OF complete_ok [OF assms(2), THEN conjunct1], of "?a\<lparr>re_state := TS_kCompleted\<rparr>"] by auto
  ultimately show ?thesis
    using assms complete_ok [OF assms(2)]
    by (auto simp: engine_accept_segment_def engine_advance_activity Let_def intro: answersI split: if_splits)
qed

lemma segment_advances:
  assumes aw: "awaiting s i e w" and i: "i \<le> unat (su_final_segment_index s)"
    and obj: "length obj = unat (setupTotalSize s)" "length obj \<le> limit"
    and h: "h = \<lparr>sh_session_id = su_session_id s, sh_segment_index = of_nat i\<rparr>"
    and time: "ec_inactivity_timeout_ms (re_config e) = 0 \<or> now - re_last_activity_ms e < ec_inactivity_timeout_ms (re_config e)"
  shows "\<exists>r e' w'. engine_process env (segment_wire h @ object_segment s obj i) now e w = (r, e', w')
    \<and> r \<in> {PR_kProgress, PR_kBlocked} \<and> re_last_activity_ms e' = now \<and> re_config e' = re_config e
    \<and> engine_invar (ee_max_window env) e' \<and> re_setup e' = s \<and> sendable w' \<and> answers w e' w'
    \<and> (if i = unat (su_final_segment_index s) then re_state e' = TS_kCompleted else awaiting s (Suc i) e' w')"
proof -
  let ?m = "ee_max_window env" and ?msg = "segment_wire h @ object_segment s obj i"
  let ?e0 = "e\<lparr>re_last_send := SR_kSent\<rparr>" and ?e1 = "e\<lparr>re_last_send := SR_kSent, re_last_activity_ms := now\<rparr>"
  let ?x = "ucast (sh_segment_index h) :: u32"
  have st: "re_state e = TS_kActive" "re_setup e = s" and rec: "engine_received e = {..<i}"
    and inv: "engine_invar ?m e" and w: "sendable w" "vacant w" using aw by (auto simp: awaiting_def)
  have win: "window_invar e" and width: "unat (ec_receive_window_width (re_config e)) \<le> 16"
    and wpos: "0 < unat (ec_receive_window_width (re_config e))"
    using inv st by (auto simp: engine_invar_def window_invar_def word_less_nat_alt)
  have v: "setup_valid s" using win st by (simp add: window_invar_def)
  note pre = received_prefix [OF win rec]
  have "i < 2 ^ 16" using i unsigned_less [of "su_final_segment_index s", where ?'a = nat] by simp
  then have ui: "unat (of_nat i :: u16) = i" by (simp add: unat_of_nat take_bit_nat_eq_self)
  then have x: "unat ?x = i" using h by (simp add: unat_ucast_up)
  have xc: "?x = re_contiguous_count e" using x pre(1) by (simp add: unat_eq_iff [symmetric])
  have cnt: "unat (re_segment_count e) = Suc (unat (su_final_segment_index s))"
    using win st by (simp add: window_invar_def unat_setupSegmentCount)
  have lt: "i < unat (re_granted_end e)"
    using win pre(1) wpos cnt i by (simp add: window_invar_def)
  have len: "length (object_segment s obj i) = setup_segment_length s i"
    using length_object_segment [OF v obj(1) i] .
  have end_le: "i * unat (su_segment_size s) + length (object_segment s obj i) \<le> length obj"
    using segment_end_le_total [OF v i] obj(1) len by simp
  have b32: "length obj < 2 ^ 32" using obj(1) unsigned_less [of "setupTotalSize s", where ?'a = nat] by simp
  have off: "unat (of_nat (i * unat (su_segment_size s)) :: u32) = i * unat (su_segment_size s)"
    using end_le b32 by (simp add: unat_of_nat take_bit_nat_eq_self del: of_nat_mult)
  have inv1: "engine_invar ?m ?e1" using engine_same_invar [OF _ inv, of ?e1] by simp
  have new: "\<not> engine_segment_ack_only ?m ?x ?e1"
    using st(1) lt x xc pre wpos
    by (simp add: engine_segment_ack_only_def word_le_nat_alt word_less_nat_alt Let_def unat_ucast_up)
  have offw: "(if ?m = 1 then re_next_object_offset ?e1 else ?x * ucast (su_segment_size (re_setup ?e1)))
      = of_nat (i * unat (su_segment_size s))"
    using segment_offset_word [OF inv1, of "sh_segment_index h"] st lt x xc h ui by simp
  obtain w1 where on: "ee_onSegment env (of_nat (i * unat (su_segment_size s))) (object_segment s obj i) w = (True, w1)"
    "sendable w1" "vacant w1" "line w1 = line w"
    using segment_ok [OF w, of "of_nat (i * unat (su_segment_size s))" "object_segment s obj i"] off end_le obj(2) b32
    by (auto simp del: of_nat_mult)
  let ?acc = "engine_accept_segment env (push_bit (unat (?x - re_contiguous_count ?e1)) 1) (object_segment s obj i) ?e1 w1"
  obtain ok e' w' where acc: "?acc = (ok, e', w')" by (rule prod_cases3)
  have z: "unat (?x - re_contiguous_count ?e1) = i - unat (re_contiguous_count ?e1)" using xc pre(1) by simp
  note step = engine_accept_segment_step [OF inv1 _ _ _ _ _ acc [unfolded z]]
  have e': "engine_invar ?m e'" "engine_received e' = {..<Suc i}" "re_setup e' = s" "re_config e' = re_config e"
    using step st lt pre(1) len rec by (auto simp: engine_received_def)
  note sent = accept_segment_sent [OF acc on(2,3)]
  have ans: "answers w e' w'" using sent st(1) on(4) by (auto simp: answers_def)
  have "re_state e' \<in> {TS_kActive, TS_kCompleted}" using sent st(1) by auto
  note fin = completed_iff_all_received [OF e'(1) this]
  have all: "engine_received e' = {..unat (su_final_segment_index s)} \<longleftrightarrow> i = unat (su_final_segment_index s)"
    unfolding e'(2) lessThan_Suc_atMost by (rule atMost_eq_iff)
  have dec: "decodeSegmentHeaderKnownType ?msg = Some h"
    using decodeSegmentHeader_iff [of ?msg h] by (auto simp: decodeSegmentHeader_def split: if_splits)
  have sub: "subspan_from ?msg kSegmentHeaderSize = object_segment s obj i"
    by (simp add: subspan_from_def bits_sizes)
  have exp: "unat (if sh_segment_index h = su_final_segment_index s then su_final_segment_size s else su_segment_size s)
      = setup_segment_length s i"
    using h ui by (auto simp: setup_segment_length_def unat_eq_iff [symmetric])
  have grd: "?x < re_granted_end ?e0" "\<not> re_segment_count ?e0 \<le> ?x"
    using lt x cnt i by (simp_all add: word_less_nat_alt word_le_nat_alt)
  have A: "((re_state ?e0 \<noteq> TS_kActive \<and> re_state ?e0 \<noteq> TS_kCompleted)
      \<or> sh_session_id h \<noteq> su_session_id (re_setup ?e0) \<or> re_segment_count ?e0 \<le> ?x) = False"
    using st grd(2) h by simp
  have B: "(length (object_segment s obj i) \<noteq> unat (if sh_segment_index h = su_final_segment_index (re_setup ?e0)
      then su_final_segment_size (re_setup ?e0) else su_segment_size (re_setup ?e0))) = False"
    using exp len st(2) by (auto split: if_splits)
  have E: "(if ?x < re_granted_end ?e0 then ?e0\<lparr>re_last_activity_ms := now\<rparr> else ?e0) = ?e1"
    using grd(1) by simp
  have hs: "handleSegment env ?msg now ?e0 w = (ok, e', w')"
    unfolding handleSegment_def dec option.case Let_def sub A B if_False E if_not_P [OF new] offw on(1)
    using acc by simp
  have p: "engine_poll env now e w = (PR_kIdle, e, w)" using time by (auto simp: engine_poll_def)
  have c: "?msg = MessageType_value MT_kSegment # tl ?msg" by (simp add: segment_wire_def)
  obtain r where r: "engine_process env ?msg now e w = (r, e', w')" "r \<in> {PR_kProgress, PR_kBlocked}"
    using engine_process_handled [OF p c, of e' w'] hs sent st(1) by (auto simp: engine_handle_def)
  then show ?thesis using e' sent st(1) fin all ans by (auto simp: awaiting_def)
qed

lemma segments_advance:
  assumes "awaiting s 0 e w" and "re_last_activity_ms e = clk 0"
    and "length obj = unat (setupTotalSize s)" and "length obj \<le> limit"
    and "timely (ec_inactivity_timeout_ms (re_config e)) clk (unat (su_final_segment_index s))"
    and "k \<le> unat (su_final_segment_index s)"
  shows "\<exists>e' w'. engine_run env (segment_events s obj clk k) (e, w) = (e', w') \<and> awaiting s k e' w'
    \<and> re_last_activity_ms e' = clk k \<and> re_config e' = re_config e"
  using assms(6)
proof (induction k)
  case 0
  then show ?case using assms(1,2) by (simp add: segment_events_def engine_run_def)
next
  case (Suc k)
  then obtain e1 w1 where 1: "engine_run env (segment_events s obj clk k) (e, w) = (e1, w1)" "awaiting s k e1 w1"
    "re_last_activity_ms e1 = clk k" "re_config e1 = re_config e" by auto
  have t: "ec_inactivity_timeout_ms (re_config e1) = 0 \<or> clk (Suc k) - re_last_activity_ms e1 < ec_inactivity_timeout_ms (re_config e1)"
    using assms(5) Suc.prems 1(3,4) by (auto simp: timely_def)
  obtain r e2 w2 where 2: "engine_process env (segment_message s obj k) (clk (Suc k)) e1 w1 = (r, e2, w2)"
    "re_last_activity_ms e2 = clk (Suc k)" "re_config e2 = re_config e" "awaiting s (Suc k) e2 w2"
    using segment_advances [OF 1(2) _ assms(3,4) refl t] Suc.prems 1(4) by (auto simp: segment_message_def)
  then show ?case using 1(1) by (simp add: segment_events_def engine_run_def)
qed

theorem in_order_completes:
  assumes e: "engine_invar (ee_max_window env) e" "re_state e \<noteq> TS_kActive"
    and s: "setup_valid s" "setupTotalSize s \<le> ec_maximum_object_size (re_config e)"
      "ec_receive_window_width (re_config e) \<noteq> 0" "su_segment_size s \<le> ec_maximum_segment_size (re_config e)"
    and w: "sendable w" "vacant w" "unat (setupTotalSize s) \<le> limit"
    and obj: "length obj = unat (setupTotalSize s)"
    and t: "timely (ec_inactivity_timeout_ms (re_config e)) clk (unat (su_final_segment_index s))"
  shows "re_state (fst (engine_run env (in_order_transfer s obj clk) (e, w))) = TS_kCompleted"
proof -
  let ?k = "unat (su_final_segment_index s)"
  obtain r e0 w0 where 0: "engine_process env (setup_wire s) (clk 0) e w = (r, e0, w0)" "awaiting s 0 e0 w0"
    "re_last_activity_ms e0 = clk 0" "re_config e0 = re_config e"
    using setup_begins [OF e s w, of "clk 0"] by blast
  obtain e1 w1 where 1: "engine_run env (segment_events s obj clk ?k) (e0, w0) = (e1, w1)" "awaiting s ?k e1 w1"
    "re_last_activity_ms e1 = clk ?k" "re_config e1 = re_config e"
    using segments_advance [where clk = clk, OF 0(2,3) obj _ _ order_refl] w(3) obj t 0(4) by auto
  have t1: "ec_inactivity_timeout_ms (re_config e1) = 0 \<or> clk (Suc ?k) - re_last_activity_ms e1 < ec_inactivity_timeout_ms (re_config e1)"
    using t 1(3,4) by (auto simp: timely_def)
  obtain r2 e2 w2 where 2: "engine_process env (segment_message s obj ?k) (clk (Suc ?k)) e1 w1 = (r2, e2, w2)"
    "re_state e2 = TS_kCompleted"
    using segment_advances [OF 1(2) order_refl obj _ refl t1] w(3) obj by (auto simp: segment_message_def)
  have "engine_run env (in_order_transfer s obj clk) (e, w) = (e2, w2)"
    using 0(1) 1(1) 2(1) by (simp add: in_order_transfer_def segment_events_def engine_run_def)
  with 2(2) show ?thesis by simp
qed

end

subsection \<open>The sinks of the repository accept\<close>

text \<open>
  The RAM application accepts while no completed object waits in it, the transmit packet has
  room for an ACK, and its links accept or are momentarily full; the boot profile always does.
\<close>

definition ram_sendable :: "nat \<Rightarrow> PacketBuffer \<times> RamReceiverCallbacks \<times> 'n \<Rightarrow> bool" where
  "ram_sendable limit s \<longleftrightarrow> packet_invar (fst s) \<and> 6 \<le> pb_capacity (fst s) \<and> limit \<le> length (rc_storage (fst (snd s)))"

definition ram_vacant :: "PacketBuffer \<times> RamReceiverCallbacks \<times> 'n \<Rightarrow> bool" where
  "ram_vacant s \<longleftrightarrow> \<not> rc_object_complete (fst (snd s))"

lemma Ram_onSegment_accepts:
  assumes "unat off + length p \<le> length (rc_storage c)" and "unat off + length p < 2 ^ 32"
  shows "\<exists>c'. Ram_onSegment off p c = (True, c') \<and> length (rc_storage c') = length (rc_storage c)
    \<and> rc_object_complete c' = rc_object_complete c"
proof -
  have "unat (of_nat (length p) :: u32) = length p" using assms(2) by (simp add: unat_of_nat take_bit_nat_eq_self)
  then have "unat (off + of_nat (length p)) = unat off + length p" using assms(2) by (simp add: unat_add_le)
  then show ?thesis using assms(1) by (simp add: Ram_onSegment_def not_less Let_def)
qed

lemma packet_invar_store:
  "packet_invar p \<Longrightarrow> length bs = 6 \<Longrightarrow> 6 \<le> pb_capacity p \<Longrightarrow> packet_invar (write_payload 0 bs p)"
  by (simp add: packet_invar_def write_payload_def word_le_nat_alt)

lemma BitsReceiver_prepare_ok:
  assumes "packet_invar p" and "n \<le> pb_capacity p"
  shows "\<exists>p'. BitsReceiver_prepare conn n (p, w) = (payload p', p', w) \<and> length (payload p') = unat n
    \<and> packet_invar p' \<and> pb_capacity p' = pb_capacity p"
proof -
  obtain p' where p': "initializeConnection n conn (ControlFields_bits kNormal) p = (True, p')"
    using assms(2) initializeConnection_fst by (metis prod.collapse)
  note f = initializeConnection_success [OF p']
  have "packet_invar p'" using initializeConnection_invar [OF assms(1), of n conn "ControlFields_bits kNormal"] p' by simp
  then show ?thesis using p' f by (auto simp: BitsReceiver_prepare_def)
qed

lemma ram_prepare_ok:
  assumes "ram_sendable limit w"
  shows "\<exists>st w'. BitsReceiver_prepare conn 6 w = (st, w') \<and> length st = 6 \<and> ram_sendable limit w'
    \<and> ram_vacant w' = ram_vacant w"
  using BitsReceiver_prepare_ok [of "fst w" 6 conn "snd w"] assms
  by (cases w) (auto simp: ram_sendable_def ram_vacant_def)

interpretation ram_willing: willing_receiver
  "ram_env conn (network_forward (\<lambda>p n. (if full p n then RR_kFull else RR_kAccepted, link p n)))"
  "ram_sendable limit" ram_vacant limit "\<lambda>w. snd (snd w)"
  for conn and full :: "PacketBuffer \<Rightarrow> 'n \<Rightarrow> bool" and link :: "PacketBuffer \<Rightarrow> 'n \<Rightarrow> 'n" and limit
proof unfold_locales
  fix w :: "PacketBuffer \<times> RamReceiverCallbacks \<times> 'n" and off :: u32 and p :: bytes
  assume "ram_sendable limit w" "ram_vacant w" "unat off + length p \<le> limit" "unat off + length p < 2 ^ 32"
  then obtain c where "Ram_onSegment off p (fst (snd w)) = (True, c)"
    "length (rc_storage c) = length (rc_storage (fst (snd w)))" "\<not> rc_object_complete c"
    using Ram_onSegment_accepts [of off p "fst (snd w)"] by (auto simp: ram_sendable_def ram_vacant_def)
  then show "\<exists>w'. ee_onSegment (ram_env conn (network_forward
      (\<lambda>p n. (if full p n then RR_kFull else RR_kAccepted, link p n)))) off p w = (True, w')
    \<and> ram_sendable limit w' \<and> ram_vacant w' \<and> snd (snd w') = snd (snd w)"
    using \<open>ram_sendable limit w\<close>
    by (simp add: ram_env_def endpoint_env_def on_ram_def ram_sendable_def ram_vacant_def)
next
  fix w :: "PacketBuffer \<times> RamReceiverCallbacks \<times> 'n"
  assume "ram_sendable limit w"
  then show "\<exists>st w'. ee_prepare (ram_env conn (network_forward
      (\<lambda>p n. (if full p n then RR_kFull else RR_kAccepted, link p n)))) 6 w = (st, w')
    \<and> length st = 6 \<and> ram_sendable limit w' \<and> ram_vacant w' = ram_vacant w"
    using ram_prepare_ok [of limit w conn] by (simp add: ram_env_def endpoint_env_def)
qed (auto simp: ram_env_def endpoint_env_def on_ram_def Ram_beginTransfer_def Ram_onTransferComplete_def
    ram_sendable_def ram_vacant_def packet_invar_store BitsReceiver_sendPrepared_def network_forward_def
    sendResult_def)

definition boot_sendable :: "BootProfile \<Rightarrow> bool" where
  "boot_sendable w \<longleftrightarrow> packet_invar (bp_packet w) \<and> 8 \<le> pb_capacity (bp_packet w)"

lemma writeEscaped_packet [simp]:
  "bp_packet (uart0WriteByte b w) = bp_packet w" "bp_packet (writeEscaped b w) = bp_packet w"
  "bp_packet (fold writeEscaped bs w) = bp_packet w"
proof -
  show u: "bp_packet (uart0WriteByte b w) = bp_packet w" for b w by (simp add: uart0WriteByte_def)
  show e: "bp_packet (writeEscaped b w) = bp_packet w" for b w by (simp add: writeEscaped_def u)
  show "bp_packet (fold writeEscaped bs w) = bp_packet w" by (induction bs arbitrary: w) (simp_all add: e)
qed

lemma boot_prepare_ok:
  assumes "packet_invar (bp_packet w)" and "n \<le> pb_capacity (bp_packet w)"
  shows "\<exists>p'. UartPduSender_prepare n w = (payload p', w\<lparr>bp_packet := p'\<rparr>) \<and> length (payload p') = unat n
    \<and> packet_invar p' \<and> pb_capacity p' = pb_capacity (bp_packet w) \<and> pb_size p' = n"
proof -
  obtain p' where p': "initializeConnection n kUploadConnection (ControlFields_bits kNormal) (bp_packet w) = (True, p')"
    using assms(2) initializeConnection_fst by (metis prod.collapse)
  note f = initializeConnection_success [OF p']
  have "packet_invar p'"
    using initializeConnection_invar [OF assms(1), of n kUploadConnection "ControlFields_bits kNormal"] p' by simp
  then show ?thesis using p' f by (auto simp: UartPduSender_prepare_def)
qed

lemma boot_datagram_sendable:
  assumes "boot_sendable w" and "length d < 65535" and "unat (pb_capacity (bp_packet w)) \<ge> length d + 1"
  shows "boot_sendable (snd (engine_sendDatagram boot_sender_env d w))"
proof -
  have n: "unat (of_nat (length d + 1) :: u16) = length d + 1" using assms(2)
    by (simp add: unat_of_nat take_bit_nat_eq_self del: of_nat_add of_nat_Suc add_Suc_right)
  then have le: "(of_nat (length d + 1) :: u16) \<le> pb_capacity (bp_packet w)" using assms(3) by (simp add: word_le_nat_alt)
  obtain p' where p: "UartPduSender_prepare (of_nat (length d + 1)) w = (payload p', w\<lparr>bp_packet := p'\<rparr>)"
    "length (payload p') = length d + 1" "packet_invar p'" "pb_capacity p' = pb_capacity (bp_packet w)"
    "pb_size p' = of_nat (length d + 1)"
    using boot_prepare_ok [OF _ le] assms(1) n by (auto simp: boot_sendable_def)
  have "packet_invar (write_payload 0 (span_write 0 (5 # d) (payload p')) p')"
    using p n by (intro packet_invar_write_payload) simp_all
  then show ?thesis
    using assms(1,2) p n
    by (simp add: engine_sendDatagram_def bits_sizes encodeUserDatagram_wire boot_sendable_def Let_def
        UartPduSender_sendPrepared_def)
qed

lemma boot_complete_sendable:
  assumes "boot_sendable w"
  shows "boot_sendable (Boot_onTransferComplete w)"
proof -
  have "8 \<le> unat (pb_capacity (bp_packet w))" using assms by (simp add: boot_sendable_def word_le_nat_alt)
  then show ?thesis
    using boot_datagram_sendable [OF assms] by (simp add: Boot_onTransferComplete_def split: prod.splits)
qed

interpretation boot_willing: willing_receiver boot_env boot_sendable "\<lambda>_. True" 256 "\<lambda>_. ()"
proof unfold_locales
  fix w and off :: u32 and p :: bytes
  assume w: "boot_sendable w" and b: "unat off + length p \<le> 256" "unat off + length p < 2 ^ 32"
  have "unat (of_nat (length p) :: u32) = length p" using b(2) by (simp add: unat_of_nat take_bit_nat_eq_self)
  then have "unat (off + of_nat (length p)) = unat off + length p" using b(2) by (simp add: unat_add_le)
  then show "\<exists>w'. ee_onSegment boot_env off p w = (True, w') \<and> boot_sendable w' \<and> True \<and> () = ()"
    using w b(1) by (simp add: boot_env_def Boot_onSegment_def kMaximumObjectSize_def not_less boot_sendable_def Let_def)
next
  fix w assume w: "boot_sendable w"
  then have "6 \<le> pb_capacity (bp_packet w)" by (simp add: boot_sendable_def word_le_nat_alt)
  then show "\<exists>st w'. ee_prepare boot_env 6 w = (st, w') \<and> length st = 6 \<and> boot_sendable w' \<and> True = True"
    using boot_prepare_ok [of w 6] w by (auto simp: boot_env_def boot_sendable_def)
next
  fix w and bs :: bytes
  assume "boot_sendable w" "length bs = 6"
  then show "boot_sendable (ee_store boot_env bs w) \<and> True = True"
    by (auto simp: boot_env_def boot_sendable_def word_le_nat_alt intro!: packet_invar_store)
next
  fix w assume "boot_sendable w"
  then show "boot_sendable (ee_onTransferComplete boot_env w) \<and> () = ()" by (simp add: boot_env_def boot_complete_sendable)
qed (auto simp: boot_env_def Boot_beginTransfer_def kMaximumObjectSize_def boot_sendable_def
    UartPduSender_sendPrepared_def Let_def)

subsection \<open>In-order transfers are honest\<close>

lemma segment_message_honest:
  assumes "i \<le> unat (su_final_segment_index s)"
  shows "honest_message s obj (segment_message s obj i)"
proof -
  have "i < 2 ^ 16" using assms unsigned_less [of "su_final_segment_index s", where ?'a = nat] by simp
  then have "unat (of_nat i :: u16) = i" by (simp add: unat_of_nat take_bit_nat_eq_self)
  then show ?thesis
    using honest_wires(5) [of "\<lparr>sh_session_id = su_session_id s, sh_segment_index = of_nat i\<rparr>" s obj]
    by (simp add: segment_message_def)
qed

lemma in_order_honest:
  "\<forall>ev \<in> set (in_order_transfer s obj clk). honest_event s obj ev"
  using segment_message_honest honest_wires(1) by (auto simp: in_order_transfer_def segment_events_def)

lemma boot_engine_eq:
  "boot_engine_init = BitsReceiverEngine_init (ee_max_window boot_env) \<lparr>ec_maximum_segment_size = kSegmentPayloadSize,
     ec_receive_window_width = 1, ec_maximum_object_size = of_nat kMaximumObjectSize, ec_inactivity_timeout_ms = 5000\<rparr>"
  by (simp add: boot_engine_init_def boot_env_def)

lemma boot_in_order_completes:
  assumes "setup_valid s" and "length obj = unat (setupTotalSize s)" and "length obj \<le> 256"
    and "su_segment_size s \<le> 24" and "timely 5000 clk (unat (su_final_segment_index s))"
    and "boot_sendable w"
  shows "re_state (fst (engine_run boot_env (in_order_transfer s obj clk) (boot_engine_init, w))) = TS_kCompleted"
proof (rule boot_willing.in_order_completes)
  show "engine_invar (ee_max_window boot_env) boot_engine_init"
    unfolding boot_engine_eq by (rule engine_invar_init [OF boot_sink.window_limits])
  show "setupTotalSize s \<le> ec_maximum_object_size (re_config boot_engine_init)"
    using assms(2,3) by (simp add: boot_engine_init_def BitsReceiverEngine_init_def kMaximumObjectSize_def word_le_nat_alt)
qed (use assms in \<open>simp_all add: boot_engine_init_def BitsReceiverEngine_init_def kSegmentPayloadSize_def\<close>)

end
