(* ===== verification/Boot_Run.thy ===== *)
theory Boot_Run
  imports Bits_Completion
begin

section \<open>The main loop of the boot profile\<close>

text \<open>
  \<^verbatim>\<open>main\<close> of \<^verbatim>\<open>examples/arduino-uno/bits_boot_profile_ram.cpp\<close>: a pass polls the engine and then takes
  the bytes that are available, each with the time \<^verbatim>\<open>processFrame\<close> reads if the byte ends a frame.
  The loop is the engine run on the messages that the bytes carry.
\<close>

subsection \<open>Loop\<close>

type_synonym boot_state = "HdlcDecoder \<times> BitsReceiverEngine \<times> BootProfile"

definition boot_pass :: "u32 \<times> (u8 \<times> u32) list \<Rightarrow> boot_state \<Rightarrow> boot_state" where
  "boot_pass pass s =
     (case pass of (now_ms, available) \<Rightarrow>
        case s of (d, e, w) \<Rightarrow>
          fold (\<lambda>(byte, byte_now_ms). boot_receive_byte byte byte_now_ms) available
            (d, snd (engine_poll boot_env now_ms e w)))"

definition boot_start :: boot_state where
  "boot_start = (HdlcDecoder_init 34, boot_engine_init, boot_init)"

definition boot_main :: "(u32 \<times> (u8 \<times> u32) list) list \<Rightarrow> boot_state" where
  "boot_main passes = fold boot_pass passes boot_start"

subsection \<open>The messages on the line\<close>

definition boot_frame_events :: "bytes \<Rightarrow> u32 \<Rightarrow> engine_event list" where
  "boot_frame_events frame now =
     (if 6 < length frame \<and> boot_matchesConnection (header_of_bytes frame) then [EvMessage (drop 6 frame) now] else [])"

fun boot_byte_events :: "(u8 \<times> u32) list \<Rightarrow> HdlcDecoder \<Rightarrow> HdlcDecoder \<times> engine_event list" where
  "boot_byte_events [] d = (d, [])"
| "boot_byte_events ((byte, now) # available) d =
     (case HdlcDecoder_push byte d of
        (False, d1) \<Rightarrow> boot_byte_events available d1
      | (True, d1) \<Rightarrow> (case boot_byte_events available (HdlcDecoder_consume d1) of
          (d2, events) \<Rightarrow> (d2, boot_frame_events (HdlcDecoder_frame d1) now @ events)))"

fun boot_traffic :: "(u32 \<times> (u8 \<times> u32) list) list \<Rightarrow> HdlcDecoder \<Rightarrow> HdlcDecoder \<times> engine_event list" where
  "boot_traffic [] d = (d, [])"
| "boot_traffic ((now, available) # passes) d =
     (case boot_byte_events available d of (d1, events) \<Rightarrow>
        case boot_traffic passes d1 of (d2, later) \<Rightarrow> (d2, EvPoll now # events @ later))"

lemma boot_processFrame_events:
  "boot_processFrame frame now s = engine_run boot_env (boot_frame_events frame now) s"
  by (cases s) (auto simp: boot_processFrame_def boot_frame_events_def engine_run_def subspan_from_def Let_def)

lemma engine_run_simps:
  "engine_run env [] s = s" "engine_run env (ev # evs) s = engine_run env evs (engine_step env ev s)"
  "engine_run env (evs @ evs') s = engine_run env evs' (engine_run env evs s)"
  by (simp_all add: engine_run_def)

lemma boot_bytes_run:
  "fold (\<lambda>(byte, now). boot_receive_byte byte now) available (d, s) =
     (case boot_byte_events available d of (d', events) \<Rightarrow> (d', engine_run boot_env events s))"
  by (induction available d arbitrary: s rule: boot_byte_events.induct)
    (auto simp: boot_receive_byte_def boot_processFrame_events engine_run_simps split: prod.splits bool.splits)

lemma boot_passes_run:
  "fold boot_pass passes (d, s) =
     (case boot_traffic passes d of (d', events) \<Rightarrow> (d', engine_run boot_env events s))"
proof (induction passes d arbitrary: s rule: boot_traffic.induct)
  case (2 now available passes d)
  obtain d1 evs where e: "boot_byte_events available d = (d1, evs)" by fastforce
  have "boot_pass (now, available) (d, s) = (d1, engine_run boot_env evs (engine_step boot_env (EvPoll now) s))"
    by (cases s) (simp add: boot_pass_def boot_bytes_run e)
  then show ?case using 2 [OF e [symmetric]] by (simp add: e engine_run_simps split: prod.splits)
qed (simp add: engine_run_simps)

lemma boot_main_run:
  "boot_main passes = (case boot_traffic passes (HdlcDecoder_init 34) of
     (d, events) \<Rightarrow> (d, engine_run boot_env events (boot_engine_init, boot_init)))"
  by (simp add: boot_main_def boot_start_def boot_passes_run)

subsection \<open>One frame in one pass\<close>

lemma boot_bytes_push_all:
  assumes "HdlcDecoder_push_all (xs @ [x]) d = (replicate (length xs) False @ [True], d')"
  shows "boot_byte_events (map (\<lambda>b. (b, now)) (xs @ [x])) d =
    (HdlcDecoder_consume d', boot_frame_events (HdlcDecoder_frame d') now)"
  using assms
proof (induction xs arbitrary: d)
  case (Cons a xs)
  obtain d1 where "HdlcDecoder_push a d = (False, d1)"
    "HdlcDecoder_push_all (xs @ [x]) d1 = (replicate (length xs) False @ [True], d')"
    using Cons.prems by (auto split: prod.splits)
  with Cons.IH [of d1] show ?case by simp
qed (auto split: prod.splits bool.splits)

lemma boot_frame_decoded:
  assumes "hdlc_quiet d" and "length (hd_frame d) = 36" and "link_fits 28 p" and "payload p \<noteq> []"
    and "boot_matchesConnection (pb_header p)"
  shows "\<exists>d'. boot_byte_events (map (\<lambda>b. (b, now)) (wire_frame p)) d = (d', [EvMessage (payload p) now])
    \<and> hdlc_quiet d' \<and> length (hd_frame d') = 36"
proof -
  let ?c = "header_bytes (pb_header p) @ payload p"
  have a: "hdlc_accepts 34 (hdlc_body ?c)"
    using assms(3) by (simp add: hdlc_accepts_body link_fits_def header_bytes_def)
  have len: "length (hd_frame d) = 34 + 2" using assms(2) by simp
  obtain d1 where d1: "HdlcDecoder_push_all (hdlc_frame (hdlc_body ?c)) d =
      (replicate (Suc (length (hdlc_stuff (hdlc_body ?c)))) False @ [True], d1)"
    "length (hd_frame d1) = 36" "HdlcDecoder_frame d1 = ?c"
    using hdlc_decode_frame [OF assms(1) len, of "hdlc_body ?c"] a by (auto simp: hdlc_body_def)
  have f: "wire_frame p = (hdlc_kFlag # hdlc_stuff (hdlc_body ?c)) @ [hdlc_kFlag]" by (simp add: wire_frame_def hdlc_frame_def)
  have "boot_byte_events (map (\<lambda>b. (b, now)) (wire_frame p)) d = (HdlcDecoder_consume d1, boot_frame_events ?c now)"
    using boot_bytes_push_all [of "hdlc_kFlag # hdlc_stuff (hdlc_body ?c)" hdlc_kFlag d d1 now] d1(1,3)
    by (simp add: f hdlc_frame_def)
  moreover have "boot_frame_events ?c now = [EvMessage (payload p) now]"
    using assms(4,5) by (simp add: boot_frame_events_def)
  moreover have "hdlc_quiet (HdlcDecoder_consume d1)" "length (hd_frame (HdlcDecoder_consume d1)) = 36"
    using d1(2) by (simp_all add: hdlc_quiet_def HdlcDecoder_consume_def hasValidCrc_def)
  ultimately show ?thesis by auto
qed

text \<open>One pass per packet, at the times of a clock; the events are a poll and a message each.\<close>

definition boot_upload_passes :: "(nat \<Rightarrow> u32) \<Rightarrow> PacketBuffer list \<Rightarrow> (u32 \<times> (u8 \<times> u32) list) list" where
  "boot_upload_passes clk ps = map (\<lambda>i. (clk i, map (\<lambda>b. (b, clk i)) (wire_frame (ps ! i)))) [0..<length ps]"

definition polled :: "engine_event list \<Rightarrow> engine_event list" where
  "polled evs = concat (map (\<lambda>ev. case ev of EvMessage m now \<Rightarrow> [EvPoll now, ev] | _ \<Rightarrow> [ev]) evs)"

lemma boot_upload_traffic:
  assumes "\<forall>p \<in> set ps. link_fits 28 p \<and> payload p \<noteq> [] \<and> boot_matchesConnection (pb_header p)"
  shows "\<exists>d. boot_traffic (boot_upload_passes clk ps) (HdlcDecoder_init 34)
    = (d, polled (map (\<lambda>i. EvMessage (payload (ps ! i)) (clk i)) [0..<length ps]))"
proof -
  have "\<exists>d'. boot_traffic (map (\<lambda>i. (clk i, map (\<lambda>b. (b, clk i)) (wire_frame (ps ! i)))) is) d
      = (d', polled (map (\<lambda>i. EvMessage (payload (ps ! i)) (clk i)) is))"
    if "hdlc_quiet d" "length (hd_frame d) = 36" "set is \<subseteq> {..<length ps}" for d "is"
    using that
  proof (induction "is" arbitrary: d)
    case (Cons i "is")
    then have "ps ! i \<in> set ps" by simp
    from boot_frame_decoded [OF Cons.prems(1,2), of "ps ! i" "clk i"] this assms obtain d1 where
      d1: "boot_byte_events (map (\<lambda>b. (b, clk i)) (wire_frame (ps ! i))) d = (d1, [EvMessage (payload (ps ! i)) (clk i)])"
        "hdlc_quiet d1" "length (hd_frame d1) = 36" by blast
    with Cons.IH [OF d1(2,3)] Cons.prems(3) show ?case by (auto simp: polled_def)
  qed (simp add: polled_def)
  from this [of "HdlcDecoder_init 34" "[0..<length ps]"] show ?thesis
    by (simp add: boot_upload_passes_def hdlc_quiet_def HdlcDecoder_init_def lessThan_atLeast0)
qed

subsection \<open>Uploads complete\<close>

lemma polled_append [simp]: "polled (evs @ evs') = polled evs @ polled evs'"
  by (simp add: polled_def)

lemma polled_message [simp]: "polled [EvMessage m now] = [EvPoll now, EvMessage m now]"
  by (simp add: polled_def)

text \<open>Polls that come with the messages of a timely transfer change nothing.\<close>

lemma polled_transfer:
  assumes e: "re_state e \<noteq> TS_kActive" "engine_invar 1 e" "ec_inactivity_timeout_ms (re_config e) = 5000"
    and s: "setup_valid s" "setupTotalSize s \<le> ec_maximum_object_size (re_config e)"
      "ec_receive_window_width (re_config e) \<noteq> 0" "su_segment_size s \<le> ec_maximum_segment_size (re_config e)"
    and w: "boot_sendable w" and obj: "length obj = unat (setupTotalSize s)" "length obj \<le> 256"
    and t: "timely 5000 clk (unat (su_final_segment_index s))" and k: "k \<le> Suc (unat (su_final_segment_index s))"
  shows "engine_run boot_env (polled (EvMessage (setup_wire s) (clk 0) # segment_events s obj clk k)) (e, w)
    = engine_run boot_env (EvMessage (setup_wire s) (clk 0) # segment_events s obj clk k) (e, w)"
proof -
  have m: "ee_max_window boot_env = 1" by (simp add: boot_env_def)
  obtain r e0 w0 where 0: "engine_process boot_env (setup_wire s) (clk 0) e w = (r, e0, w0)"
    "boot_willing.awaiting s 0 e0 w0" "re_last_activity_ms e0 = clk 0" "re_config e0 = re_config e"
    using boot_willing.setup_begins [of e s w "clk 0"] e s w obj m by auto
  have p0: "engine_poll boot_env (clk 0) e w = (PR_kIdle, e, w)" using e(1) by (simp add: engine_poll_def)
  have t0: "timely (ec_inactivity_timeout_ms (re_config e0)) clk (unat (su_final_segment_index s))" using t 0(4) e(3) by simp
  have "engine_run boot_env (polled (segment_events s obj clk k)) (e0, w0) = engine_run boot_env (segment_events s obj clk k) (e0, w0)"
    using k
  proof (induction k)
    case (Suc k)
    obtain e1 w1 where 1: "engine_run boot_env (segment_events s obj clk k) (e0, w0) = (e1, w1)"
      "re_last_activity_ms e1 = clk k" "re_config e1 = re_config e0"
      using boot_willing.segments_advance [OF 0(2,3) obj t0, of k] Suc.prems by auto
    have "clk (Suc k) - clk k < 5000" using t Suc.prems by (auto simp: timely_def)
    then have "engine_poll boot_env (clk (Suc k)) e1 w1 = (PR_kIdle, e1, w1)"
      using 1(2,3) 0(4) e(3) by (simp add: engine_poll_def)
    then show ?case using Suc 1(1) by (simp add: segment_events_def engine_run_simps)
  qed (simp add: segment_events_def polled_def)
  then show ?thesis using 0(1) p0 polled_append [of "[EvMessage (setup_wire s) (clk 0)]"] by (simp add: engine_run_simps)
qed

text \<open>The payloads of an upload, and that a packet of the profile has room for each.\<close>

definition upload_payloads :: "Setup \<Rightarrow> bytes \<Rightarrow> bytes list" where
  "upload_payloads s obj = setup_wire s # map (segment_message s obj) [0..<Suc (unat (su_final_segment_index s))]"

lemma upload_payload_fits:
  assumes "setup_valid s" "su_segment_size s \<le> 24" "length obj = unat (setupTotalSize s)" "m \<in> set (upload_payloads s obj)"
  shows "length m \<le> 28" "m \<noteq> []"
proof -
  have length_setup: "setup_wire s \<noteq> []" by (simp add: setup_wire_def)
  have wire: "segment_wire h \<noteq> []" for h by (simp add: segment_wire_def)
  have "length (segment_message s obj j) \<le> 28 \<and> segment_message s obj j \<noteq> []" if "j \<le> unat (su_final_segment_index s)" for j
    using length_object_segment [OF assms(1,3) that] segment_length_le [OF assms(1), of j] assms(2) wire
    by (simp add: segment_message_def word_le_nat_alt)
  moreover have "length (setup_wire s) \<le> 28 \<and> setup_wire s \<noteq> []" using length_setup by simp
  moreover have "m = setup_wire s \<or> (\<exists>j \<le> unat (su_final_segment_index s). m = segment_message s obj j)"
    using assms(4) by (auto simp: upload_payloads_def less_Suc_eq_le simp del: upt_Suc)
  ultimately show "length m \<le> 28" "m \<noteq> []" by metis+
qed

lemma upload_events:
  assumes "map payload ps = upload_payloads s obj"
  shows "map (\<lambda>i. EvMessage (payload (ps ! i)) (clk i)) [0..<length ps] = in_order_transfer s obj clk"
proof -
  let ?n = "Suc (unat (su_final_segment_index s))"
  have len: "length ps = Suc ?n" using arg_cong [OF assms, of length] by (simp add: upload_payloads_def)
  have nth: "payload (ps ! i) = upload_payloads s obj ! i" if "i < Suc ?n" for i
    using arg_cong [OF assms, of "\<lambda>xs. xs ! i"] that len by simp
  have "map (\<lambda>i. EvMessage (payload (ps ! i)) (clk i)) [0..<Suc ?n]
      = map (\<lambda>i. EvMessage (upload_payloads s obj ! i) (clk i)) [0..<Suc ?n]"
    using nth by (intro map_cong refl) (simp del: upt_Suc)
  also have "\<dots> = in_order_transfer s obj clk"
    unfolding in_order_transfer_def segment_events_def map_upt_Suc by (simp add: upload_payloads_def del: upt_Suc)
  finally show ?thesis by (simp only: len)
qed

lemma boot_upload_polled:
  assumes s: "setup_valid s" "su_segment_size s \<le> 24" and obj: "length obj = unat (setupTotalSize s)"
    and ps: "\<forall>p \<in> set ps. packet_invar p \<and> boot_matchesConnection (pb_header p)" "map payload ps = upload_payloads s obj"
  shows "\<exists>d. boot_traffic (boot_upload_passes clk ps) (HdlcDecoder_init 34) = (d, polled (in_order_transfer s obj clk))"
proof -
  have "payload p \<in> set (upload_payloads s obj)" if "p \<in> set ps" for p using that by (simp flip: ps(2))
  then have fit: "\<forall>p \<in> set ps. link_fits 28 p \<and> payload p \<noteq> [] \<and> boot_matchesConnection (pb_header p)"
    using upload_payload_fits [OF s obj] ps(1) length_payload by (metis link_fits_def)
  show ?thesis using boot_upload_traffic [OF fit, of clk] unfolding upload_events [OF ps(2)] .
qed

lemma boot_upload_run:
  assumes s: "setup_valid s" "su_segment_size s \<le> 24" and obj: "length obj = unat (setupTotalSize s)" "length obj \<le> 256"
    and t: "timely 5000 clk (unat (su_final_segment_index s))"
    and ps: "\<forall>p \<in> set ps. packet_invar p \<and> boot_matchesConnection (pb_header p)" "map payload ps = upload_payloads s obj"
  shows "\<exists>d. boot_main (boot_upload_passes clk ps) = (d, engine_run boot_env (in_order_transfer s obj clk) (boot_engine_init, boot_init))"
proof -
  obtain d where d: "boot_traffic (boot_upload_passes clk ps) (HdlcDecoder_init 34) = (d, polled (in_order_transfer s obj clk))"
    using boot_upload_polled [OF s obj(1) ps] by blast
  have "engine_run boot_env (polled (in_order_transfer s obj clk)) (boot_engine_init, boot_init)
      = engine_run boot_env (in_order_transfer s obj clk) (boot_engine_init, boot_init)"
    unfolding in_order_transfer_def
  proof (rule polled_transfer [OF _ _ _ s(1) _ _ _ _ obj t order_refl])
    show "engine_invar 1 boot_engine_init" using engine_invar_init [of 1] by (simp add: boot_engine_init_def)
    show "boot_sendable boot_init" by (simp add: boot_sendable_def boot_init_def PacketBuffer_new_def packet_invar_def)
    show "setupTotalSize s \<le> ec_maximum_object_size (re_config boot_engine_init)"
      using obj by (simp add: boot_engine_init_def BitsReceiverEngine_init_def kMaximumObjectSize_def word_le_nat_alt)
  qed (use s(2) in \<open>simp_all add: boot_engine_init_def BitsReceiverEngine_init_def kSegmentPayloadSize_def\<close>)
  then show ?thesis using d by (simp add: boot_main_run)
qed

text \<open>What such passes put on the line is honest.\<close>

lemma boot_upload_honest:
  assumes "setup_valid s" and "su_segment_size s \<le> 24" and "length obj = unat (setupTotalSize s)"
    and ps: "\<forall>p \<in> set ps. packet_invar p \<and> boot_matchesConnection (pb_header p)" "map payload ps = upload_payloads s obj"
  shows "\<forall>ev \<in> set (snd (boot_traffic (boot_upload_passes clk ps) (HdlcDecoder_init 34))). honest_event s obj ev"
proof -
  obtain d where d: "boot_traffic (boot_upload_passes clk ps) (HdlcDecoder_init 34) = (d, polled (in_order_transfer s obj clk))"
    using boot_upload_polled [OF assms] by blast
  have "\<forall>ev \<in> set (polled evs). honest_event s obj ev" if "\<forall>ev \<in> set evs. honest_event s obj ev" for evs
    using that by (auto simp: polled_def split: engine_event.splits)
  from this [OF in_order_honest] show ?thesis using d by simp
qed

end
