(* ===== verification/Bits_Properties.thy ===== *)
theory Bits_Properties
  imports Boot_Run "HOL-Library.Code_Target_Nat"
begin

section \<open>Properties of the BITS transport\<close>

text \<open>
  Codec, receiver engine, receiver endpoint and transmitter.  The instances share one small
  transfer, defined first: three bytes in two segments, with a receiver of one segment slot.
\<close>

subsection \<open>An example transfer\<close>

definition example_tx_conn :: ConnectionAddress where
  "example_tx_conn = \<lparr>ca_wire = 1, ca_local_host = 2, ca_remote_host = 1, ca_endpoint = 1\<rparr>"

definition example_rx_conn :: ConnectionAddress where
  "example_rx_conn = \<lparr>ca_wire = 1, ca_local_host = 1, ca_remote_host = 2, ca_endpoint = 1\<rparr>"

definition example_object :: bytes where
  "example_object = [10, 20, 30]"

definition example_tx :: BitsTransmitter where
  "example_tx = BitsTransmitter_init example_tx_conn
     \<lparr>tm_retransmission_timeout_ms = 100, tm_probe_timeout_ms = 100, tm_max_retries = 3\<rparr>
     (PacketBuffer_new 6) (PacketBuffer_new 10)"

definition example_ack :: "u8 \<Rightarrow> u8 \<Rightarrow> PacketBuffer" where
  "example_ack base newest = write_payload 0 (ack_wire \<lparr>ak_session_id = 7, ak_window_bitmap = 0,
       ak_max_receive_sequence = newest, ak_window_base = base\<rparr>)
     ((PacketBuffer_new 6)\<lparr>pb_size := 6, pb_header :=
       \<lparr>h_control = 0x81, h_wire = 1, h_source = 1, h_destination = 2, h_endpoint = 1\<rparr>\<rparr>)"

definition example_tx_events :: "tx_event list" where
  "example_tx_events = [TxProcess 0, TxReceive (example_ack 0xFF 0), TxProcess 1, TxReceive (example_ack 0 1), TxProcess 2]"

definition example_tx_env :: "unit TransmitterEnv" where
  "example_tx_env = \<lparr>te_forward = (\<lambda>p w. (RR_kAccepted, w)), te_onDatagram = (\<lambda>d w. w),
     te_onTransferComplete = (\<lambda>w. w), te_onTransferRejected = (\<lambda>r w. w), te_onTransferAborted = (\<lambda>w. w)\<rparr>"

definition example_started :: BitsTransmitter where
  "example_started = snd (startTransfer example_object 2 7 0 example_tx)"

definition example_tx_run :: "BitsTransmitter \<times> unit \<times> PacketBuffer list" where
  "example_tx_run = tx_run (record_env example_tx_env) example_tx_events (example_started, (), [])"

definition example_sent :: "PacketBuffer list" where
  "example_sent = snd (snd example_tx_run)"

definition example_setup :: Setup where
  "example_setup = \<lparr>su_session_id = 7, su_initial_sequence_number = 0, su_final_segment_index = 1,
     su_segment_size = 2, su_final_segment_size = 1\<rparr>"

lemma example_tx_invar: "tx_invar example_tx"
  by (simp add: example_tx_def tx_invar_init)

lemma example_ack_invar: "packet_invar (example_ack base newest)"
  by (simp add: example_ack_def packet_invar_def PacketBuffer_new_def write_payload_def)

lemma example_events_wf: "\<forall>ev \<in> set example_tx_events. tx_event_wf ev"
  by (simp add: example_tx_events_def example_ack_invar)

lemma example_starts: "startTransfer example_object 2 7 0 example_tx = (ST_kStarted, example_started)"
proof -
  have "fst (startTransfer example_object 2 7 0 example_tx) = ST_kStarted" by code_simp
  then show ?thesis unfolding example_started_def by (metis prod.collapse)
qed

lemma example_tx_run_eq:
  "tx_run (record_env example_tx_env) example_tx_events (example_started, (), []) = (fst example_tx_run, (), example_sent)"
  unfolding example_sent_def example_tx_run_def by (metis prod.collapse unit.exhaust)

definition example_ram_env :: "(PacketBuffer \<times> RamReceiverCallbacks \<times> nat) EngineEnv" where
  "example_ram_env = ram_env example_rx_conn (network_forward (\<lambda>p n. (RR_kAccepted, n + 1)))"

definition example_memory :: "PacketBuffer \<times> RamReceiverCallbacks \<times> nat" where
  "example_memory = (PacketBuffer_new 6, \<lparr>rc_storage = replicate 4 0, rc_received_size = 0, rc_object_complete = False\<rparr>, 0)"

definition example_config :: ReceiverEngineConfig where
  "example_config = \<lparr>ec_maximum_segment_size = 2, ec_receive_window_width = 2, ec_maximum_object_size = 4, ec_inactivity_timeout_ms = 0\<rparr>"

text \<open>The SETUP and the two SEGMENTs in the wrong order, with a duplicate.\<close>

definition example_messages :: "engine_event list" where
  "example_messages = [EvMessage (setup_wire example_setup) 0,
     EvMessage (segment_wire \<lparr>sh_session_id = 7, sh_segment_index = 1\<rparr> @ [30]) 1,
     EvMessage (segment_wire \<lparr>sh_session_id = 7, sh_segment_index = 1\<rparr> @ [30]) 2,
     EvMessage (segment_wire \<lparr>sh_session_id = 7, sh_segment_index = 0\<rparr> @ [10, 20]) 3]"

definition example_engine_after :: "nat \<Rightarrow> BitsReceiverEngine \<times> PacketBuffer \<times> RamReceiverCallbacks \<times> nat" where
  "example_engine_after n = engine_run example_ram_env (take n example_messages)
     (BitsReceiverEngine_init 16 example_config, example_memory)"

subsection \<open>Codec\<close>

text \<open>C22: each decoder accepts exactly the byte strings its encoder produces and returns the
  message they encode: no second spelling of a message exists, and none is misread as
  another type.\<close>

theorem codec_exact:
  "(decodeSetup m = Some s \<longleftrightarrow> m = setup_wire s)
   \<and> (decodeSegmentHeader m = Some h \<longleftrightarrow> (\<exists>data. m = segment_wire h @ data))
   \<and> (decodeAck m = Some a \<longleftrightarrow> m = ack_wire a)
   \<and> (decodeProbe m = Some p \<longleftrightarrow> m = probe_wire p)
   \<and> (decodeReject m = Some r \<longleftrightarrow> m = reject_wire r)
   \<and> (decodeAbort m = Some b \<longleftrightarrow> m = abort_wire b)
   \<and> (decodeUserDatagram m = Some d \<longleftrightarrow> m = 5 # d)"
  by (simp add: decodeSetup_iff decodeSegmentHeader_iff decodeAck_iff decodeProbe_iff decodeReject_iff
      decodeAbort_iff decodeUserDatagram_iff)

text \<open>C23: each of the seven messages, encoded into a buffer that is large enough, decodes to itself, and
  bytes after the message are untouched; a buffer that is too small is refused and untouched.\<close>

theorem codec_round_trip:
  "(if length out < 10 then encodeSetup s out = (False, out)
    else fst (encodeSetup s out) \<and> decodeSetup (take 10 (snd (encodeSetup s out))) = Some s
      \<and> drop 10 (snd (encodeSetup s out)) = drop 10 out)
   \<and> (if length out < 4 then encodeSegmentHeader h out = (False, out)
    else fst (encodeSegmentHeader h out) \<and> decodeSegmentHeader (snd (encodeSegmentHeader h out)) = Some h
      \<and> drop 4 (snd (encodeSegmentHeader h out)) = drop 4 out)
   \<and> (if length out < 6 then encodeAck a out = (False, out)
    else fst (encodeAck a out) \<and> decodeAck (take 6 (snd (encodeAck a out))) = Some a
      \<and> drop 6 (snd (encodeAck a out)) = drop 6 out)
   \<and> (if length out < 2 then encodeProbe p out = (False, out)
    else fst (encodeProbe p out) \<and> decodeProbe (take 2 (snd (encodeProbe p out))) = Some p
      \<and> drop 2 (snd (encodeProbe p out)) = drop 2 out)
   \<and> (if length out < 3 then encodeReject r out = (False, out)
    else fst (encodeReject r out) \<and> decodeReject (take 3 (snd (encodeReject r out))) = Some r
      \<and> drop 3 (snd (encodeReject r out)) = drop 3 out)
   \<and> (if length out < 2 then encodeAbort b out = (False, out)
    else fst (encodeAbort b out) \<and> decodeAbort (take 2 (snd (encodeAbort b out))) = Some b
      \<and> drop 2 (snd (encodeAbort b out)) = drop 2 out)
   \<and> (if length out < length d + 1 then encodeUserDatagram d out = (False, out)
    else fst (encodeUserDatagram d out) \<and> decodeUserDatagram (take (length d + 1) (snd (encodeUserDatagram d out))) = Some d
      \<and> drop (length d + 1) (snd (encodeUserDatagram d out)) = drop (length d + 1) out)"
proof -
  have w: "take n (span_write 0 bs out) = bs" "drop n (span_write 0 bs out) = drop n out"
    if "length bs = n" "n \<le> length out" for n and bs :: bytes
    using that by (simp_all add: span_write_def)
  have sg: "decodeSegmentHeader (span_write 0 (segment_wire h) out) = Some h"
    unfolding decodeSegmentHeader_iff by (intro exI [of _ "drop 4 out"]) (simp add: span_write_def)
  show ?thesis
    by (simp add: encode_wires encodeUserDatagram_wire w decodeSetup_iff decodeAck_iff decodeProbe_iff decodeReject_iff
        decodeAbort_iff decodeUserDatagram_iff sg)
qed

subsection \<open>Receiver engine\<close>

lemma engine_run_init_invar:
  assumes "1 \<le> ee_max_window env" and "ee_max_window env \<le> 16"
    and "engine_run env events (BitsReceiverEngine_init (ee_max_window env) config, w) = (e, w')"
  shows "engine_invar (ee_max_window env) e"
  using engine_run_invar [OF engine_invar_init [OF assms(1,2), of config], of events w] assms(3) by simp

text \<open>C8: whatever messages, polls, aborts and datagrams the engine is given, in any order, an
  active transfer keeps an open window: the next segment is always granted, the grant never
  passes the end of the object nor the window width, and every held segment lies inside it.\<close>

theorem engine_window_safe:
  assumes "1 \<le> ee_max_window env" and "ee_max_window env \<le> 16"
    and "engine_run env events (BitsReceiverEngine_init (ee_max_window env) config, w) = (e, w')"
    and "re_state e = TS_kActive"
  shows "re_contiguous_count e < re_granted_end e \<and> re_granted_end e \<le> re_segment_count e
    \<and> unat (re_granted_end e) \<le> unat (re_contiguous_count e) + unat (ec_receive_window_width (re_config e))
    \<and> (\<forall>i. bit (re_receive_bitmap e) i \<longrightarrow> unat (re_contiguous_count e) + i < unat (re_granted_end e))"
proof -
  have inv: "engine_invar (ee_max_window env) e"
    by (rule engine_run_init_invar [OF assms(1,2,3)])
  then have w: "window_invar e" and c: "re_contiguous_count e \<noteq> re_segment_count e"
    using assms(4) by (auto simp: engine_invar_def)
  have "unat (re_contiguous_count e) < unat (re_segment_count e)"
    using w c by (auto simp: window_invar_def unat_eq_iff [symmetric] le_less)
  moreover have "0 < unat (ec_receive_window_width (re_config e))"
    using w by (simp add: window_invar_def word_less_nat_alt)
  ultimately show ?thesis
    using w by (auto simp: window_invar_def word_less_nat_alt word_le_nat_alt)
qed

theorem engine_window_safe_witness:
  "re_contiguous_count (fst (example_engine_after 3)) < re_granted_end (fst (example_engine_after 3))"
proof -
  obtain e w' where e: "example_engine_after 3 = (e, w')" by (rule prod.exhaust)
  have "re_state (fst (example_engine_after 3)) = TS_kActive" by code_simp
  then show ?thesis
    using engine_window_safe [of example_ram_env "take 3 example_messages" example_config example_memory e w'] e
    by (simp add: example_engine_after_def example_ram_env_def ram_env_def endpoint_env_def)
qed

text \<open>C18: a segment the engine already holds is only acknowledged again.  The outcome is that of sending
  an ACK; it is the same whatever \<^verbatim>\<open>onSegment\<close> and \<^verbatim>\<open>onTransferComplete\<close> do, so neither is called; and of the
  engine only the time of the last activity and the last send result change, except that an active transfer
  goes to the error state when the ACK cannot be prepared or sent (a link that is momentarily full counts
  as sent).\<close>

theorem duplicate_segment_only_acked:
  assumes "engine_invar (ee_max_window env) e" and "re_state e \<in> {TS_kActive, TS_kCompleted}"
    and "decodeSegmentHeaderKnownType message = Some h" and "sh_session_id h = su_session_id (re_setup e)"
    and "unat (sh_segment_index h) \<in> engine_received e"
    and "length message = 4 + setup_segment_length (re_setup e) (unat (sh_segment_index h))"
    and "handleSegment env message now_ms e w = (r, e', w')"
  shows "engine_sendAck env (e\<lparr>re_last_activity_ms := now_ms\<rparr>) w = (r, e', w')
    \<and> (\<forall>f g. handleSegment (env\<lparr>ee_onSegment := f, ee_onTransferComplete := g\<rparr>) message now_ms e w = (r, e', w'))
    \<and> e' = e\<lparr>re_last_activity_ms := now_ms, re_last_send := re_last_send e',
          re_state := if \<not> r \<and> re_state e = TS_kActive then TS_kError else re_state e\<rparr>
    \<and> (r \<longleftrightarrow> re_last_send e' \<in> {SR_kSent, SR_kFull})"
proof -
  note ack = handleSegment_duplicate [OF assms(1-6)]
  have "handleSegment (env\<lparr>ee_onSegment := f, ee_onTransferComplete := g\<rparr>) message now_ms e w
      = engine_sendAck (env\<lparr>ee_onSegment := f, ee_onTransferComplete := g\<rparr>) (e\<lparr>re_last_activity_ms := now_ms\<rparr>) w" for f g
    by (rule handleSegment_duplicate) (use assms(1-6) in simp_all)
  note sink = this
  have st: "re_state (e\<lparr>re_last_activity_ms := now_ms\<rparr>) = re_state e" by simp
  have sent: "engine_sendAck env (e\<lparr>re_last_activity_ms := now_ms\<rparr>) w = (r, e', w')" using ack assms(7) by simp
  show ?thesis
    using engine_sendAck_effect [OF sent, unfolded st] sent sink [unfolded engine_sendAck_sink sent] by blast
qed

theorem duplicate_segment_only_acked_witness:
  "\<exists>e' w'. handleSegment example_ram_env [1, 7, 1, 0, 30] 9 (fst (example_engine_after 2)) example_memory = (True, e', w')
   \<and> e' = (fst (example_engine_after 2))\<lparr>re_last_activity_ms := 9, re_last_send := SR_kSent\<rparr>"
proof -
  let ?e = "fst (example_engine_after 2)" and ?run = "handleSegment example_ram_env [1, 7, 1, 0, 30] 9 (fst (example_engine_after 2)) example_memory"
  obtain r e' w' where run: "?run = (r, e', w')" by (rule prod_cases3)
  have c: "(re_state ?e, re_contiguous_count ?e, re_receive_bitmap ?e, re_setup ?e) = (TS_kActive, 0, 2, example_setup)"
    by code_simp
  have m: "ee_max_window example_ram_env = 16" by (simp add: example_ram_env_def ram_env_def endpoint_env_def)
  have inv: "engine_invar (ee_max_window example_ram_env) ?e"
    using engine_run_init_invar [of example_ram_env "take 2 example_messages" example_config example_memory] m
    by (simp add: example_engine_after_def) (metis prod.collapse)
  have dec: "decodeSegmentHeaderKnownType [1, 7, 1, 0, 30] = Some \<lparr>sh_session_id = 7, sh_segment_index = 1\<rparr>"
    by (simp add: decodeSegmentHeaderKnownType_def bits_sizes readU16_def le16_def)
  have rec: "unat (sh_segment_index \<lparr>sh_session_id = 7, sh_segment_index = 1\<rparr>) \<in> engine_received ?e"
    using c by (auto simp: engine_received_def bit_simps)
  have "(fst ?run, re_last_send (fst (snd ?run))) = (True, SR_kSent)" by code_simp
  then have r: "r" and sent: "re_last_send e' = SR_kSent" by (simp_all add: run)
  have "re_state ?e \<in> {TS_kActive, TS_kCompleted}"
    "sh_session_id \<lparr>sh_session_id = 7, sh_segment_index = 1\<rparr> = su_session_id (re_setup ?e)"
    "length [1, 7, 1, 0, 30 :: u8] = 4 + setup_segment_length (re_setup ?e) (unat (sh_segment_index \<lparr>sh_session_id = 7, sh_segment_index = 1\<rparr>))"
    using c by (simp_all add: example_setup_def setup_segment_length_def)
  from duplicate_segment_only_acked [OF inv this(1) dec this(2) rec this(3) run]
  have "e' = ?e\<lparr>re_last_activity_ms := 9, re_last_send := re_last_send e',
      re_state := if \<not> r \<and> re_state ?e = TS_kActive then TS_kError else re_state ?e\<rparr>" by blast
  then have "e' = ?e\<lparr>re_last_activity_ms := 9, re_last_send := SR_kSent\<rparr>" unfolding sent by (simp add: r)
  moreover have "?run = (True, e', w')" using run r by simp
  ultimately show ?thesis by blast
qed

text \<open>C11: at every moment of a transfer the engine is completed exactly when it holds every segment
  the SETUP announced.\<close>

theorem engine_completed_exact:
  assumes "1 \<le> ee_max_window env" and "ee_max_window env \<le> 16"
    and "engine_run env events (BitsReceiverEngine_init (ee_max_window env) config, w) = (e, w')"
    and "re_state e \<in> {TS_kActive, TS_kCompleted}"
  shows "re_state e = TS_kCompleted \<longleftrightarrow> engine_received e = {..unat (su_final_segment_index (re_setup e))}"
  using engine_run_init_invar [OF assms(1,2,3)] assms(4) by (rule completed_iff_all_received)

theorem engine_completed_exact_witness:
  "engine_received (fst (example_engine_after 4)) = {..unat (su_final_segment_index (re_setup (fst (example_engine_after 4))))}"
proof -
  obtain e w' where e: "example_engine_after 4 = (e, w')" by (rule prod.exhaust)
  have "re_state (fst (example_engine_after 4)) = TS_kCompleted" by code_simp
  then show ?thesis
    using engine_completed_exact [of example_ram_env "take 4 example_messages" example_config example_memory e w'] e
    by (simp add: example_engine_after_def example_ram_env_def ram_env_def endpoint_env_def)
qed

text \<open>An active transfer fails by inactivity exactly when the configured timeout is set and that
  many milliseconds have really passed since the last activity, also across a wrap of the clock.\<close>

lemma engine_poll_timeout_exact:
  assumes "d < 2 ^ 32" and "now_ms = re_last_activity_ms e + of_nat d"
  shows "engine_poll env now_ms e w =
    (if re_state e = TS_kActive \<and> ec_inactivity_timeout_ms (re_config e) \<noteq> 0 \<and> unat (ec_inactivity_timeout_ms (re_config e)) \<le> d
     then (PR_kError, e\<lparr>re_state := TS_kError\<rparr>, ee_onTransferFailed env FR_kInactivityTimeout w)
     else (PR_kIdle, e, w))"
proof -
  have "unat (now_ms - re_last_activity_ms e) = d"
    using assms by (simp add: unat_of_nat take_bit_nat_eq_self)
  then show ?thesis by (auto simp: engine_poll_def engine_fail_def word_less_nat_alt)
qed

subsection \<open>Receiver endpoint\<close>

text \<open>C17: the endpoint admits a packet by copying it into free storage: an accepted message joins
  the pending ones and nothing pending is lost or changed; a refused packet leaves the
  endpoint exactly as it was; the engine is never entered from the receive call.\<close>

theorem endpoint_admission:
  assumes "endpoint_invar b" and "packet_invar packet" and "BitsReceiver_receive packet b = (r, b')"
  shows "endpoint_invar b' \<and> br_engine b' = br_engine b
    \<and> endpoint_pending b' = (if r = RX_kAccepted then insert (payload packet) (endpoint_pending b) else endpoint_pending b)
    \<and> (r \<noteq> RX_kAccepted \<longrightarrow> b' = b)"
  using BitsReceiver_receive_spec [OF assms] BitsReceiver_receive_refused [OF assms(3)] by simp

definition example_rx :: BitsReceiver where
  "example_rx = BitsReceiver_init 16 example_rx_conn [Some (PacketBuffer_new 6)] (PacketBuffer_new 10) 0"

lemma example_rx_invar: "endpoint_invar example_rx"
  by (simp add: example_rx_def endpoint_init)

theorem endpoint_admission_witness:
  "fst (BitsReceiver_receive (hd example_sent) example_rx) = RX_kAccepted
   \<and> payload (hd example_sent) \<in> endpoint_pending (snd (BitsReceiver_receive (hd example_sent) example_rx))"
proof -
  obtain r b' where b: "BitsReceiver_receive (hd example_sent) example_rx = (r, b')" by (rule prod.exhaust)
  have "fst (BitsReceiver_receive (hd example_sent) example_rx) = RX_kAccepted" by code_simp
  moreover have "packet_invar (hd example_sent)" by code_simp
  ultimately show ?thesis using endpoint_admission [OF example_rx_invar _ b] b by simp
qed

text \<open>The endpoint configures its engine so that every segment it can admit, header included,
  fits every one of its ingress slots, and its window is the number of slots it has.\<close>

lemma endpoint_config_fits_slots:
  assumes "Some p \<in> set (take 16 slots)" and "0 < n"
    and "n \<le> unat (ec_maximum_segment_size (receiverEngineConfig slots t))"
  shows "n + 4 \<le> unat (pb_capacity p)
    \<and> unat (ec_receive_window_width (receiverEngineConfig slots t)) = length (filter (\<lambda>s. s \<noteq> None) (take 16 slots))"
  using receiverEngineConfig_fits [OF assms] receiverEngineConfig_window by blast

subsection \<open>Transmitter\<close>

text \<open>A transfer that starts cuts its object into the announced segments: none is empty, each but
  the last has the segment size, and laid end to end they are the object.\<close>

lemma transfer_cuts_object:
  assumes "tx_invar t" and "startTransfer obj z sid isn t = (ST_kStarted, t')"
  shows "concat (map (object_segment (ts_setup (bt_session t')) obj) [0..<unat (ts_segment_count (bt_session t'))]) = obj
    \<and> (\<forall>i < unat (ts_segment_count (bt_session t')). object_segment (ts_setup (bt_session t')) obj i \<noteq> [])
    \<and> setup_valid (ts_setup (bt_session t')) \<and> tx_invar t'"
  using startTransfer_segments [OF assms] startTransfer_started(1) [OF assms] by blast

text \<open>C16: an acknowledgement moves the window only over segments that were sent: the count never goes
  back, and every segment it passes had its sent bit set.\<close>

theorem ack_covers_sent_only:
  assumes "tx_invar t" and "tx_handleAck env message t w = (ok, t', w')"
  shows "unat (ts_acknowledged_count (bt_session t)) \<le> unat (ts_acknowledged_count (bt_session t'))
    \<and> (\<forall>i < unat (ts_acknowledged_count (bt_session t')) - unat (ts_acknowledged_count (bt_session t)).
         bit (ts_sent_bitmap (bt_session t)) i)"
  using handleAck_progress [OF assms] .

definition example_tx_mid :: BitsTransmitter where
  "example_tx_mid = fst (tx_run (record_env example_tx_env) (take 3 example_tx_events) (example_started, (), []))"

theorem ack_covers_sent_only_witness:
  "bit (ts_sent_bitmap (bt_session example_tx_mid)) 0"
proof -
  let ?s = "ts_setup (bt_session example_started)"
  let ?run = "tx_run (record_env example_tx_env) (take 3 example_tx_events) (example_started, (), [])"
  have ok0: "recorded.tx_ok {} ?s example_object example_started ((), [])"
    using startTransfer_started [OF example_tx_invar example_starts] by (simp add: recorded.tx_ok_def recorded.log_ok_def)
  have wf: "\<forall>ev \<in> set (take 3 example_tx_events). tx_event_wf ev"
    by (simp add: example_tx_events_def example_ack_invar)
  have run: "?run = (example_tx_mid, snd ?run)" unfolding example_tx_mid_def by (rule prod.collapse [symmetric])
  have "recorded.tx_ok {} ?s example_object example_tx_mid (snd ?run)" by (rule recorded.run_ok [OF ok0 wf _ run]) (simp add: example_tx_events_def)
  then have inv: "tx_invar example_tx_mid" by (simp add: recorded.tx_ok_def)
  obtain ok t' w' where r: "tx_handleAck example_tx_env [2, 7, 0, 0, 1, 0] example_tx_mid () = (ok, t', w')" by (rule prod_cases3)
  have "unat (ts_acknowledged_count (bt_session example_tx_mid)) = 0" by code_simp
  moreover have "unat (ts_acknowledged_count (bt_session
      (fst (snd (tx_handleAck example_tx_env [2, 7, 0, 0, 1, 0] example_tx_mid ()))))) = 1" by code_simp
  ultimately have "0 < unat (ts_acknowledged_count (bt_session t')) - unat (ts_acknowledged_count (bt_session example_tx_mid))"
    by (simp add: r)
  then show ?thesis using ack_covers_sent_only [OF inv r] by blast
qed

text \<open>C9: whatever the transmitter receives and however its clock and its router behave, it keeps its
  invariant and the transfer it was started for, and every packet it hands to the router is one of: the SETUP
  it announced; the SEGMENT of an index the SETUP covers, with exactly the bytes of the object there; the
  PROBE or the ABORT; each with the session id of the SETUP; or a datagram it was asked to send.\<close>

theorem transmitter_sends_the_object:
  assumes "tx_invar t" and "startTransfer obj z sid isn t = (ST_kStarted, t0)"
    and "\<forall>ev \<in> set events. tx_event_wf ev" and "tx_run (record_env env) events (t0, w, []) = (t1, w1, sent)"
    and "s = ts_setup (bt_session t0)"
  shows "tx_invar t1 \<and> ts_setup (bt_session t1) = s \<and> ts_object (bt_session t1) = obj
    \<and> (\<forall>p \<in> set sent. packet_invar p \<and> (payload p = setup_wire s
         \<or> (\<exists>i \<le> unat (su_final_segment_index s). payload p =
              segment_wire \<lparr>sh_session_id = su_session_id s, sh_segment_index = of_nat i\<rparr> @ object_segment s obj i)
         \<or> payload p = probe_wire \<lparr>pr_session_id = su_session_id s\<rparr>
         \<or> payload p = abort_wire \<lparr>ab_session_id = su_session_id s\<rparr>
         \<or> (\<exists>d. TxDatagram d \<in> set events \<and> payload p = 5 # d)))"
  using transmitter_run [OF assms(1-4)] by (auto simp: assms(5) transfer_message_def)

theorem transmitter_sends_the_object_witness:
  "tx_invar (fst example_tx_run) \<and> length example_sent = 3
   \<and> list_all (\<lambda>p. payload p = setup_wire (ts_setup (bt_session example_started))
       \<or> (\<exists>i \<le> 1. payload p = segment_wire \<lparr>sh_session_id = 7, sh_segment_index = of_nat i\<rparr>
              @ object_segment (ts_setup (bt_session example_started)) example_object i)
       \<or> payload p = [3, 7] \<or> payload p = [6, 7]) example_sent"
proof -
  have "length example_sent = 3" by code_simp
  moreover have "(su_session_id (ts_setup (bt_session example_started)), su_final_segment_index (ts_setup (bt_session example_started))) = (7, 1)"
    by code_simp
  moreover have "TxDatagram d \<notin> set example_tx_events" for d by (simp add: example_tx_events_def)
  ultimately show ?thesis
    using transmitter_sends_the_object [OF example_tx_invar example_starts example_events_wf example_tx_run_eq refl]
    by (auto simp: list_all_iff example_tx_run_eq probe_wire_def abort_wire_def)
qed

subsection \<open>Boot profile\<close>

lemma example_setup_ok:
  "setup_valid example_setup" "length example_object = unat (setupTotalSize example_setup)" "length example_object \<le> 256"
  "su_segment_size example_setup \<le> 24" "timely 5000 (\<lambda>i. of_nat i) (unat (su_final_segment_index example_setup))"
  "boot_sendable boot_init" "256 \<le> length (bp_object boot_init)"
  by (simp_all add: setup_valid_def example_setup_def example_object_def unat_setupTotalSize timely_def boot_sendable_def
      boot_init_def PacketBuffer_new_def packet_invar_def kMaximumObjectSize_def)

definition example_upload_packet :: "bytes \<Rightarrow> PacketBuffer" where
  "example_upload_packet m = write_payload 0 m ((PacketBuffer_new 28)\<lparr>pb_size := of_nat (length m), pb_header :=
     \<lparr>h_control = 0x81, h_wire = kTestWire, h_source = kPcHost, h_destination = kArduinoHost, h_endpoint = kBitsUploadEndpoint\<rparr>\<rparr>)"

definition example_upload :: "PacketBuffer list" where
  "example_upload = map example_upload_packet (upload_payloads example_setup example_object)"

lemma example_upload_ok:
  "\<forall>p \<in> set example_upload. packet_invar p \<and> boot_matchesConnection (pb_header p)"
  "map payload example_upload = upload_payloads example_setup example_object"
proof -
  have "packet_invar (example_upload_packet m) \<and> boot_matchesConnection (pb_header (example_upload_packet m))
      \<and> payload (example_upload_packet m) = m" if "m \<in> set (upload_payloads example_setup example_object)" for m
  proof -
    have n: "length m \<le> 28" using upload_payload_fits(1) [OF example_setup_ok(1,4,2) that] .
    then have "unat (of_nat (length m) :: u16) = length m" by (simp add: unat_of_nat)
    then show ?thesis using n
      by (simp add: example_upload_packet_def packet_invar_def PacketBuffer_new_def write_payload_def payload_def
          boot_matchesConnection_def hasSupportedControl_def Header_transportType_def kBits_def kNumTransportTypes_def word_le_nat_alt)
  qed
  then show "\<forall>p \<in> set example_upload. packet_invar p \<and> boot_matchesConnection (pb_header p)"
    "map payload example_upload = upload_payloads example_setup example_object"
    by (auto simp: example_upload_def map_idI)
qed

text \<open>C10: whatever bytes arrive on the UART of the boot profile, in whatever passes of its main loop
  and at whatever times: when the frames that decode and pass its filter carry only messages of one
  transfer (in any order, with loss and repetition) and the engine has completed, the image in RAM is
  the object.\<close>

theorem boot_main_image_complete:
  assumes "setup_valid s" and "length obj = unat (setupTotalSize s)"
    and "\<forall>ev \<in> set (snd (boot_traffic passes (HdlcDecoder_init 34))). honest_event s obj ev"
    and "boot_main passes = (d, e, w)" and "re_state e = TS_kCompleted"
  shows "take (length obj) (bp_object w) = obj"
proof -
  have "engine_run boot_env (snd (boot_traffic passes (HdlcDecoder_init 34))) (boot_engine_init, boot_init) = (e, w)"
    using assms(4) by (simp add: boot_main_run split: prod.splits)
  from boot_sink.completed_object [OF assms(1,2) example_setup_ok(7) assms(3) this [unfolded boot_engine_eq] assms(5)]
  show ?thesis .
qed

theorem boot_main_image_complete_witness:
  "take 3 (bp_object (snd (snd (boot_main (boot_upload_passes of_nat example_upload))))) = [10, 20, 30]"
proof -
  obtain e w where r: "engine_run boot_env (in_order_transfer example_setup example_object of_nat) (boot_engine_init, boot_init) = (e, w)"
    by (rule prod.exhaust)
  obtain d where m: "boot_main (boot_upload_passes of_nat example_upload) = (d, e, w)"
    using boot_upload_run [OF example_setup_ok(1,4,2,3,5) example_upload_ok] r by auto
  have c: "re_state e = TS_kCompleted" using boot_in_order_completes [OF example_setup_ok(1-6)] r by simp
  from boot_main_image_complete [OF example_setup_ok(1,2) boot_upload_honest [OF example_setup_ok(1,4,2) example_upload_ok] m c]
  show ?thesis by (simp add: m example_object_def numeral_3_eq_3)
qed

text \<open>C4: the frames of an object of at most 256 bytes in segments of at most 24, one frame in each
  pass of the main loop of the boot profile and less than five seconds between them, always complete the
  transfer from power-up, and the image in RAM is the object.\<close>

theorem boot_main_uploads:
  assumes "setup_valid s" and "su_segment_size s \<le> 24" and "length obj = unat (setupTotalSize s)" and "length obj \<le> 256"
    and "timely 5000 clk (unat (su_final_segment_index s))"
    and "\<forall>p \<in> set packets. packet_invar p \<and> boot_matchesConnection (pb_header p)"
    and "map payload packets = upload_payloads s obj"
  shows "\<exists>d e w. boot_main (boot_upload_passes clk packets) = (d, e, w)
    \<and> re_state e = TS_kCompleted \<and> take (length obj) (bp_object w) = obj"
proof -
  obtain e w where r: "engine_run boot_env (in_order_transfer s obj clk) (boot_engine_init, boot_init) = (e, w)"
    by (rule prod.exhaust)
  have c: "re_state e = TS_kCompleted" using boot_in_order_completes [OF assms(1,3,4,2,5) example_setup_ok(6)] r by simp
  have "take (length obj) (bp_object w) = obj"
    using boot_sink.completed_object [OF assms(1,3) example_setup_ok(7) in_order_honest r [unfolded boot_engine_eq] c] .
  then show ?thesis using boot_upload_run [OF assms] r c by auto
qed

theorem boot_main_uploads_witness:
  "re_state (fst (snd (boot_main (boot_upload_passes of_nat example_upload)))) = TS_kCompleted"
  using boot_main_uploads [OF example_setup_ok(1,4,2,3,5) example_upload_ok] by auto

text \<open>A link that accepts every packet or is momentarily full, as \<open>full\<close> says, and records it with \<open>link\<close>.\<close>

definition lively_ram_env ::
  "ConnectionAddress \<Rightarrow> (PacketBuffer \<Rightarrow> 'n \<Rightarrow> bool) \<Rightarrow> (PacketBuffer \<Rightarrow> 'n \<Rightarrow> 'n)
    \<Rightarrow> (PacketBuffer \<times> RamReceiverCallbacks \<times> 'n) EngineEnv" where
  "lively_ram_env conn full link =
     ram_env conn (network_forward (\<lambda>p n. (if full p n then RR_kFull else RR_kAccepted, link p n)))"

text \<open>C3: the RAM receiver of the example application, for any window width it was built with and
  links that accept or are momentarily full, completes every in-order transfer that fits its
  storage and configuration within its inactivity timeout, and stores the object.\<close>

theorem ram_transfer_succeeds:
  fixes full :: "PacketBuffer \<Rightarrow> 'n \<Rightarrow> bool" and link :: "PacketBuffer \<Rightarrow> 'n \<Rightarrow> 'n"
  assumes "setup_valid s" and "length obj = unat (setupTotalSize s)"
    and "setupTotalSize s \<le> ec_maximum_object_size config" and "su_segment_size s \<le> ec_maximum_segment_size config"
    and "ec_receive_window_width config \<noteq> 0"
    and "timely (ec_inactivity_timeout_ms config) clk (unat (su_final_segment_index s))"
    and "packet_invar pk" and "6 \<le> pb_capacity pk" and "length obj \<le> length (rc_storage ram)" and "\<not> rc_object_complete ram"
    and "engine_run (lively_ram_env conn full link) (in_order_transfer s obj clk) (BitsReceiverEngine_init 16 config, pk, ram, n) = (e', w')"
  shows "re_state e' = TS_kCompleted \<and> take (length obj) (rc_storage (fst (snd w'))) = obj"
proof -
  let ?e = "BitsReceiverEngine_init 16 config" and ?w = "(pk, ram, n)"
  have m: "ee_max_window (lively_ram_env conn full link) = 16" by (simp add: lively_ram_env_def ram_env_def endpoint_env_def)
  have cfg: "re_config ?e = (if 16 < unat (ec_receive_window_width config) then config\<lparr>ec_receive_window_width := 16\<rparr> else config)"
    by (simp add: BitsReceiverEngine_init_def)
  have "re_state (fst (engine_run (lively_ram_env conn full link) (in_order_transfer s obj clk) (?e, ?w))) = TS_kCompleted"
    unfolding lively_ram_env_def
  proof (rule ram_willing.in_order_completes [where limit = "length (rc_storage ram)"])
    show "engine_invar (ee_max_window (ram_env conn (network_forward
        (\<lambda>p n. (if full p n then RR_kFull else RR_kAccepted, link p n))))) ?e"
      using engine_invar_init [of 16 config] m by (simp add: lively_ram_env_def)
  qed (use assms cfg in \<open>auto simp: ram_sendable_def ram_vacant_def BitsReceiverEngine_init_def\<close>)
  then have c: "re_state e' = TS_kCompleted" using assms(11) by simp
  have "take (length obj) (rc_storage (fst (snd w'))) = obj"
    using ram_sink.completed_object [OF assms(1,2) _ in_order_honest [of s obj clk] _ c, where w = ?w and conn = conn
        and forward = "\<lambda>p n. (if full p n then RR_kFull else RR_kAccepted, link p n)" and config = config and w' = w']
      assms(11) m unfolding lively_ram_env_def by simp
  with c show ?thesis by simp
qed

theorem ram_transfer_succeeds_witness:
  "re_state (fst (engine_run example_ram_env (in_order_transfer example_setup example_object of_nat)
     (BitsReceiverEngine_init 16 example_config, example_memory))) = TS_kCompleted"
proof -
  let ?run = "engine_run (lively_ram_env example_rx_conn (\<lambda>_ _. False) (\<lambda>p n. n + 1 :: nat))
     (in_order_transfer example_setup example_object of_nat) (BitsReceiverEngine_init 16 example_config, example_memory)"
  obtain e' w' where r: "?run = (e', w')" by (rule prod.exhaust)
  have "re_state e' = TS_kCompleted \<and> take (length example_object) (rc_storage (fst (snd w'))) = example_object"
  proof (rule ram_transfer_succeeds [OF example_setup_ok(1,2), where config = example_config and clk = of_nat])
    show "engine_run (lively_ram_env example_rx_conn (\<lambda>_ _. False) (\<lambda>p n. n + 1 :: nat))
       (in_order_transfer example_setup example_object of_nat) (BitsReceiverEngine_init 16 example_config,
        PacketBuffer_new 6, \<lparr>rc_storage = replicate 4 0, rc_received_size = 0, rc_object_complete = False\<rparr>, 0) = (e', w')"
      using r by (simp add: example_memory_def)
  qed (simp_all add: example_config_def example_setup_def timely_def word_le_nat_alt unat_setupTotalSize
      example_object_def PacketBuffer_new_def packet_invar_def)
  with r show ?thesis by (simp add: example_ram_env_def lively_ram_env_def)
qed

end
