(* ===== verification/Bits_Lockstep.thy ===== *)
theory Bits_Lockstep
  imports Bits_Completion
begin

section \<open>A transfer over a lossless network\<close>

text \<open>
  A transmitter and a RAM receiver whose packets all arrive: in each round the transmitter
  is processed, what it sent is handed to the receiver, the receiver is processed and what it
  sent is handed to the transmitter.  A round that begins with the acknowledgement of the first
  \<open>k\<close> segments ends with that of \<open>k + 1\<close>, so a transfer of \<open>n\<close> segments is complete on both
  ends after \<open>n + 2\<close> rounds.
\<close>

subsection \<open>Rounds\<close>

definition lossless :: "PacketBuffer \<Rightarrow> PacketBuffer list \<Rightarrow> RouteResult \<times> PacketBuffer list" where
  "lossless p sent = (RR_kAccepted, sent @ [p])"

definition lossless_tx_env :: "PacketBuffer list TransmitterEnv" where
  "lossless_tx_env = \<lparr>te_forward = lossless, te_onDatagram = (\<lambda>bs w. w), te_onTransferComplete = (\<lambda>w. w),
     te_onTransferRejected = (\<lambda>reason w. w), te_onTransferAborted = (\<lambda>w. w)\<rparr>"

abbreviation lossless_rx_env ::
  "ConnectionAddress \<Rightarrow> (PacketBuffer \<times> RamReceiverCallbacks \<times> PacketBuffer list) EngineEnv" where
  "lossless_rx_env conn \<equiv> ram_env conn (network_forward lossless)"

type_synonym exchange = "BitsTransmitter \<times> BitsReceiver \<times> PacketBuffer \<times> RamReceiverCallbacks"

fun exchange_round :: "ConnectionAddress \<Rightarrow> u32 \<Rightarrow> exchange \<Rightarrow> exchange" where
  "exchange_round conn now_ms (t, b, packet, ram) =
     (case BitsTransmitter_process lossless_tx_env now_ms t [] of (_, t1, sent) \<Rightarrow>
        case BitsReceiver_process (lossless_rx_env conn) now_ms
            (fold (\<lambda>p b. snd (BitsReceiver_receive p b)) sent b) (packet, ram, []) of
          (_, b1, packet1, ram1, replies) \<Rightarrow>
            (fold (\<lambda>p t. snd (BitsTransmitter_receive p t)) replies t1, b1, packet1, ram1))"

subsection \<open>Packets between the two ends\<close>

text \<open>The peer's view of a connection, and a packet buffer whose reserved control bits are clear.\<close>

definition mirrored :: "ConnectionAddress \<Rightarrow> ConnectionAddress" where
  "mirrored c = c\<lparr>ca_local_host := ca_remote_host c, ca_remote_host := ca_local_host c\<rparr>"

definition clean :: "PacketBuffer \<Rightarrow> bool" where
  "clean p \<longleftrightarrow> packet_invar p \<and> h_control (pb_header p) AND 0x30 = 0"

lemma bits_transport: "cf_transport_type (ControlFields_bits q) < 8" "cf_transport_type (ControlFields_bits q) = kBits"
  "\<not> cf_has_extensions (ControlFields_bits q)"
  by (simp_all add: ControlFields_bits_def kBits_def)

lemma initializeConnection_matches:
  assumes "initializeConnection n c (ControlFields_bits q) p = (True, p')" and "clean p"
  shows "matchesConnection p' (mirrored c)" and "h_control (pb_header p') AND 0x30 = 0"
proof -
  note h = initializeConnection_success(6) [OF assms(1)]
  let ?h = "setControlFields (ControlFields_bits q) (pb_header p)"
  have r: "h_control ?h AND 0x30 = 0"
    using reserved_setControlFields [OF bits_transport(1), of q "pb_header p"] assms(2) by (simp add: clean_def)
  have t: "Header_transportType (pb_header p') = kBits" "\<not> Header_hasExtensions (pb_header p')"
    using Header_transportType_setControlFields [OF bits_transport(1), of q "pb_header p"]
      Header_hasExtensions_setControlFields [OF bits_transport(1), of q "pb_header p"] bits_transport(2,3)
    by (simp_all add: h Header_transportType_def Header_hasExtensions_def)
  show c: "h_control (pb_header p') AND 0x30 = 0" using r by (simp add: h)
  have "hasSupportedControl (pb_header p')"
    using c t by (simp add: supported_control_iff kBits_def)
  with t(1) show "matchesConnection p' (mirrored c)"
    by (simp add: matchesConnection_def mirrored_def h)
qed

lemma matches_write [simp]: "matchesConnection (write_payload i bs p) c = matchesConnection p c"
  by (simp add: matchesConnection_def)

subsection \<open>The receiver's answer\<close>

definition engine_ack :: "BitsReceiverEngine \<Rightarrow> Ack" where
  "engine_ack e = \<lparr>ak_session_id = su_session_id (re_setup e),
     ak_window_bitmap = re_receive_bitmap e AND lowBitMask (ucast (re_granted_end e - re_contiguous_count e)),
     ak_max_receive_sequence = engine_max_receive_sequence 16 e, ak_window_base = engine_window_base 16 e\<rparr>"

lemma ram_sendAck:
  assumes "clean pk" and "6 \<le> pb_capacity pk"
  shows "\<exists>p r. engine_sendAck (lossless_rx_env conn) e (pk, ram, sent) =
      (True, e\<lparr>re_last_send := r\<rparr>, p, ram, sent @ [p])
    \<and> payload p = ack_wire (engine_ack e) \<and> clean p \<and> pb_capacity p = pb_capacity pk
    \<and> matchesConnection p (mirrored conn)"
proof -
  have pk: "packet_invar pk" using assms(1) by (simp add: clean_def)
  obtain p0 where p0: "initializeConnection 6 conn (ControlFields_bits kNormal) pk = (True, p0)"
    using assms(2) initializeConnection_fst by (metis prod.collapse)
  note i = initializeConnection_success [OF p0] and m = initializeConnection_matches [OF p0 assms(1)]
  have inv: "packet_invar p0" using initializeConnection_invar [OF pk, of 6 conn "ControlFields_bits kNormal"] p0 by simp
  have len: "length (payload p0) = 6" using inv i(1) by simp
  let ?a = "ack_wire (engine_ack e)" and ?p = "write_payload 0 (ack_wire (engine_ack e)) p0"
  have st: "engine_ack_storage 16 e (payload p0) = (True, ?a)"
    using len by (simp add: engine_ack_storage_def engine_ack_def encode_wires Let_def)
  have pay: "payload ?p = ?a" "packet_invar ?p"
    using inv i(1) len by (simp_all add: payload_write_payload)
  have "engine_sendAck (lossless_rx_env conn) e (pk, ram, sent) = (True, e\<lparr>re_last_send := SR_kSent\<rparr>, ?p, ram, sent @ [?p])"
    using p0 st len
    by (simp add: engine_sendAck_def ram_env_def endpoint_env_def BitsReceiver_prepare_def bits_sizes Let_def
        engine_sendPrepared_def BitsReceiver_sendPrepared_def network_forward_def lossless_def sendResult_def)
  then show ?thesis using pay m i(3) by (auto simp: clean_def)
qed

subsection \<open>Acknowledgements of a prefix\<close>

definition ack_for :: "Setup \<Rightarrow> nat \<Rightarrow> nat \<Rightarrow> Ack" where
  "ack_for s k g = \<lparr>ak_session_id = su_session_id s, ak_window_bitmap = 0,
     ak_max_receive_sequence = su_initial_sequence_number s - 1 + of_nat g,
     ak_window_base = su_initial_sequence_number s - 1 + of_nat k\<rparr>"

lemma of_nat_u8_diff: "b \<le> a \<Longrightarrow> (c + of_nat a) - (c + of_nat b) = (of_nat (a - b) :: u8)"
  by (simp add: of_nat_diff)

lemma unat_of_nat_u8: "n < 256 \<Longrightarrow> unat (of_nat n :: u8) = n"
  by (simp add: unat_of_nat take_bit_nat_eq_self)

lemma baseSequence_nat: "baseSequence s c = su_initial_sequence_number s - 1 + of_nat (unat c)"
proof (cases "c = 0")
  case False
  then have "unat c = Suc (unat (c - 1))" by (metis Suc_pred' unat_gt_0 unat_minus_one)
  then have "(of_nat (unat c) :: u8) = 1 + of_nat (unat (c - 1))" by (metis of_nat_Suc)
  then show ?thesis using False by (simp add: baseSequence_def sequenceFor_def)
qed (simp add: baseSequence_def)

lemma engine_ack_for:
  assumes "engine_invar 16 e" and "re_state e \<in> {TS_kActive, TS_kCompleted}" and "re_receive_bitmap e = 0"
  shows "engine_ack e = ack_for (re_setup e) (unat (re_contiguous_count e)) (unat (re_granted_end e))"
proof -
  have le: "unat (re_contiguous_count e) \<le> unat (re_granted_end e)"
    using assms(1,2) by (auto simp: engine_invar_def window_invar_def)
  have "sequenceFor s (g - 1) = su_initial_sequence_number s - 1 + of_nat (unat g)" if "g \<noteq> 0" for s g
    using baseSequence_nat [of s g] that by (simp add: baseSequence_def)
  moreover have "re_granted_end e \<noteq> 0" if "re_contiguous_count e < re_granted_end e" using that by auto
  moreover have "unat (re_contiguous_count e) = unat (re_granted_end e)" if "\<not> re_contiguous_count e < re_granted_end e"
    using that le by (simp add: word_less_nat_alt)
  ultimately show ?thesis
    using assms(3) by (simp add: engine_ack_def ack_for_def engine_max_receive_sequence_def engine_window_base_def baseSequence_nat)
qed

lemma ack_for_applied:
  assumes win: "session_window x" and len: "length (ts_segment_last_send_ms x) = 16" "length (ts_segment_retry_count x) = 16"
    and k: "unat (ts_acknowledged_count x) \<le> k" "k \<le> unat (ts_acknowledged_count x) + 16"
    and g: "k \<le> g" "g \<le> k + 16" "g \<le> unat (ts_segment_count x)"
    and sent: "\<And>i. bit (ts_sent_bitmap x) i \<longleftrightarrow> i < k - unat (ts_acknowledged_count x)"
  shows "ack_admissible (ack_for (ts_setup x) k g) x"
    and "unat (ts_acknowledged_count (ack_apply (ack_for (ts_setup x) k g) x)) = k"
    and "ts_sent_bitmap (ack_apply (ack_for (ts_setup x) k g) x) = 0"
    and "g \<le> unat (ts_granted_end (ack_apply (ack_for (ts_setup x) k g) x))"
    and "ts_setup_sent (ack_apply (ack_for (ts_setup x) k g) x)"
proof -
  let ?a = "unat (ts_acknowledged_count x)" and ?ack = "ack_for (ts_setup x) k g"
  define adv where "adv = ak_window_base ?ack - baseSequence (ts_setup x) (ts_acknowledged_count x)"
  define span where "span = ak_max_receive_sequence ?ack - ak_window_base ?ack"
  have adv: "unat adv = k - ?a"
    unfolding adv_def baseSequence_nat ack_for_def Ack.simps of_nat_u8_diff [OF k(1)]
    by (rule unat_of_nat_u8) (use k in simp)
  have span: "unat span = g - k"
    unfolding span_def ack_for_def Ack.simps of_nat_u8_diff [OF g(1)]
    by (rule unat_of_nat_u8) (use g in simp)
  have n: "unat (ts_segment_count x) \<le> 65536"
    using win unat_u16_le [of "su_final_segment_index (ts_setup x)"] by (auto simp: session_window_def unat_setupSegmentCount)
  have u: "unat (ts_acknowledged_count x + ucast adv) = k"
    using k g n adv by (subst unat_add_le) (simp_all add: unat_ucast_up)
  have v: "unat (ts_acknowledged_count x + ucast adv + ucast span) = g"
    using u g n span by (subst unat_add_le) (simp_all add: unat_ucast_up)
  have m: "ts_sent_bitmap x AND lowBitMask adv = lowBitMask adv"
    using adv sent by (intro bit_word_eqI) (auto simp: bit_and_iff bit_lowBitMask)
  show adm: "ack_admissible ?ack x"
    unfolding ack_admissible_def Let_def adv_def [symmetric] span_def [symmetric]
    using adv span u v m k g by (auto simp: word_less_nat_alt kCompactWindowWidth_def ack_for_def)
  note sh = shiftWindow_eq [OF len, of adv]
  have "adv \<le> 16" using adv k by (simp add: word_le_nat_alt)
  show "unat (ts_acknowledged_count (ack_apply ?ack x)) = k"
    "g \<le> unat (ts_granted_end (ack_apply ?ack x))" "ts_setup_sent (ack_apply ?ack x)"
    unfolding ack_apply_def Let_def adv_def [symmetric] span_def [symmetric]
    using sh adv k u v by (auto simp: word_less_nat_alt)
  have "drop_bit (unat adv) (ts_sent_bitmap x) = 0"
    using sent adv by (intro bit_word_eqI) (simp add: bit_drop_bit_eq)
  then show "ts_sent_bitmap (ack_apply ?ack x) = 0"
    unfolding ack_apply_def Let_def adv_def [symmetric] span_def [symmetric] using sh adv k by simp
qed

subsection \<open>Rounds of the transmitter\<close>

text \<open>Everything below \<open>k\<close> is acknowledged or sent, nothing above, and at most a window is unacknowledged.\<close>

definition tx_waits :: "nat \<Rightarrow> BitsTransmitter \<Rightarrow> bool" where
  "tx_waits k t \<longleftrightarrow> tx_live t \<and> ts_setup_sent (bt_session t)
     \<and> unat (ts_acknowledged_count (bt_session t)) \<le> k \<and> k \<le> unat (ts_acknowledged_count (bt_session t)) + 16
     \<and> (\<forall>i. bit (ts_sent_bitmap (bt_session t)) i \<longleftrightarrow> i < k - unat (ts_acknowledged_count (bt_session t)))"

lemma decodeControl_types:
  "\<exists>c. decodeControl (ack_wire a ! 0) = Some c \<and> ct_type c = MT_kAck"
  "\<exists>c. decodeControl (setup_wire s ! 0) = Some c \<and> ct_type c = MT_kSetup"
  "\<exists>c. decodeControl ((segment_wire h @ bs) ! 0) = Some c \<and> ct_type c = MT_kSegment"
  by (simp_all add: wire_defs decodeControl_def Let_def kProtocolVersion_def kCompactProfile_def MessageType_of_def)

lemma tx_handles_ack:
  assumes inv: "tx_invar t" and wait: "tx_waits k t" and s: "ts_setup (bt_session t) = s"
    and occ: "bt_datagram_occupied t" "payload (bt_datagram_ingress t) = ack_wire (ack_for s k g)"
    and g: "k \<le> g" "g \<le> k + 16" "g \<le> unat (ts_segment_count (bt_session t))"
  shows "\<exists>x. tx_handleDatagram lossless_tx_env t w = (True, t\<lparr>bt_session := x\<rparr>, w)
    \<and> unat (ts_acknowledged_count x) = k \<and> ts_sent_bitmap x = 0 \<and> g \<le> unat (ts_granted_end x) \<and> ts_setup_sent x
    \<and> ts_state x = (if k = unat (ts_segment_count (bt_session t)) then TS_kCompleted else TS_kActive)
    \<and> ts_setup x = s \<and> ts_object x = ts_object (bt_session t) \<and> ts_segment_count x = ts_segment_count (bt_session t)"
proof -
  let ?x = "bt_session t" and ?a = "ack_for s k g"
  have live: "tx_live t" "ts_setup_sent ?x" using wait by (simp_all add: tx_waits_def)
  have win: "session_window ?x" and len: "length (ts_segment_last_send_ms ?x) = 16" "length (ts_segment_retry_count ?x) = 16"
    using inv live(1) by (auto simp: tx_invar_def session_invar_def tx_live_def)
  have k: "unat (ts_acknowledged_count ?x) \<le> k" "k \<le> unat (ts_acknowledged_count ?x) + 16"
    "\<And>i. bit (ts_sent_bitmap ?x) i \<longleftrightarrow> i < k - unat (ts_acknowledged_count ?x)"
    using wait by (auto simp: tx_waits_def)
  note ap = ack_for_applied [OF win len k(1,2) g k(3), unfolded s]
  note aw = ack_apply_window [OF win ap(1) len]
  have dec: "decodeAckKnownType (ack_wire ?a) = Some ?a"
    using decodeAck_iff [of "ack_wire ?a" ?a] by (auto simp: decodeAck_def split: if_splits)
  have ne: "ack_wire ?a \<noteq> []" by (simp add: ack_wire_def)
  obtain c where c: "decodeControl (ack_wire ?a ! 0) = Some c" "ct_type c = MT_kAck" using decodeControl_types(1) by blast
  have sid: "ak_session_id ?a = su_session_id s" by (simp add: ack_for_def)
  have eq: "(ts_acknowledged_count (ack_apply ?a ?x) = ts_segment_count (ack_apply ?a ?x))
      \<longleftrightarrow> k = unat (ts_segment_count ?x)"
    using ap(2) aw(6) by (metis word_unat_eq_iff)
  define y where "y = (ack_apply ?a ?x)\<lparr>ts_state := (if k = unat (ts_segment_count ?x) then TS_kCompleted else TS_kActive)\<rparr>"
  have "tx_handleDatagram lossless_tx_env t w = (True, t\<lparr>bt_session := y\<rparr>, w)"
    unfolding y_def using live ap(1) s sid
    by (simp add: tx_handleDatagram_def occ(2) ne c tx_handleAck_def dec eq Let_def lossless_tx_env_def)
  then show ?thesis using ap(2-5) aw(4-6) s by (intro exI [of _ y]) (simp add: y_def)
qed

text \<open>A forwarded packet is the one left in the transmit buffer, addressed to the peer.\<close>

lemma forwardPacket_lossless:
  "forwardPacket lossless_tx_env t w = (True, t\<lparr>bt_last_send := SR_kSent\<rparr>, w @ [bt_transmit_packet t])"
  by (simp add: forwardPacket_def lossless_tx_env_def lossless_def sendResult_def)

lemma preparePacket_matches:
  assumes "preparePacket n q t = (True, t1)" and "clean (bt_transmit_packet t)"
  shows "matchesConnection (bt_transmit_packet t1) (mirrored (bt_connection t))"
    and "clean (bt_transmit_packet t1)"
proof -
  obtain p where p: "initializeConnection n (bt_connection t) (ControlFields_bits q) (bt_transmit_packet t) = (True, p)"
    "t1 = t\<lparr>bt_last_send := SR_kTooLarge, bt_transmit_packet := p\<rparr>"
    using assms(1) by (auto simp: preparePacket_def split: prod.splits)
  have "packet_invar (bt_transmit_packet t1)"
    using preparePacket_facts(1) [OF assms(1)] assms(2) by (simp add: clean_def)
  then show "matchesConnection (bt_transmit_packet t1) (mirrored (bt_connection t))" "clean (bt_transmit_packet t1)"
    using initializeConnection_matches [OF p(1) assms(2)] p(2) by (simp_all add: clean_def)
qed

lemma tx_send_message_lossless:
  assumes c: "clean (bt_transmit_packet t)" and n: "n < 65536" "n \<le> unat (pb_capacity (bt_transmit_packet t))"
    and enc: "\<And>out. length out = n \<Longrightarrow> encode out = (True, wire)" and len: "length wire = n"
  shows "\<exists>t' p. tx_send_message lossless_tx_env n q encode t w = (True, t', w @ [p]) \<and> tx_same t t'
    \<and> bt_transmit_packet t' = p \<and> payload p = wire \<and> clean p \<and> matchesConnection p (mirrored (bt_connection t))"
proof -
  have pk: "packet_invar (bt_transmit_packet t)" using c by (simp add: clean_def)
  have un: "unat (of_nat n :: u16) = n" using n by (simp add: unat_of_nat take_bit_nat_eq_self)
  obtain ok t1 where pp: "preparePacket (of_nat n) q t = (ok, t1)" by fastforce
  note f = preparePacket_facts [OF pp pk]
  have ok: "ok = True" using f(8) un n by (simp add: word_le_nat_alt)
  note m = preparePacket_matches [OF pp [unfolded ok] c]
  let ?p = "write_payload 0 wire (bt_transmit_packet t1)"
  have size: "unat (pb_size (bt_transmit_packet t1)) = n" "length (payload (bt_transmit_packet t1)) = n"
    using f(9) ok un by simp_all
  have inv: "packet_invar ?p" "payload ?p = wire" using f(1) size len by (simp_all add: payload_write_payload)
  have "tx_send_message lossless_tx_env n q encode t w
      = (True, t1\<lparr>bt_transmit_packet := ?p, bt_last_send := SR_kSent\<rparr>, w @ [?p])"
    using pp ok enc [OF size(2)] by (simp add: tx_send_message_def forwardPacket_lossless Let_def)
  then show ?thesis
    using f inv m
    by (intro exI [of _ "t1\<lparr>bt_transmit_packet := ?p, bt_last_send := SR_kSent\<rparr>"] exI [of _ ?p])
      (simp add: tx_same_def clean_def)
qed

lemma tx_sendSegment_addressed:
  assumes "clean (bt_transmit_packet t)" and "tx_sendSegment lossless_tx_env off now re t w = (sent, t', w')" and "w' \<noteq> w"
  shows "sent \<and> w' = w @ [bt_transmit_packet t'] \<and> matchesConnection (bt_transmit_packet t') (mirrored (bt_connection t))
    \<and> h_control (pb_header (bt_transmit_packet t')) AND 0x30 = 0"
proof -
  obtain ok t1 where pp: "preparePacket (of_nat kSegmentHeaderSize + tx_segment_size (bt_session t)
      (ts_acknowledged_count (bt_session t) + ucast off)) kBackground t = (ok, t1)" by fastforce
  have m: "matchesConnection (bt_transmit_packet t1) (mirrored (bt_connection t))"
    "h_control (pb_header (bt_transmit_packet t1)) AND 0x30 = 0" if ok
    using preparePacket_matches [OF _ assms(1)] pp that by (auto simp: clean_def)
  show ?thesis
    using assms(2,3) pp m
    by (auto simp: tx_sendSegment_def forwardPacket_lossless tx_session_def Let_def split: if_splits bool.splits prod.splits)
qed

text \<open>What a round leaves alone.\<close>

definition tx_kept :: "BitsTransmitter \<Rightarrow> BitsTransmitter \<Rightarrow> bool" where
  "tx_kept t t' \<longleftrightarrow> bt_connection t' = bt_connection t \<and> bt_datagram_ingress t' = bt_datagram_ingress t
     \<and> ts_segment_count (bt_session t') = ts_segment_count (bt_session t)"

lemma tx_process_keeps:
  assumes "tx_invar t" and "BitsTransmitter_process env now t w = (r, t', w')"
  shows "tx_invar t'" and "ts_setup (bt_session t') = ts_setup (bt_session t)"
    and "ts_object (bt_session t') = ts_object (bt_session t)"
  using unlogged.process_ok [of "ts_setup (bt_session t)" "ts_object (bt_session t)" t w env now r t' w'] assms
  by (auto simp: unlogged.tx_ok_def unlogged.log_ok_def)

lemma tx_round_setup:
  assumes inv: "tx_invar t" and c: "clean (bt_transmit_packet t)" and st: "ts_state (bt_session t) = TS_kStarting"
    and fresh: "\<not> ts_setup_sent (bt_session t)" "\<not> bt_datagram_occupied t"
      "ts_acknowledged_count (bt_session t) = 0" "ts_sent_bitmap (bt_session t) = 0"
  shows "\<exists>r t' p. BitsTransmitter_process lossless_tx_env now t [] = (r, t', [p]) \<and> tx_waits 0 t' \<and> tx_kept t t'
    \<and> \<not> bt_datagram_occupied t' \<and> bt_transmit_packet t' = p \<and> payload p = setup_wire (ts_setup (bt_session t))
    \<and> clean p \<and> matchesConnection p (mirrored (bt_connection t))"
proof -
  let ?s = "ts_setup (bt_session t)"
  have cap: "10 \<le> unat (pb_capacity (bt_transmit_packet t))" using inv st by (simp add: tx_invar_def tx_live_def)
  obtain t1 p where m: "tx_send_message lossless_tx_env 10 kNormal (encodeSetup ?s) t [] = (True, t1, [p])"
    "tx_same t t1" "bt_transmit_packet t1 = p" "payload p = setup_wire ?s" "clean p"
    "matchesConnection p (mirrored (bt_connection t))"
    using tx_send_message_lossless [OF c, of 10 "encodeSetup ?s" "setup_wire ?s" kNormal "[]"] cap
    by (auto simp: encode_exact)
  show ?thesis
    using m st fresh
    by (simp add: BitsTransmitter_process_def tx_process_starting_def tx_sendSetup_def tx_attempt_def bits_sizes
        tx_waits_def tx_kept_def tx_same_def tx_session_def tx_live_def)
qed

lemma tx_round_segment:
  assumes inv: "tx_invar t" and c: "clean (bt_transmit_packet t)" and wait: "tx_waits k t" and s: "ts_setup (bt_session t) = s"
    and occ: "bt_datagram_occupied t" "payload (bt_datagram_ingress t) = ack_wire (ack_for s k g)"
    and g: "k < g" "g \<le> k + 16" "g \<le> unat (ts_segment_count (bt_session t))"
  shows "\<exists>r t' p. BitsTransmitter_process lossless_tx_env now t [] = (r, t', [p]) \<and> tx_waits (Suc k) t' \<and> tx_kept t t'
    \<and> \<not> bt_datagram_occupied t' \<and> bt_transmit_packet t' = p \<and> clean p \<and> matchesConnection p (mirrored (bt_connection t))
    \<and> payload p = segment_message s (ts_object (bt_session t)) k"
proof -
  obtain x where x: "tx_handleDatagram lossless_tx_env t [] = (True, t\<lparr>bt_session := x\<rparr>, [])"
    "unat (ts_acknowledged_count x) = k" "ts_sent_bitmap x = 0" "g \<le> unat (ts_granted_end x)" "ts_setup_sent x"
    "ts_state x = TS_kActive" "ts_setup x = s" "ts_object x = ts_object (bt_session t)"
    "ts_segment_count x = ts_segment_count (bt_session t)"
    using tx_handles_ack [OF inv wait s occ _ g(2,3), of "[]"] g by fastforce
  let ?t = "t\<lparr>bt_session := x, bt_datagram_occupied := False\<rparr>"
  have "tx_invar (t\<lparr>bt_session := x\<rparr>)"
    using unlogged.handleDatagram_ok [OF _ x(1), of s "ts_object (bt_session t)"] inv s
    by (simp add: unlogged.tx_ok_def unlogged.log_ok_def)
  then have inv1: "tx_invar ?t" by (simp add: tx_invar_def tx_live_def)
  have live: "tx_live ?t" using x(6) by (simp add: tx_live_def)
  have win: "session_window x" using inv1 x(6) by (auto simp: tx_invar_def session_invar_def)
  have span: "0 < unat (tx_window_span x)" using unat_window_span [OF win] x(2,4) g by simp
  then have first: "tx_first_unsent x = Some 0"
    using x(3) by (simp add: tx_first_unsent_def upt_conv_Cons)
  obtain sent t' w' where snd: "tx_sendSegment lossless_tx_env 0 now False ?t [] = (sent, t', w')" by (metis prod_cases3)
  have lt: "unat (ts_acknowledged_count (bt_session ?t)) + unat (0 :: u8) < unat (ts_segment_count (bt_session ?t))"
    using x(2,9) g by simp
  have o: "unat (0 :: u8) < 16" by simp
  note f = tx_sendSegment_facts [OF inv1 live o snd lt]
  from f(1) obtain p h where p: "w' = [p]" "packet_invar p"
    "payload p = segment_wire h @ object_segment s (ts_object (bt_session t)) k"
    "sh_session_id h = su_session_id s" "unat (sh_segment_index h) = k"
    using x(2,7,8) by (auto simp: lossless_tx_env_def lossless_def)
  have h: "h = \<lparr>sh_session_id = su_session_id s, sh_segment_index = of_nat k\<rparr>" using p(4,5) by (cases h) (auto simp: )
  have a: "sent" "w' = [bt_transmit_packet t']" "matchesConnection (bt_transmit_packet t') (mirrored (bt_connection t))"
    "h_control (pb_header (bt_transmit_packet t')) AND 0x30 = 0"
    using tx_sendSegment_addressed [OF _ snd] c p(1) by auto
  obtain t2 where t2: "tx_same ?t t2" "t' = tx_session (\<lambda>s. s\<lparr>ts_sent_bitmap := ts_sent_bitmap s OR push_bit 0 1,
      ts_segment_last_send_ms := (ts_segment_last_send_ms s)[0 := now],
      ts_segment_retry_count := (ts_segment_retry_count s)[0 := 0], ts_probe_timer_active := False\<rparr>) t2"
    using f(3) [OF a(1)] by auto
  have "tx_waits (Suc k) t'" "tx_kept t t'" "\<not> bt_datagram_occupied t'"
    using t2 x by (auto simp: tx_waits_def tx_kept_def tx_same_def tx_session_def tx_live_def bit_1_iff)
  moreover have "BitsTransmitter_process lossless_tx_env now t [] = (PR_kProgress, t', [p])"
    using occ(1) x(1,6) first snd a(1) p(1)
    by (simp add: BitsTransmitter_process_def tx_process_active_def tx_attempt_def)
  ultimately show ?thesis
    using p a h by (auto simp: clean_def segment_message_def)
qed

lemma tx_round_done:
  assumes "tx_invar t" and "tx_waits k t" and "ts_setup (bt_session t) = s"
    and "bt_datagram_occupied t" and "payload (bt_datagram_ingress t) = ack_wire (ack_for s k k)"
    and "k = unat (ts_segment_count (bt_session t))"
  shows "\<exists>r t'. BitsTransmitter_process lossless_tx_env now t [] = (r, t', []) \<and> ts_state (bt_session t') = TS_kCompleted"
proof -
  obtain x where "tx_handleDatagram lossless_tx_env t [] = (True, t\<lparr>bt_session := x\<rparr>, [])" "ts_state x = TS_kCompleted"
    using tx_handles_ack [OF assms(1-5), of "[]"] assms(6) by auto
  then show ?thesis using assms(4) by (simp add: BitsTransmitter_process_def)
qed

subsection \<open>Rounds of the receiver\<close>

definition ram_ready :: "nat \<Rightarrow> PacketBuffer \<times> RamReceiverCallbacks \<times> PacketBuffer list \<Rightarrow> bool" where
  "ram_ready limit w \<longleftrightarrow> ram_sendable limit w \<and> clean (fst w)"

interpretation lossless_rx: willing_receiver "lossless_rx_env conn" "ram_ready limit" ram_vacant limit "\<lambda>w. snd (snd w)"
  for conn limit
proof unfold_locales
  fix w :: "PacketBuffer \<times> RamReceiverCallbacks \<times> PacketBuffer list" and off :: u32 and p :: bytes
  assume w: "ram_ready limit w" "ram_vacant w" "unat off + length p \<le> limit" "unat off + length p < 2 ^ 32"
  then obtain c where "Ram_onSegment off p (fst (snd w)) = (True, c)"
    "length (rc_storage c) = length (rc_storage (fst (snd w)))" "\<not> rc_object_complete c"
    using Ram_onSegment_accepts [of off p "fst (snd w)"] by (auto simp: ram_ready_def ram_sendable_def ram_vacant_def)
  then show "\<exists>w'. ee_onSegment (lossless_rx_env conn) off p w = (True, w') \<and> ram_ready limit w' \<and> ram_vacant w'
      \<and> snd (snd w') = snd (snd w)"
    using w(1) by (simp add: ram_env_def endpoint_env_def on_ram_def ram_ready_def ram_sendable_def ram_vacant_def)
next
  fix w :: "PacketBuffer \<times> RamReceiverCallbacks \<times> PacketBuffer list"
  assume w: "ram_ready limit w"
  obtain p where p: "initializeConnection 6 conn (ControlFields_bits kNormal) (fst w) = (True, p)"
    using w initializeConnection_fst by (metis prod.collapse ram_ready_def ram_sendable_def)
  have c: "clean (fst w)" "packet_invar (fst w)" using w by (simp_all add: ram_ready_def clean_def)
  have i: "packet_invar p" using initializeConnection_invar [OF c(2), of 6 conn "ControlFields_bits kNormal"] p by simp
  show "\<exists>st w'. ee_prepare (lossless_rx_env conn) 6 w = (st, w') \<and> length st = 6 \<and> ram_ready limit w' \<and> ram_vacant w' = ram_vacant w"
    using w p i initializeConnection_success [OF p] initializeConnection_matches [OF p c(1)]
    by (simp add: ram_env_def endpoint_env_def BitsReceiver_prepare_def ram_ready_def ram_sendable_def ram_vacant_def clean_def)
qed (auto simp: ram_env_def endpoint_env_def on_ram_def Ram_beginTransfer_def Ram_onTransferComplete_def ram_ready_def
    ram_sendable_def ram_vacant_def packet_invar_store BitsReceiver_sendPrepared_def network_forward_def lossless_def
    sendResult_def clean_def)

lemma lossless_answer:
  assumes "lossless_rx.answers conn limit (pk, ram, []) e w'"
  shows "\<exists>p ram'. w' = (p, ram', [p]) \<and> payload p = ack_wire (engine_ack e) \<and> clean p
    \<and> matchesConnection p (mirrored conn)"
proof -
  from assms obtain e0 r pk0 ram0 where a: "e = e0\<lparr>re_last_send := r\<rparr>"
    "engine_sendAck (lossless_rx_env conn) e0 (pk0, ram0, []) = (True, e, w')" "ram_ready limit (pk0, ram0, [])"
    by (auto simp: lossless_rx.answers_def)
  have "engine_ack e0 = engine_ack e"
    by (simp add: a(1) engine_ack_def engine_max_receive_sequence_def engine_window_base_def)
  with ram_sendAck [of pk0 conn e0 ram0 "[]"] a(2,3) show ?thesis by (auto simp: ram_ready_def ram_sendable_def)
qed

text \<open>An endpoint with nothing pending and room for a SETUP and for segments of \<open>z\<close> bytes.\<close>

definition rx_idle :: "ConnectionAddress \<Rightarrow> nat \<Rightarrow> BitsReceiver \<Rightarrow> bool" where
  "rx_idle conn z b \<longleftrightarrow> endpoint_invar b \<and> br_segment_occupied_mask b = 0 \<and> \<not> br_datagram_occupied b
     \<and> br_connection b = conn \<and> 10 \<le> unat (pb_capacity (br_datagram_ingress b))
     \<and> (\<exists>i < 16. \<exists>p. i < length (br_segment_ingress b) \<and> br_segment_ingress b ! i = Some p \<and> z + 4 \<le> unat (pb_capacity p))"

lemma rx_idle_engine [simp]: "rx_idle conn z (b\<lparr>br_engine := e\<rparr>) = rx_idle conn z b"
  by (simp add: rx_idle_def)

lemma rx_takes_setup:
  assumes idle: "rx_idle conn z b" and p: "packet_invar p" "matchesConnection p conn" "payload p = setup_wire s"
  shows "\<exists>d. BitsReceiver_receive p b = (RX_kAccepted, b\<lparr>br_datagram_ingress := d, br_datagram_occupied := True\<rparr>)
    \<and> payload d = setup_wire s \<and> rx_idle conn z (b\<lparr>br_datagram_ingress := d\<rparr>)"
proof -
  let ?d = "br_datagram_ingress b"
  have d: "packet_invar ?d" "10 \<le> unat (pb_capacity ?d)" using idle by (simp_all add: rx_idle_def endpoint_invar_def)
  have "unat (pb_size p) = 10" using length_payload [OF p(1)] p(3) by simp
  then have fit: "pb_size p \<le> pb_capacity ?d" using d(2) by (simp add: word_le_nat_alt)
  obtain d' where c: "copyPacket p ?d = (True, d')" using copyPacket_fst [of p ?d] fit by (metis prod.collapse)
  note cp = copyPacket_success [OF p(1) d(1) fit]
  obtain t where t: "decodeControl (setup_wire s ! 0) = Some t" "ct_type t = MT_kSetup" using decodeControl_types(2) by blast
  have ne: "setup_wire s \<noteq> []" by (simp add: setup_wire_def)
  have "BitsReceiver_receive p b = (RX_kAccepted, b\<lparr>br_datagram_ingress := d', br_datagram_occupied := True\<rparr>)"
    using idle p(2) t ne c by (simp add: BitsReceiver_receive_def p(3) rx_idle_def)
  then show ?thesis
    using c cp p(3) idle by (intro exI [of _ d']) (simp add: rx_idle_def endpoint_invar_def)
qed

lemma rx_takes_segment:
  assumes idle: "rx_idle conn z b" and p: "packet_invar p" "matchesConnection p conn" "payload p = segment_wire h @ bs"
    and z: "length bs \<le> z"
  shows "\<exists>i slots. BitsReceiver_receive p b = (RX_kAccepted, b\<lparr>br_segment_ingress := slots, br_segment_occupied_mask := push_bit i 1\<rparr>)
    \<and> i < 16 \<and> slot_message slots i = payload p \<and> rx_idle conn z (b\<lparr>br_segment_ingress := slots\<rparr>)"
proof -
  let ?s = "br_segment_ingress b"
  obtain j q where j: "j < 16" "j < length ?s" "?s ! j = Some q" "z + 4 \<le> unat (pb_capacity q)"
    using idle by (auto simp: rx_idle_def)
  have inv: "endpoint_invar b" and m0: "br_segment_occupied_mask b = 0" using idle by (simp_all add: rx_idle_def)
  have size: "unat (pb_size p) = 4 + length bs" using length_payload [OF p(1)] p(3) by simp
  obtain r sl occ where l: "BitsReceiver_slot_loop p 0 (take 16 ?s) 0 False = (r, sl, occ)" by (metis prod_cases3)
  have free: "slot_free (take 16 ?s) 0 0 j" "slot_fits p (take 16 ?s) j"
    using j size z by (simp_all add: slot_free_def slot_fits_def word_le_nat_alt)
  have r: "r = RX_kAccepted"
    using slot_loop_refused [OF l] free j by fastforce
  from slot_loop_accepted [OF l [unfolded r]] obtain i u where
    i: "i < length (take 16 ?s)" "take 16 ?s ! i = Some u" "slot_fits p (take 16 ?s) i"
      "sl = (take 16 ?s)[i := Some (snd (copyPacket p u))]" "occ = push_bit i 1" by auto
  then have i16: "i < 16" "i < length ?s" "?s ! i = Some u" by auto
  let ?slots = "sl @ drop 16 ?s"
  have slots: "?slots = ?s[i := Some (snd (copyPacket p u))]" using i(1,4) by (simp add: list_update_append1 [symmetric])
  have u: "packet_invar u" using inv i16 by (auto simp: endpoint_invar_def in_set_conv_nth)
  have fit: "pb_size p \<le> pb_capacity u" using i(2,3) by (simp add: slot_fits_def)
  note cp = copyPacket_success [OF p(1) u fit]
  obtain t where t: "decodeControl ((segment_wire h @ bs) ! 0) = Some t" "ct_type t = MT_kSegment"
    using decodeControl_types(3) by blast
  have ne: "segment_wire h @ bs \<noteq> []" by (simp add: segment_wire_def)
  have rec: "BitsReceiver_receive p b = (RX_kAccepted, b\<lparr>br_segment_ingress := ?slots, br_segment_occupied_mask := push_bit i 1\<rparr>)"
    using idle p(2) t ne l r i(5) m0 by (simp add: BitsReceiver_receive_def p(3) rx_idle_def kCompactWindowWidth_def)
  have "\<exists>q. ?slots ! j = Some q \<and> z + 4 \<le> unat (pb_capacity q)"
    unfolding slots using j i16 cp(3) by (cases "j = i") auto
  moreover have "endpoint_invar (b\<lparr>br_segment_ingress := ?slots\<rparr>)"
    using inv m0 cp(4) set_update_subset_insert [of ?s i "Some (snd (copyPacket p u))"]
    by (auto simp: endpoint_invar_def slots)
  ultimately have "rx_idle conn z (b\<lparr>br_segment_ingress := ?slots\<rparr>)"
    using idle j(1,2) slots by (auto simp: rx_idle_def)
  moreover have "slot_message ?slots i = payload p" using slots i16 cp(1) by (simp add: slot_message_def)
  ultimately show ?thesis using rec i16(1) by blast
qed

lemma rx_processes_segment:
  assumes "engine_poll env now (br_engine b) w = (PR_kIdle, br_engine b, w)" and "\<not> br_datagram_occupied b" and "i < 16"
    and "engine_process env (slot_message slots i) now (br_engine b) w = (r, e', w')" and "br_segment_occupied_mask b = 0"
  shows "BitsReceiver_process env now (b\<lparr>br_segment_ingress := slots, br_segment_occupied_mask := push_bit i 1\<rparr>) w
    = (r, b\<lparr>br_segment_ingress := slots, br_engine := e'\<rparr>, w')"
proof -
  have nz: "push_bit i (1 :: u16) \<noteq> 0" using assms(3) by (auto simp: push_bit_eq_0_iff)
  from first_occupied_some [OF this] assms(3) have f: "BitsReceiver_first_occupied (push_bit i 1) [0..<16] = Some i"
    by (auto simp: bit_simps)
  have z: "push_bit i 1 AND NOT (push_bit i (1 :: u16)) = 0" by (rule bit_word_eqI) (auto simp: bit_simps)
  show ?thesis
    using assms nz f z
    by (simp add: BitsReceiver_process_def BitsReceiver_process_segment_def BitsReceiver_process_datagram_def kCompactWindowWidth_def)
qed

subsection \<open>Lock step\<close>

definition segments :: "Setup \<Rightarrow> nat" where
  "segments s = Suc (unat (su_final_segment_index s))"

text \<open>The acknowledgement of the first \<open>k\<close> segments that grants up to \<open>g\<close>.\<close>

definition grant_ok :: "Setup \<Rightarrow> nat \<Rightarrow> nat \<Rightarrow> bool" where
  "grant_ok s k g \<longleftrightarrow> k \<le> g \<and> g \<le> k + 16 \<and> g \<le> segments s \<and> (k < segments s \<longrightarrow> k < g)"

text \<open>The engine has exactly the first \<open>k\<close> segments.\<close>

definition rx_has :: "ConnectionAddress \<Rightarrow> nat \<Rightarrow> Setup \<Rightarrow> nat \<Rightarrow> BitsReceiverEngine
    \<Rightarrow> PacketBuffer \<times> RamReceiverCallbacks \<times> PacketBuffer list \<Rightarrow> bool" where
  "rx_has conn limit s k e w \<longleftrightarrow>
     (if k < segments s then lossless_rx.awaiting conn limit s k e w
      else k = segments s \<and> engine_invar 16 e \<and> re_state e = TS_kCompleted \<and> re_setup e = s \<and> ram_ready limit w)"

lemma ram_window [simp]: "ee_max_window (ram_env conn forward) = 16"
  by (simp add: ram_env_def endpoint_env_def)

lemma rx_has_ack:
  assumes "rx_has conn limit s k e w"
  shows "\<exists>g. engine_ack e = ack_for s k g \<and> grant_ok s k g"
proof -
  have inv: "engine_invar 16 e" "re_setup e = s" and st: "re_state e \<in> {TS_kActive, TS_kCompleted}"
    using assms by (auto simp: rx_has_def lossless_rx.awaiting_def split: if_splits)
  have win: "window_invar e" and width: "unat (ec_receive_window_width (re_config e)) \<le> 16"
    using inv(1) st by (auto simp: engine_invar_def)
  have n: "unat (re_segment_count e) = segments s"
    using win inv(2) by (simp add: window_invar_def unat_setupSegmentCount segments_def)
  have w0: "0 < unat (ec_receive_window_width (re_config e))" using win by (simp add: window_invar_def word_less_nat_alt)
  have g: "unat (re_granted_end e) = min (segments s) (unat (re_contiguous_count e) + unat (ec_receive_window_width (re_config e)))"
    using win n by (simp add: window_invar_def)
  have k: "unat (re_contiguous_count e) = k \<and> re_receive_bitmap e = 0"
  proof (cases "k < segments s")
    case True
    then show ?thesis
      using assms lossless_rx.received_prefix [OF win] by (auto simp: rx_has_def lossless_rx.awaiting_def)
  next
    case False
    then have "re_contiguous_count e = re_segment_count e" using assms inv(1) by (auto simp: rx_has_def engine_invar_def)
    moreover from this have "re_receive_bitmap e = 0"
      using win g n by (intro bit_word_eqI) (auto simp: window_invar_def)
    ultimately show ?thesis using False assms n by (simp add: rx_has_def)
  qed
  have le: "k \<le> segments s" using assms by (auto simp: rx_has_def split: if_splits)
  show ?thesis
    using engine_ack_for [OF inv(1) st] k inv(2) g width w0 le
    by (intro exI [of _ "unat (re_granted_end e)"]) (auto simp: grant_ok_def)
qed

lemma tx_takes_ack:
  assumes inv: "tx_invar t" and t: "\<not> bt_datagram_occupied t" "6 \<le> unat (pb_capacity (bt_datagram_ingress t))"
    and p: "clean p" "matchesConnection p (bt_connection t)" "payload p = ack_wire a"
  shows "\<exists>d. BitsTransmitter_receive p t = (RX_kAccepted, t\<lparr>bt_datagram_ingress := d, bt_datagram_occupied := True\<rparr>)
    \<and> payload d = ack_wire a \<and> pb_capacity d = pb_capacity (bt_datagram_ingress t) \<and> packet_invar d"
proof -
  let ?d = "bt_datagram_ingress t"
  have pk: "packet_invar p" "packet_invar ?d" using p(1) inv by (simp_all add: clean_def tx_invar_def)
  have "unat (pb_size p) = 6" using length_payload [OF pk(1)] p(3) by simp
  then have fit: "pb_size p \<le> pb_capacity ?d" using t(2) by (simp add: word_le_nat_alt)
  obtain d' where c: "copyPacket p ?d = (True, d')" using copyPacket_fst [of p ?d] fit by (metis prod.collapse)
  note cp = copyPacket_success [OF pk fit]
  obtain u where u: "decodeControl (ack_wire a ! 0) = Some u" "ct_type u = MT_kAck" using decodeControl_types(1) by blast
  have ne: "ack_wire a \<noteq> []" by (simp add: ack_wire_def)
  have "BitsTransmitter_receive p t = (RX_kAccepted, t\<lparr>bt_datagram_ingress := d', bt_datagram_occupied := True\<rparr>)"
    using t(1) p(2) u ne c by (simp add: BitsTransmitter_receive_def p(3))
  then show ?thesis using c cp p(3) by (intro exI [of _ d']) simp
qed

text \<open>
  Between two rounds: the acknowledgement of the first \<open>k\<close> segments is pending at the
  transmitter, which has sent exactly those, and the receiver has exactly those.
\<close>

fun lockstep :: "ConnectionAddress \<Rightarrow> Setup \<Rightarrow> bytes \<Rightarrow> u32 \<Rightarrow> u32 \<Rightarrow> nat \<Rightarrow> exchange \<Rightarrow> bool" where
  "lockstep conn s obj timeout time k (t, b, pk, ram) \<longleftrightarrow>
     tx_invar t \<and> clean (bt_transmit_packet t) \<and> tx_waits k t \<and> ts_setup (bt_session t) = s \<and> ts_object (bt_session t) = obj
     \<and> bt_connection t = mirrored conn \<and> bt_datagram_occupied t \<and> 6 \<le> unat (pb_capacity (bt_datagram_ingress t))
     \<and> (\<exists>g. payload (bt_datagram_ingress t) = ack_wire (ack_for s k g) \<and> grant_ok s k g)
     \<and> rx_idle conn (unat (su_segment_size s)) b \<and> rx_has conn (length obj) s k (br_engine b) (pk, ram, [])
     \<and> re_last_activity_ms (br_engine b) = time \<and> ec_inactivity_timeout_ms (re_config (br_engine b)) = timeout
     \<and> ram_sink.endpoint_ok conn lossless s obj b (pk, ram, [])"

lemma mirrored_twice [simp]: "mirrored (mirrored c) = c"
  by (cases c) (simp add: mirrored_def)

lemma ram_line_irrelevant:
  "ram_sink.endpoint_ok conn lossless s obj b (pk, ram, n) = ram_sink.endpoint_ok conn lossless s obj b (pk, ram, n')"
  by (simp add: ram_sink.endpoint_ok_def ram_sink.transfer_ok_def)

lemma rx_has_line: "rx_has conn limit s k e (pk, ram, n) = rx_has conn limit s k e (pk, ram, n')"
  by (simp add: rx_has_def lossless_rx.awaiting_def ram_ready_def ram_sendable_def ram_vacant_def)

text \<open>The receiver after it has processed a message of the transfer: its answer is on the line.\<close>

definition rx_answered :: "ConnectionAddress \<Rightarrow> Setup \<Rightarrow> bytes \<Rightarrow> u32 \<Rightarrow> u32 \<Rightarrow> nat \<Rightarrow> BitsReceiver \<Rightarrow> PacketBuffer
    \<Rightarrow> RamReceiverCallbacks \<Rightarrow> bool" where
  "rx_answered conn s obj timeout time k b p ram \<longleftrightarrow>
     rx_idle conn (unat (su_segment_size s)) b \<and> rx_has conn (length obj) s k (br_engine b) (p, ram, [p])
     \<and> re_last_activity_ms (br_engine b) = time \<and> ec_inactivity_timeout_ms (re_config (br_engine b)) = timeout
     \<and> ram_sink.endpoint_ok conn lossless s obj b (p, ram, [p])
     \<and> payload p = ack_wire (engine_ack (br_engine b)) \<and> clean p \<and> matchesConnection p (mirrored conn)"

lemma rx_round_segment:
  assumes b: "rx_idle conn (unat (su_segment_size s)) b" "lossless_rx.awaiting conn (length obj) s k (br_engine b) (pk, ram, [])"
      "ram_sink.endpoint_ok conn lossless s obj b (pk, ram, [])"
    and v: "setup_valid s" "length obj = unat (setupTotalSize s)" and k: "k \<le> unat (su_final_segment_index s)"
    and p: "packet_invar p" "matchesConnection p conn" "payload p = segment_message s obj k"
    and timeout: "ec_inactivity_timeout_ms (re_config (br_engine b)) = timeout"
    and time: "timeout = 0 \<or> now - re_last_activity_ms (br_engine b) < timeout"
  shows "\<exists>r b' p' ram'. BitsReceiver_process (lossless_rx_env conn) now (snd (BitsReceiver_receive p b)) (pk, ram, [])
      = (r, b', p', ram', [p']) \<and> rx_answered conn s obj timeout now (Suc k) b' p' ram'"
proof -
  let ?env = "lossless_rx_env conn"
  have z: "length (object_segment s obj k) \<le> unat (su_segment_size s)"
    using length_object_segment [OF v k] segment_length_le [OF v(1), of k] by simp
  obtain i slots where rec: "BitsReceiver_receive p b = (RX_kAccepted, b\<lparr>br_segment_ingress := slots, br_segment_occupied_mask := push_bit i 1\<rparr>)"
    "i < 16" "slot_message slots i = payload p" "rx_idle conn (unat (su_segment_size s)) (b\<lparr>br_segment_ingress := slots\<rparr>)"
    using rx_takes_segment [OF b(1) p(1,2) p(3) [unfolded segment_message_def] z] by blast
  let ?b1 = "b\<lparr>br_segment_ingress := slots, br_segment_occupied_mask := push_bit i 1\<rparr>"
  note time' = time [folded timeout]
  obtain r e' w' where e': "engine_process ?env (segment_message s obj k) now (br_engine b) (pk, ram, []) = (r, e', w')"
    "re_last_activity_ms e' = now" "re_config e' = re_config (br_engine b)" "engine_invar 16 e'" "re_setup e' = s"
    "ram_ready (length obj) w'" "lossless_rx.answers conn (length obj) (pk, ram, []) e' w'"
    "if k = unat (su_final_segment_index s) then re_state e' = TS_kCompleted else lossless_rx.awaiting conn (length obj) s (Suc k) e' w'"
    using lossless_rx.segment_advances [OF b(2) k v(2) _ refl time'] by (auto simp: segment_message_def)
  obtain p' ram' where a: "w' = (p', ram', [p'])" "payload p' = ack_wire (engine_ack e')" "clean p'"
    "matchesConnection p' (mirrored conn)" using lossless_answer [OF e'(7)] by blast
  have idle: "engine_poll ?env now (br_engine b) (pk, ram, []) = (PR_kIdle, br_engine b, pk, ram, [])"
    using time' by (auto simp: engine_poll_def)
  let ?b2 = "b\<lparr>br_segment_ingress := slots, br_engine := e'\<rparr>"
  have proc: "BitsReceiver_process ?env now ?b1 (pk, ram, []) = (r, ?b2, p', ram', [p'])"
    using rx_processes_segment [OF idle _ rec(2), of slots r e' w'] e'(1) a(1) p(3) rec(3) b(1) by (simp add: rx_idle_def)
  have ok1: "ram_sink.endpoint_ok conn lossless s obj ?b1 (pk, ram, [])"
    by (rule ram_sink.endpoint_step_ok [OF b(3) v, of "RecvEvent p"])
      (use rec(1) p segment_message_honest [OF k] in auto)
  have "ram_sink.endpoint_ok conn lossless s obj ?b2 (p', ram', [p'])"
    by (rule ram_sink.endpoint_step_ok [OF ok1 v, of "ProcEvent now"]) (use proc in auto)
  moreover have "rx_has conn (length obj) s (Suc k) e' (p', ram', [p'])"
    using e'(4-6,8) a(1) k by (auto simp: rx_has_def segments_def)
  ultimately show ?thesis using proc rec(1,4) e'(2,3) a timeout by (auto simp: rx_answered_def)
qed

lemma rx_round_setup:
  assumes b: "rx_idle conn (unat (su_segment_size s)) b" "ram_sink.endpoint_ok conn lossless s obj b (pk, ram, [])"
    and e: "re_state (br_engine b) \<noteq> TS_kActive" "setupTotalSize s \<le> ec_maximum_object_size (re_config (br_engine b))"
      "ec_receive_window_width (re_config (br_engine b)) \<noteq> 0" "su_segment_size s \<le> ec_maximum_segment_size (re_config (br_engine b))"
    and w: "ram_ready (length obj) (pk, ram, [])" "\<not> rc_object_complete ram"
    and v: "setup_valid s" "length obj = unat (setupTotalSize s)"
    and p: "packet_invar p" "matchesConnection p conn" "payload p = setup_wire s"
    and timeout: "ec_inactivity_timeout_ms (re_config (br_engine b)) = timeout"
  shows "\<exists>r b' p' ram'. BitsReceiver_process (lossless_rx_env conn) now (snd (BitsReceiver_receive p b)) (pk, ram, [])
      = (r, b', p', ram', [p']) \<and> rx_answered conn s obj timeout now 0 b' p' ram'"
proof -
  let ?env = "lossless_rx_env conn"
  obtain d where rec: "BitsReceiver_receive p b = (RX_kAccepted, b\<lparr>br_datagram_ingress := d, br_datagram_occupied := True\<rparr>)"
    "payload d = setup_wire s" "rx_idle conn (unat (su_segment_size s)) (b\<lparr>br_datagram_ingress := d\<rparr>)"
    using rx_takes_setup [OF b(1) p] by blast
  let ?b1 = "b\<lparr>br_datagram_ingress := d, br_datagram_occupied := True\<rparr>"
  have inv: "engine_invar 16 (br_engine b)" using b(2) by (simp add: ram_sink.endpoint_ok_def)
  obtain r e' w' where e': "engine_process ?env (setup_wire s) now (br_engine b) (pk, ram, []) = (r, e', w')"
    "r \<in> {PR_kProgress, PR_kBlocked}" "lossless_rx.awaiting conn (length obj) s 0 e' w'" "re_last_activity_ms e' = now"
    "re_config e' = re_config (br_engine b)" "lossless_rx.answers conn (length obj) (pk, ram, []) e' w'"
    using lossless_rx.setup_begins [of conn "br_engine b" s "length obj" "(pk, ram, [])" now] inv e v w
    by (auto simp: ram_vacant_def)
  obtain p' ram' where a: "w' = (p', ram', [p'])" "payload p' = ack_wire (engine_ack e')" "clean p'"
    "matchesConnection p' (mirrored conn)" using lossless_answer [OF e'(6)] by blast
  have idle: "engine_poll ?env now (br_engine b) (pk, ram, []) = (PR_kIdle, br_engine b, pk, ram, [])"
    using e(1) by (simp add: engine_poll_def)
  let ?b2 = "b\<lparr>br_datagram_ingress := d, br_engine := e'\<rparr>"
  have "br_segment_occupied_mask b = 0" "\<not> br_datagram_occupied b" using b(1) by (simp_all add: rx_idle_def)
  then obtain r' where proc: "BitsReceiver_process ?env now ?b1 (pk, ram, []) = (r', ?b2, p', ram', [p'])"
    using idle e'(1) a(1) rec(2)
    by (simp add: BitsReceiver_process_def BitsReceiver_process_segment_def BitsReceiver_process_datagram_def)
  have ok1: "ram_sink.endpoint_ok conn lossless s obj ?b1 (pk, ram, [])"
    by (rule ram_sink.endpoint_step_ok [OF b(2) v, of "RecvEvent p"]) (use rec(1) p honest_wires(1) in auto)
  have "ram_sink.endpoint_ok conn lossless s obj ?b2 (p', ram', [p'])"
    by (rule ram_sink.endpoint_step_ok [OF ok1 v, of "ProcEvent now"]) (use proc in auto)
  moreover have "rx_has conn (length obj) s 0 e' (p', ram', [p'])" using e'(3) a(1) by (simp add: rx_has_def segments_def)
  ultimately show ?thesis using proc rec(1,3) e'(4,5) a timeout by (auto simp: rx_answered_def)
qed

text \<open>The second half of a round: the receiver's acknowledgement reaches the transmitter.\<close>

lemma lockstep_reply:
  assumes t: "tx_invar t" "clean (bt_transmit_packet t)" "tx_waits k t" "ts_setup (bt_session t) = s"
      "ts_object (bt_session t) = obj" "bt_connection t = mirrored conn" "\<not> bt_datagram_occupied t"
      "6 \<le> unat (pb_capacity (bt_datagram_ingress t))"
    and b: "rx_answered conn s obj timeout time k b p ram"
  shows "lockstep conn s obj timeout time k (snd (BitsTransmitter_receive p t), b, p, ram)"
proof -
  note b' = b [unfolded rx_answered_def]
  obtain g where g: "engine_ack (br_engine b) = ack_for s k g" "grant_ok s k g" using rx_has_ack b' by blast
  obtain d where d: "BitsTransmitter_receive p t = (RX_kAccepted, t\<lparr>bt_datagram_ingress := d, bt_datagram_occupied := True\<rparr>)"
    "payload d = ack_wire (ack_for s k g)" "pb_capacity d = pb_capacity (bt_datagram_ingress t)" "packet_invar d"
    using tx_takes_ack [OF t(1,7,8), of p "ack_for s k g"] b' t(6) g(1) by auto
  show ?thesis
    using t b' d g(2) rx_has_line [of conn "length obj" s k "br_engine b" p ram "[p]" "[]"]
      ram_line_irrelevant [of conn s obj b p ram "[p]" "[]"]
    by (auto simp: tx_invar_def tx_waits_def tx_live_def)
qed

lemma lockstep_geometry:
  assumes "lockstep conn s obj timeout time k (t, b, pk, ram)"
  shows "unat (ts_segment_count (bt_session t)) = segments s" and "setup_valid s" and "length obj = unat (setupTotalSize s)"
proof -
  have "session_window (bt_session t)"
    using assms by (auto simp: tx_waits_def tx_live_def tx_invar_def session_invar_def)
  then show "unat (ts_segment_count (bt_session t)) = segments s" "setup_valid s" "length obj = unat (setupTotalSize s)"
    using assms by (auto simp: session_window_def unat_setupSegmentCount segments_def)
qed

lemma lockstep_segment:
  assumes l: "lockstep conn s obj timeout time k (t, b, pk, ram)" and k: "k < segments s"
    and now: "timeout = 0 \<or> now - time < timeout"
  shows "lockstep conn s obj timeout now (Suc k) (exchange_round conn now (t, b, pk, ram))"
proof -
  note n = lockstep_geometry [OF l]
  obtain g where g: "payload (bt_datagram_ingress t) = ack_wire (ack_for s k g)" "k < g" "g \<le> k + 16" "g \<le> segments s"
    using l k by (auto simp: grant_ok_def)
  obtain r t1 p where t1: "BitsTransmitter_process lossless_tx_env now t [] = (r, t1, [p])" "tx_waits (Suc k) t1" "tx_kept t t1"
    "\<not> bt_datagram_occupied t1" "bt_transmit_packet t1 = p" "clean p" "matchesConnection p conn" "payload p = segment_message s obj k"
    using tx_round_segment [of t k s g now] l g n(1) by auto
  have inv1: "tx_invar t1" "ts_setup (bt_session t1) = s" "ts_object (bt_session t1) = obj"
    using tx_process_keeps [OF _ t1(1)] l by auto
  have aw: "lossless_rx.awaiting conn (length obj) s k (br_engine b) (pk, ram, [])" using l k by (simp add: rx_has_def)
  have kl: "k \<le> unat (su_final_segment_index s)" "packet_invar p" using k t1(6) by (simp_all add: segments_def clean_def)
  obtain r2 b2 p' ram' where rx: "BitsReceiver_process (lossless_rx_env conn) now (snd (BitsReceiver_receive p b)) (pk, ram, [])
      = (r2, b2, p', ram', [p'])" "rx_answered conn s obj timeout now (Suc k) b2 p' ram'"
    using rx_round_segment [OF _ aw _ n(2,3) kl t1(7,8), of timeout now] l now by auto
  have "lockstep conn s obj timeout now (Suc k) (snd (BitsTransmitter_receive p' t1), b2, p', ram')"
    by (rule lockstep_reply [OF _ _ _ _ _ _ _ _ rx(2)]) (use l t1 inv1 in \<open>auto simp: tx_kept_def\<close>)
  then show ?thesis using t1(1) rx(1) by simp
qed

text \<open>The first round and the last.\<close>

lemma lockstep_setup:
  assumes t: "tx_invar t" "clean (bt_transmit_packet t)" "ts_state (bt_session t) = TS_kStarting" "\<not> ts_setup_sent (bt_session t)"
      "\<not> bt_datagram_occupied t" "ts_acknowledged_count (bt_session t) = 0" "ts_sent_bitmap (bt_session t) = 0"
      "ts_setup (bt_session t) = s" "ts_object (bt_session t) = obj" "bt_connection t = mirrored conn"
      "6 \<le> unat (pb_capacity (bt_datagram_ingress t))"
    and b: "rx_idle conn (unat (su_segment_size s)) b" "ram_sink.endpoint_ok conn lossless s obj b (pk, ram, [])"
      "re_state (br_engine b) \<noteq> TS_kActive" "setupTotalSize s \<le> ec_maximum_object_size (re_config (br_engine b))"
      "ec_receive_window_width (re_config (br_engine b)) \<noteq> 0" "su_segment_size s \<le> ec_maximum_segment_size (re_config (br_engine b))"
      "ec_inactivity_timeout_ms (re_config (br_engine b)) = timeout"
    and w: "ram_ready (length obj) (pk, ram, [])" "\<not> rc_object_complete ram"
  shows "lockstep conn s obj timeout now 0 (exchange_round conn now (t, b, pk, ram))"
proof -
  obtain r t1 p where t1: "BitsTransmitter_process lossless_tx_env now t [] = (r, t1, [p])" "tx_waits 0 t1" "tx_kept t t1"
    "\<not> bt_datagram_occupied t1" "bt_transmit_packet t1 = p" "payload p = setup_wire s" "clean p" "matchesConnection p conn"
    using tx_round_setup [OF t(1-7), of now] unfolding t(8,10) mirrored_twice by blast
  have inv1: "tx_invar t1" "ts_setup (bt_session t1) = s" "ts_object (bt_session t1) = obj"
    using tx_process_keeps [OF t(1) t1(1)] t(8,9) by simp_all
  have v: "setup_valid s" "length obj = unat (setupTotalSize s)" "packet_invar p"
    using t(1,3,8,9) t1(7) by (auto simp: tx_invar_def session_invar_def session_window_def clean_def)
  obtain r2 b2 p' ram' where rx: "BitsReceiver_process (lossless_rx_env conn) now (snd (BitsReceiver_receive p b)) (pk, ram, [])
      = (r2, b2, p', ram', [p'])" "rx_answered conn s obj timeout now 0 b2 p' ram'"
    using rx_round_setup [OF b(1-6) w v t1(8,6) b(7), of now] by blast
  have "lockstep conn s obj timeout now 0 (snd (BitsTransmitter_receive p' t1), b2, p', ram')"
    by (rule lockstep_reply [OF _ _ _ _ _ _ _ _ rx(2)]) (use t t1 inv1 in \<open>auto simp: tx_kept_def\<close>)
  then show ?thesis using t1(1) rx(1) by simp
qed

lemma lockstep_done:
  assumes l: "lockstep conn s obj timeout time (segments s) (t, b, pk, ram)"
  shows "\<exists>t'. exchange_round conn now (t, b, pk, ram) = (t', b, pk, ram) \<and> ts_state (bt_session t') = TS_kCompleted"
    and "re_state (br_engine b) = TS_kCompleted" and "take (length obj) (rc_storage ram) = obj"
proof -
  note n = lockstep_geometry [OF l]
  have t: "tx_invar t" "tx_waits (segments s) t" "ts_setup (bt_session t) = s" "bt_datagram_occupied t"
    "payload (bt_datagram_ingress t) = ack_wire (ack_for s (segments s) (segments s))"
    using l by (auto simp: grant_ok_def)
  have b: "rx_idle conn (unat (su_segment_size s)) b" "rx_has conn (length obj) s (segments s) (br_engine b) (pk, ram, [])"
    "ram_sink.endpoint_ok conn lossless s obj b (pk, ram, [])" using l by simp_all
  show c: "re_state (br_engine b) = TS_kCompleted" using b(2) by (simp add: rx_has_def)
  show "take (length obj) (rc_storage ram) = obj"
    using ram_sink.completed_object_state [OF n(2,3) _ _ c, of conn lossless "(pk, ram, [])"] b(3)
    by (simp add: ram_sink.endpoint_ok_def)
  obtain r t' where t': "BitsTransmitter_process lossless_tx_env now t [] = (r, t', [])" "ts_state (bt_session t') = TS_kCompleted"
    using tx_round_done [OF t n(1) [symmetric]] by blast
  have "BitsReceiver_process (lossless_rx_env conn) now b (pk, ram, []) = (PR_kIdle, b, pk, ram, [])"
    using b(1) c by (simp add: BitsReceiver_process_def engine_poll_def BitsReceiver_process_segment_def
        BitsReceiver_process_datagram_def rx_idle_def)
  then show "\<exists>t'. exchange_round conn now (t, b, pk, ram) = (t', b, pk, ram) \<and> ts_state (bt_session t') = TS_kCompleted"
    using t' by simp
qed

subsection \<open>Whole transfers\<close>

definition exchange_rounds :: "ConnectionAddress \<Rightarrow> (nat \<Rightarrow> u32) \<Rightarrow> nat \<Rightarrow> exchange \<Rightarrow> exchange" where
  "exchange_rounds conn clk n x = fold (\<lambda>i. exchange_round conn (clk i)) [0..<n] x"

lemma exchange_rounds_Suc:
  "exchange_rounds conn clk (Suc n) x = exchange_round conn (clk n) (exchange_rounds conn clk n x)"
  by (simp add: exchange_rounds_def)

lemma lockstep_rounds:
  assumes "lockstep conn s obj timeout (clk 0) 0 (exchange_rounds conn clk 1 x)"
    and "\<And>i. timeout = 0 \<or> clk (Suc i) - clk i < timeout" and "k \<le> segments s"
  shows "lockstep conn s obj timeout (clk k) k (exchange_rounds conn clk (Suc k) x)"
  using assms(3)
proof (induction k)
  case 0
  show ?case using assms(1) by simp
next
  case (Suc k)
  obtain t b pk ram where y: "exchange_rounds conn clk (Suc k) x = (t, b, pk, ram)" by (metis prod_cases4)
  have l: "lockstep conn s obj timeout (clk k) k (t, b, pk, ram)" using Suc y by simp
  have "lockstep conn s obj timeout (clk (Suc k)) (Suc k) (exchange_round conn (clk (Suc k)) (t, b, pk, ram))"
    using Suc.prems by (intro lockstep_segment [OF l _ assms(2)]) simp
  then show ?case using y by (simp only: exchange_rounds_Suc)
qed

lemma startTransfer_fresh:
  assumes "startTransfer obj z sid isn t = (ST_kStarted, t0)"
  shows "\<not> ts_setup_sent (bt_session t0)" "ts_acknowledged_count (bt_session t0) = 0" "ts_sent_bitmap (bt_session t0) = 0"
    "bt_connection t0 = bt_connection t" "bt_datagram_ingress t0 = bt_datagram_ingress t"
    "bt_datagram_occupied t0 = bt_datagram_occupied t" "bt_transmit_packet t0 = bt_transmit_packet t" "z \<noteq> 0"
  using assms by (auto simp: startTransfer_def resetTransferTracking_def tx_session_def Let_def split: if_splits)

text \<open>A receiver whose slots hold segments of \<open>z\<close> bytes starts idle and willing.\<close>

lemma receiver_init_idle:
  assumes slots: "\<forall>p. Some p \<in> set slots \<longrightarrow> packet_invar p" and d: "packet_invar d" "10 \<le> unat (pb_capacity d)"
    and z: "z \<noteq> 0" "z \<le> ec_maximum_segment_size (receiverEngineConfig slots timeout)"
  shows "rx_idle conn (unat z) (BitsReceiver_init 16 conn slots d timeout)"
    and "re_config (br_engine (BitsReceiver_init 16 conn slots d timeout)) = receiverEngineConfig slots timeout"
    and "ec_receive_window_width (receiverEngineConfig slots timeout) \<noteq> 0"
proof -
  let ?c = "receiverEngineConfig slots timeout"
  have z0: "0 < unat z" "unat z \<le> unat (ec_maximum_segment_size ?c)" using z by (simp_all add: unat_gt_0 word_le_nat_alt)
  then show w: "ec_receive_window_width ?c \<noteq> 0" by (auto simp: receiverEngineConfig_def split: prod.splits)
  then have "0 < length (filter (\<lambda>s. s \<noteq> None) (take 16 slots))"
    using receiverEngineConfig_window [of slots timeout] by (metis neq0_conv unat_eq_0)
  then obtain p where p: "Some p \<in> set (take 16 slots)" by (auto simp: filter_empty_conv)
  then obtain i where i: "i < 16" "i < length slots" "slots ! i = Some p" by (auto simp: in_set_conv_nth)
  have "unat z + 4 \<le> unat (pb_capacity p)" by (rule receiverEngineConfig_fits [OF p z0])
  then show "rx_idle conn (unat z) (BitsReceiver_init 16 conn slots d timeout)"
    using endpoint_init(1) [OF slots d(1)] d(2) i by (auto simp: rx_idle_def BitsReceiver_init_def)
  have "length (filter (\<lambda>s. s \<noteq> None) (take 16 slots)) \<le> 16" by (rule order_trans [OF length_filter_le]) simp
  then show "re_config (br_engine (BitsReceiver_init 16 conn slots d timeout)) = ?c"
    using receiverEngineConfig_window [of slots timeout] by (simp add: BitsReceiver_init_def BitsReceiverEngine_init_def)
qed

end
