(* ===== verification/Bits_Echo.thy ===== *)
theory Bits_Echo
  imports Bits_Ram
begin

section \<open>The RAM echo application\<close>

text \<open>
  \<^verbatim>\<open>examples/arduino-uno/bits_ram_transfer.cpp\<close>: an upload received into RAM is sent back as an
  echo transfer.  The application owns the receiver endpoint, the transmitter, the UART link
  and the packet storage; one pass polls the UART, advances the receiver, starts an echo when
  an object is complete and the transmitter free, and advances the transmitter.

  \<^verbatim>\<open>session_.object\<close> of the transmitter is a span over \<^verbatim>\<open>echo_storage_\<close>; the model keeps its bytes in
  the session, and the invariant says that they are the bytes of the storage while the
  transmitter is busy.
\<close>

subsection \<open>Application\<close>

definition kMaximumBitsPayloadSize :: u16 where "kMaximumBitsPayloadSize = 28"

definition kTransferTiming :: TimingConfig where
  "kTransferTiming = \<lparr>tm_retransmission_timeout_ms = 100, tm_probe_timeout_ms = 250, tm_max_retries = 5\<rparr>"

definition transmitterBusy :: "TransferState \<Rightarrow> bool" where
  "transmitterBusy state \<longleftrightarrow> state = TS_kStarting \<or> state = TS_kActive"

record RamApplication =
  ra_decoder :: HdlcDecoder
  ra_receiver :: BitsReceiver
  ra_receiver_packet :: PacketBuffer
  ra_callbacks :: RamReceiverCallbacks
  ra_transmitter :: BitsTransmitter
  ra_echo_storage :: bytes
  ra_session_id :: u8
  ra_uart_out :: bytes

definition ra_uart_trySend :: "bytes send_fun" where
  "ra_uart_trySend = UartHdlcForwarder_trySend (\<lambda>bs line. line @ bs) (unat kMaximumBitsPayloadSize)"

definition ra_forward :: "PacketBuffer \<Rightarrow> bytes \<Rightarrow> RouteResult \<times> bytes" where
  "ra_forward = Router_forward (demo_Forwarder_forward ra_uart_trySend) kDemoRoutes"

definition ra_receiver_env :: "(PacketBuffer \<times> RamReceiverCallbacks \<times> bytes) EngineEnv" where
  "ra_receiver_env = ram_env kUploadConnection (network_forward ra_forward)"

text \<open>\<^verbatim>\<open>RamTransmitterCallbacks\<close> ignores every event.\<close>

definition ra_transmitter_env :: "bytes TransmitterEnv" where
  "ra_transmitter_env = \<lparr>te_forward = ra_forward, te_onDatagram = (\<lambda>bs w. w),
     te_onTransferComplete = (\<lambda>w. w), te_onTransferRejected = (\<lambda>reason w. w), te_onTransferAborted = (\<lambda>w. w)\<rparr>"

datatype ram_receiver = UploadReceiver | EchoTransmitter

type_synonym ram_endpoints = "BitsReceiver \<times> BitsTransmitter \<times> bytes"

fun ra_receive :: "(ram_receiver, ram_endpoints) receive_fun" where
  "ra_receive UploadReceiver packet (b, t, line) =
     (case BitsReceiver_receive packet b of (r, b1) \<Rightarrow> (r, b1, t, line))"
| "ra_receive EchoTransmitter packet (b, t, line) =
     (case BitsTransmitter_receive packet t of (r, t1) \<Rightarrow> (r, b, t1, line))"

definition ra_dispatch_entries :: "ram_receiver DispatchTableEntry list" where
  "ra_dispatch_entries = [\<lparr>dte_endpoint = kBitsUploadEndpoint, dte_receiver = Some UploadReceiver\<rparr>,
     \<lparr>dte_endpoint = kBitsEchoEndpoint, dte_receiver = Some EchoTransmitter\<rparr>]"

definition ra_domain :: "ram_endpoints DomainContext" where
  "ra_domain = \<lparr>dc_host = kArduinoHostInfo, dc_routes = kDemoRoutes,
     dc_forwarder = demo_Forwarder_forward (\<lambda>packet (b, t, line).
       case ra_uart_trySend packet line of (a, line1) \<Rightarrow> (a, b, t, line1))\<rparr>"

definition ra_deliver :: "PacketBuffer \<Rightarrow> ram_endpoints \<Rightarrow> ram_endpoints" where
  "ra_deliver packet m =
     snd (snd (DomainContext_receive ra_domain packet kUartIngressIndex ra_receive ra_dispatch_entries m))"

definition ra_init :: RamApplication where
  "ra_init = \<lparr>ra_decoder = HdlcDecoder_init (6 + unat kMaximumBitsPayloadSize),
     ra_receiver = BitsReceiver_init 16 kUploadConnection
       [Some (PacketBuffer_new kMaximumBitsPayloadSize), Some (PacketBuffer_new kMaximumBitsPayloadSize)]
       (PacketBuffer_new kMaximumBitsPayloadSize) 5000,
     ra_receiver_packet = PacketBuffer_new kMaximumBitsPayloadSize,
     ra_callbacks = \<lparr>rc_storage = replicate kMaximumObjectSize 0, rc_received_size = 0, rc_object_complete = False\<rparr>,
     ra_transmitter = BitsTransmitter_init kEchoConnection kTransferTiming
       (PacketBuffer_new kMaximumBitsPayloadSize) (PacketBuffer_new kMaximumBitsPayloadSize),
     ra_echo_storage = replicate kMaximumObjectSize 0, ra_session_id = 0x80, ra_uart_out = []\<rparr>"

subsection \<open>One pass\<close>

definition ra_poll_uart :: "bytes \<Rightarrow> RamApplication \<Rightarrow> RamApplication" where
  "ra_poll_uart available a =
     (case UartHdlcReceiver_process ra_deliver kMaximumBitsPayloadSize available
             (ra_decoder a, ra_receiver a, ra_transmitter a, ra_uart_out a) of
        (d, b, t, line) \<Rightarrow> a\<lparr>ra_decoder := d, ra_receiver := b, ra_transmitter := t, ra_uart_out := line\<rparr>)"

definition ra_process_receiver :: "u32 \<Rightarrow> RamApplication \<Rightarrow> RamApplication" where
  "ra_process_receiver now_ms a =
     (case BitsReceiver_process ra_receiver_env now_ms (ra_receiver a) (ra_receiver_packet a, ra_callbacks a, ra_uart_out a) of
        (r, b, pk, c, line) \<Rightarrow>
          a\<lparr>ra_receiver := b, ra_receiver_packet := pk, ra_callbacks := c, ra_uart_out := line\<rparr>)"

definition startEcho :: "bytes \<Rightarrow> u32 \<Rightarrow> RamApplication \<Rightarrow> RamApplication" where
  "startEcho received_object now_ms a =
     (let storage = span_write 0 received_object (ra_echo_storage a);
          echo = take (length received_object) storage;
          sequence = ucast now_ms :: u8
      in case startTransfer echo kSegmentPayloadSize (ra_session_id a) sequence (ra_transmitter a) of
           (result, t) \<Rightarrow>
             let a1 = a\<lparr>ra_echo_storage := storage, ra_transmitter := t\<rparr>
             in if result \<noteq> ST_kStarted then a1
                else a1\<lparr>ra_callbacks := releaseCompletedObject (ra_callbacks a1),
                        ra_session_id := ra_session_id a1 + 1\<rparr>)"

definition ra_process_transmitter :: "u32 \<Rightarrow> RamApplication \<Rightarrow> RamApplication" where
  "ra_process_transmitter now_ms a =
     (case BitsTransmitter_process ra_transmitter_env now_ms (ra_transmitter a) (ra_uart_out a) of
        (r, t, line) \<Rightarrow> a\<lparr>ra_transmitter := t, ra_uart_out := line\<rparr>)"

text \<open>\<^verbatim>\<open>runOnce\<close> with the bytes the UART makes available and the three readings of the clock.\<close>

definition ra_runOnce :: "bytes \<Rightarrow> u32 \<Rightarrow> u32 \<Rightarrow> u32 \<Rightarrow> RamApplication \<Rightarrow> RamApplication" where
  "ra_runOnce available now_receiver now_echo now_transmitter a0 =
     (let a = ra_process_receiver now_receiver (ra_poll_uart available a0);
          a1 = (if rc_object_complete (ra_callbacks a) \<and> \<not> transmitterBusy (ts_state (bt_session (ra_transmitter a)))
                then startEcho (Ram_completedObject (ra_callbacks a)) now_echo a else a)
      in ra_process_transmitter now_transmitter a1)"

subsection \<open>The size of a complete object\<close>

text \<open>Where the segments received so far end.\<close>

definition segments_end :: "Setup \<Rightarrow> nat set \<Rightarrow> nat" where
  "segments_end s R = Max (insert 0 ((\<lambda>i. i * unat (su_segment_size s) + setup_segment_length s i) ` R))"

lemma segments_end_empty [simp]: "segments_end s {} = 0"
  by (simp add: segments_end_def)

lemma segments_end_insert:
  "finite R \<Longrightarrow> segments_end s (insert i R) = max (i * unat (su_segment_size s) + setup_segment_length s i) (segments_end s R)"
  unfolding segments_end_def by (simp add: insert_commute [of 0] max.left_commute)

lemma segments_end_all:
  assumes "setup_valid s"
  shows "segments_end s {..unat (su_final_segment_index s)} = unat (setupTotalSize s)"
proof -
  let ?f = "unat (su_final_segment_index s)" and ?e = "\<lambda>i. i * unat (su_segment_size s) + setup_segment_length s i"
  have "?e ?f = unat (setupTotalSize s)" by (simp add: setup_segment_length_def unat_setupTotalSize)
  moreover have "?e i \<le> unat (setupTotalSize s)" if "i \<le> ?f" for i
    using segment_end_le_total [OF assms that] .
  ultimately show ?thesis
    unfolding segments_end_def by (intro Max_eqI) (auto intro!: image_eqI [of _ _ ?f])
qed

lemma finite_received [simp]: "finite (engine_received e)"
  by (simp add: engine_received_def)

text \<open>
  What ties the callbacks to the engine: a complete object belongs to a completed engine and has
  the announced size; during a transfer the received size is where the received segments end.
\<close>

definition ram_object_ok :: "nat \<Rightarrow> BitsReceiverEngine \<Rightarrow> RamReceiverCallbacks \<Rightarrow> bool" where
  "ram_object_ok n e c \<longleftrightarrow> length (rc_storage c) = n \<and> n < 65536
     \<and> (rc_object_complete c \<longrightarrow> re_state e = TS_kCompleted
          \<and> unat (rc_received_size c) = unat (setupTotalSize (re_setup e)))
     \<and> (re_state e = TS_kActive \<longrightarrow> unat (setupTotalSize (re_setup e)) \<le> length (rc_storage c)
          \<and> unat (rc_received_size c) = segments_end (re_setup e) (engine_received e))"

text \<open>A step that leaves the transfer alone, or ends it and releases the object.\<close>

definition ram_quiet :: "BitsReceiverEngine \<Rightarrow> RamReceiverCallbacks \<Rightarrow> BitsReceiverEngine \<Rightarrow> RamReceiverCallbacks \<Rightarrow> bool" where
  "ram_quiet e c e' c' \<longleftrightarrow> engine_same e e'
     \<and> (re_state e' = re_state e \<and> c' = c
        \<or> re_state e = TS_kActive \<and> re_state e' \<in> {TS_kError, TS_kAborted} \<and> c' = releaseCompletedObject c)"

lemma ram_quiet_refl [simp]: "engine_same e e' \<Longrightarrow> re_state e' = re_state e \<Longrightarrow> ram_quiet e c e' c"
  by (simp add: ram_quiet_def)

lemma ram_quiet_trans: "ram_quiet e c e1 c1 \<Longrightarrow> ram_quiet e1 c1 e2 c2 \<Longrightarrow> ram_quiet e c e2 c2"
  using engine_same_trans [of e e1 e2] by (auto simp: ram_quiet_def)

lemma ram_quiet_ok: "ram_quiet e c e' c' \<Longrightarrow> ram_object_ok n e c \<Longrightarrow> ram_object_ok n e' c'"
  using engine_same_received [of e e']
  by (auto simp: ram_quiet_def ram_object_ok_def engine_same_def releaseCompletedObject_def)

subsection \<open>The callbacks of the RAM receiver\<close>

text \<open>An environment whose callbacks act on one \<^verbatim>\<open>RamReceiverCallbacks\<close> object and whose sends leave it alone.\<close>

locale ram_callbacks =
  fixes env :: "'w EngineEnv" and cb :: "'w \<Rightarrow> RamReceiverCallbacks"
  assumes begin_cb: "ee_beginTransfer env info w = (a, w') \<Longrightarrow> Ram_beginTransfer info (cb w) = (a, cb w')"
    and onSegment_cb: "ee_onSegment env off p w = (r, w') \<Longrightarrow> Ram_onSegment off p (cb w) = (r, cb w')"
    and complete_cb: "cb (ee_onTransferComplete env w) = Ram_onTransferComplete (cb w)"
    and failed_cb: "cb (ee_onTransferFailed env reason w) = releaseCompletedObject (cb w)"
    and aborted_cb: "cb (ee_onTransferAborted env areason w) = releaseCompletedObject (cb w)"
    and datagram_cb: "cb (ee_onDatagram env bs w) = cb w"
    and prepare_cb: "ee_prepare env n w = (st, w') \<Longrightarrow> cb w' = cb w"
    and store_cb: "cb (ee_store env bs w) = cb w"
    and send_cb: "ee_sendPrepared env w = (sr, w') \<Longrightarrow> cb w' = cb w"
begin

lemma fail_quiet: "engine_fail env r e w = (e', w') \<Longrightarrow> ram_quiet e (cb w) e' (cb w')"
  using engine_fail_same [of e env r w]
  by (auto simp: engine_fail_def ram_quiet_def failed_cb split: if_splits)

lemma fail_quiet': "ram_quiet e (cb w) (fst (engine_fail env r e w)) (cb (snd (engine_fail env r e w)))"
  by (rule fail_quiet) simp

lemma sendPrepared_quiet: "engine_sendPrepared env e w = (r, e', w') \<Longrightarrow> ram_quiet e (cb w) e' (cb w')"
  by (auto simp: engine_sendPrepared_def send_cb split: prod.splits)

lemma sendAck_quiet:
  assumes "engine_sendAck env e w = (r, e', w')"
  shows "ram_quiet e (cb w) e' (cb w')"
proof -
  obtain st w1 where p: "ee_prepare env (of_nat kAckSize) w = (st, w1)" by fastforce
  obtain ok st1 where k: "engine_ack_storage (ee_max_window env) e st = (ok, st1)" by fastforce
  obtain sent e3 w3 where s: "engine_sendPrepared env e (ee_store env st1 w1) = (sent, e3, w3)" by (metis prod_cases3)
  have q: "ram_quiet e (cb w) e3 (cb w3)"
    using sendPrepared_quiet [OF s] prepare_cb [OF p] by (simp add: store_cb)
  let ?x = "e\<lparr>re_last_send := SR_kTooLarge\<rparr>"
  have f: "ram_quiet e (cb w) e' (cb w')" if "cb v = cb w" "engine_fail env FR_kSendFailed ?x v = (e', w')" for v
    using ram_quiet_trans [OF ram_quiet_refl fail_quiet [OF that(2)], of e] that(1) by simp
  show ?thesis
    using assms p k s q f [of w1] f [of "ee_store env st1 w1"] prepare_cb [OF p]
      ram_quiet_trans [OF q fail_quiet' [of e3 w3 FR_kSendFailed]]
    by (auto simp: engine_sendAck_def store_cb Let_def split: if_splits)
qed

text \<open>An accepted segment extends the object; the last one completes it.\<close>

lemma accepted_size:
  assumes "Ram_onSegment (of_nat (i * z)) p c = (True, c')" and "i * z + length p \<le> n"
    and "n \<le> length (rc_storage c)" and "length (rc_storage c) < 65536"
  shows "unat (rc_received_size c') = max (i * z + length p) (unat (rc_received_size c))"
    and "length (rc_storage c') = length (rc_storage c)" and "rc_object_complete c' = rc_object_complete c"
proof -
  let ?n = "i * z + length p"
  have o: "(of_nat (i * z) :: u32) + of_nat (length p) = of_nat ?n" by simp
  have "unat (ucast (of_nat k :: u32) :: u16) = k" if "k < 65536" for k
    using that by (simp add: unsigned_ucast_eq take_bit_nat_eq_self unat_of_nat)
  then have "unat (ucast (of_nat ?n :: u32) :: u16) = ?n" using assms(2-4) by (meson le_less_trans)
  then show "unat (rc_received_size c') = max ?n (unat (rc_received_size c))"
    using assms(1) unfolding Ram_onSegment_def o by (auto simp: Let_def word_less_nat_alt split: if_splits)
  have "unat (of_nat (i * z) :: u32) \<le> i * z" by (simp add: unat_of_nat take_bit_nat_less_eq_self del: of_nat_mult)
  then have "unat (of_nat (i * z) :: u32) + length p < 2 ^ 32" using assms(2-4) by simp
  from Ram_onSegment_cases(2) [OF assms(1) TrueI this]
  show "length (rc_storage c') = length (rc_storage c)" by simp
  show "rc_object_complete c' = rc_object_complete c"
    using assms(1) unfolding Ram_onSegment_def o by (auto simp: Let_def split: if_splits)
qed

lemma sendReject_quiet: "engine_sendReject env sid rr e w = (r, e', w') \<Longrightarrow> ram_quiet e (cb w) e' (cb w')"
  by (auto simp: engine_sendReject_def engine_sendPrepared_def store_cb prepare_cb send_cb Let_def
      split: if_splits prod.splits)

lemma sendAbort_quiet: "engine_sendAbort env e w = (r, e', w') \<Longrightarrow> ram_quiet e (cb w) e' (cb w')"
  by (auto simp: engine_sendAbort_def engine_sendPrepared_def store_cb prepare_cb send_cb Let_def
      split: if_splits prod.splits)

lemma poll_quiet: "engine_poll env now e w = (r, e', w') \<Longrightarrow> ram_quiet e (cb w) e' (cb w')"
  by (auto simp: engine_poll_def dest: fail_quiet split: if_splits)

lemma handleControl_quiet:
  assumes "t \<noteq> MT_kSetup" and "handleControl env message t now e w = (r, e', w')"
  shows "ram_quiet e (cb w) e' (cb w')"
proof -
  have "ram_quiet e (cb w) e' (cb w')" if "handleProbe env message now e w = (r, e', w')"
    using that sendAck_quiet [of "e\<lparr>re_last_activity_ms := now\<rparr>" w r e' w']
      ram_quiet_trans [OF ram_quiet_refl, of e "e\<lparr>re_last_activity_ms := now\<rparr>"]
    by (auto simp: handleProbe_def split: option.splits if_splits)
  moreover have "ram_quiet e (cb w) e' (cb w')" if "handleAbort env message e w = (r, e', w')"
    using that by (auto simp: handleAbort_def ram_quiet_def engine_same_def aborted_cb split: option.splits if_splits)
  ultimately show ?thesis
    using assms by (cases t) (auto simp: datagram_cb split: option.splits)
qed

lemma accept_object_ok:
  assumes acc: "engine_accept_segment env sb p e1 w1 = (r, e', w')" and st: "re_state e1 = TS_kActive"
    and inv: "engine_invar m e'" and c: "\<not> rc_object_complete (cb w1)" "length (rc_storage (cb w1)) = n" "n < 65536"
      "unat (setupTotalSize (re_setup e')) \<le> length (rc_storage (cb w1))"
      "unat (rc_received_size (cb w1)) = segments_end (re_setup e') (engine_received e')"
  shows "ram_object_ok n e' (cb w')"
proof -
  define e2 where "e2 = engine_advance (ee_max_window env) sb p e1"
  have st2: "re_state e2 = TS_kActive" using st by (simp add: e2_def)
  show ?thesis
  proof (cases "re_contiguous_count e2 = re_segment_count e2")
    case True
    then have "ram_quiet (e2\<lparr>re_state := TS_kCompleted\<rparr>) (Ram_onTransferComplete (cb w1)) e' (cb w')"
      using acc sendAck_quiet [of "e2\<lparr>re_state := TS_kCompleted\<rparr>" "ee_onTransferComplete env w1"]
      by (auto simp: engine_accept_segment_def e2_def [symmetric] complete_cb)
    then have q: "re_state e' = TS_kCompleted" "cb w' = Ram_onTransferComplete (cb w1)" by (auto simp: ram_quiet_def)
    have "engine_received e' = {..unat (su_final_segment_index (re_setup e'))}"
      using completed_iff_all_received [OF inv] q(1) by simp
    moreover have "setup_valid (re_setup e')" using inv q(1) by (simp add: engine_invar_def window_invar_def)
    ultimately show ?thesis
      using q c segments_end_all by (simp add: ram_object_ok_def Ram_onTransferComplete_def)
  next
    case False
    then have "ram_quiet e2 (cb w1) e' (cb w')"
      using acc sendAck_quiet [of e2 w1] by (auto simp: engine_accept_segment_def e2_def [symmetric])
    then show ?thesis
      using c st2 by (auto simp: ram_quiet_def ram_object_ok_def releaseCompletedObject_def)
  qed
qed

lemma handleSegment_object_ok:
  assumes inv: "engine_invar (ee_max_window env) e" and ok: "ram_object_ok n e (cb w)"
    and h: "handleSegment env message now e w = (r, e', w')"
  shows "ram_object_ok n e' (cb w')"
  using inv h
proof (cases rule: handleSegment_cases)
  case ignored
  then show ?thesis using ok by simp
next
  case (acked e1)
  then show ?thesis using ok ram_quiet_ok ram_quiet_trans [OF ram_quiet_refl sendAck_quiet] by blast
next
  case (refused e1 off p w1)
  then have "cb w1 = cb w" using onSegment_cb Ram_onSegment_cases(1) by blast
  then show ?thesis
    using refused(1,4) ok ram_quiet_ok ram_quiet_trans [OF ram_quiet_refl fail_quiet [OF refused(3)]] by metis
next
  case (accepted hdr w1 e1)
  let ?s = "re_setup e" and ?i = "unat (sh_segment_index hdr)"
  have v: "setup_valid ?s" using inv accepted(3) by (simp add: engine_invar_def window_invar_def)
  have o: "length (rc_storage (cb w)) < 65536" "unat (setupTotalSize ?s) \<le> length (rc_storage (cb w))"
    "length (rc_storage (cb w)) = n"
    "unat (rc_received_size (cb w)) = segments_end ?s (engine_received e)" "\<not> rc_object_complete (cb w)"
    using ok accepted(3) by (auto simp: ram_object_ok_def)
  note sz = accepted_size [OF onSegment_cb [OF accepted(7)] _ o(2,1)]
  have le: "?i * unat (su_segment_size ?s) + length (drop 4 message) \<le> unat (setupTotalSize ?s)"
    using segment_end_le_total [OF v accepted(4)] accepted(6) by simp
  from accepted(11) obtain sb where acc: "engine_accept_segment env sb (drop 4 message) e1 w1 = (r, e', w')" ..
  show ?thesis
    using sz [OF le] o accepted(3,6,9,10,13)
    by (intro accept_object_ok [OF acc _ accepted(8)]) (simp_all add: segments_end_insert)
qed

lemma handleSetup_object_ok:
  assumes inv: "engine_invar (ee_max_window env) e" and ok: "ram_object_ok n e (cb w)"
    and h: "handleSetup env message now e w = (r, e', w')"
  shows "ram_object_ok n e' (cb w')"
  using inv h
proof (cases rule: handleSetup_cases)
  case ignored
  then show ?thesis using ok by simp
next
  case (acked e1)
  then show ?thesis using ok ram_quiet_ok ram_quiet_trans [OF ram_quiet_refl sendAck_quiet] by blast
next
  case (rejected sid rr)
  then show ?thesis using ok ram_quiet_ok sendReject_quiet by blast
next
  case (refused info a w1 sid rr)
  then have "cb w1 = cb w" using begin_cb [OF refused(1)] by (auto simp: Ram_beginTransfer_def split: if_splits)
  then show ?thesis using ok ram_quiet_ok sendReject_quiet [OF refused(3)] by metis
next
  case (begun s w1)
  let ?b = "engine_begin (ee_max_window env) s now e"
  have "cb w1 = (cb w)\<lparr>rc_received_size := 0\<rparr>" "\<not> rc_object_complete (cb w)"
    "unat (setupTotalSize s) \<le> length (rc_storage (cb w))"
    using begin_cb [OF begun(3)] by (auto simp: Ram_beginTransfer_def split: if_splits)
  then have "ram_object_ok n ?b (cb w1)"
    using engine_begin_step [OF inv begun(6,5), of now] ok by (simp add: ram_object_ok_def)
  then show ?thesis using ram_quiet_ok [OF sendAck_quiet [OF begun(4)]] by blast
qed

lemma process_object_ok:
  assumes inv: "engine_invar (ee_max_window env) e" and ok: "ram_object_ok n e (cb w)"
    and p: "engine_process env message now e w = (r, e', w')"
  shows "ram_object_ok n e' (cb w')"
proof -
  obtain r0 e0 w0 where p0: "engine_poll env now e w = (r0, e0, w0)" by (metis prod_cases3)
  let ?e1 = "e0\<lparr>re_last_send := SR_kSent\<rparr>"
  have inv1: "engine_invar (ee_max_window env) ?e1"
    using engine_same_invar [OF _ inv] engine_poll_same [of e env now w] p0 by simp
  have ok0: "ram_object_ok n e0 (cb w0)" using ram_quiet_ok [OF poll_quiet [OF p0] ok] .
  then have ok1: "ram_object_ok n ?e1 (cb w0)" by (rule ram_quiet_ok [OF ram_quiet_refl, rotated 2]) simp_all
  have "ram_object_ok n e2 (cb w2)" if "engine_handle env message t now ?e1 w0 = (k, e2, w2)" for t k e2 w2
    using that handleSegment_object_ok [OF inv1 ok1] handleSetup_object_ok [OF inv1 ok1]
      ram_quiet_ok [OF handleControl_quiet ok1]
    by (cases "t = MT_kSetup") (auto simp: engine_handle_def split: if_splits)
  then show ?thesis
    using p p0 ok0 ok1 by (auto simp: engine_process_def Let_def split: option.splits prod.splits if_splits)
qed

text \<open>The endpoint over such callbacks, whatever it receives.\<close>

definition receiver_ok :: "nat \<Rightarrow> BitsReceiver \<Rightarrow> 'w \<Rightarrow> bool" where
  "receiver_ok n b w \<longleftrightarrow> endpoint_invar b \<and> engine_invar (ee_max_window env) (br_engine b)
     \<and> ram_object_ok n (br_engine b) (cb w)"

lemma receive_receiver_ok:
  "receiver_ok n b w \<Longrightarrow> packet_invar p \<Longrightarrow> receiver_ok n (snd (BitsReceiver_receive p b)) w"
  using BitsReceiver_receive_spec(1,2) [of b p "fst (BitsReceiver_receive p b)" "snd (BitsReceiver_receive p b)"]
  by (simp add: receiver_ok_def)

lemma engine_process_ok:
  assumes "receiver_ok n b w" and "engine_process env message now (br_engine b) w = (r, e', w')"
  shows "engine_invar (ee_max_window env) e'" and "ram_object_ok n e' (cb w')"
proof -
  have ok: "engine_invar (ee_max_window env) (br_engine b)" "ram_object_ok n (br_engine b) (cb w)"
    using assms(1) by (simp_all add: receiver_ok_def)
  show "ram_object_ok n e' (cb w')" by (rule process_object_ok [OF ok assms(2)])
  show "engine_invar (ee_max_window env) e'" using engine_process_invar [OF ok(1), of message now w] assms(2) by simp
qed

lemma process_segment_receiver_ok:
  assumes "receiver_ok n b w" and "BitsReceiver_process_segment env now b w = (r, b', w')"
  shows "receiver_ok n b' w'"
proof (cases "br_segment_occupied_mask b = 0")
  case True
  then show ?thesis using assms by (simp add: BitsReceiver_process_segment_def)
next
  case False
  from first_occupied_some [OF False] obtain i where
    i: "BitsReceiver_first_occupied (br_segment_occupied_mask b) [0..<16] = Some i" by blast
  obtain r1 e1 w1 where e: "engine_process env (slot_message (br_segment_ingress b) i) now (br_engine b) w
      = (r1, e1, w1)" by (metis prod_cases3)
  have "br_engine b' = e1" "w' = w1"
    using assms(2) False i e by (auto simp: BitsReceiver_process_segment_def kCompactWindowWidth_def)
  then show ?thesis
    using engine_process_ok [OF assms(1) e] process_segment_pending [OF _ assms(2)] assms(1)
    by (simp add: receiver_ok_def)
qed

lemma process_datagram_receiver_ok:
  assumes "receiver_ok n b w" and "BitsReceiver_process_datagram env now r0 b w = (r, b', w')"
  shows "receiver_ok n b' w'"
proof (cases "br_datagram_occupied b")
  case False
  then show ?thesis using assms by (simp add: BitsReceiver_process_datagram_def)
next
  case True
  obtain r1 e1 w1 where e: "engine_process env (payload (br_datagram_ingress b)) now (br_engine b) w
      = (r1, e1, w1)" by (metis prod_cases3)
  have "br_engine b' = e1" "w' = w1" using assms(2) True e by (auto simp: BitsReceiver_process_datagram_def)
  then show ?thesis
    using engine_process_ok [OF assms(1) e] process_datagram_pending [OF _ assms(2)] assms(1)
    by (simp add: receiver_ok_def)
qed

lemma process_receiver_ok:
  assumes ok: "receiver_ok n b w" and p: "BitsReceiver_process env now b w = (r, b', w')"
  shows "receiver_ok n b' w'"
proof -
  obtain r0 e0 w0 where p0: "engine_poll env now (br_engine b) w = (r0, e0, w0)" by (metis prod_cases3)
  have "engine_invar (ee_max_window env) e0" "ram_object_ok n e0 (cb w0)"
    using ok p0 engine_same_invar [OF engine_poll_same, of "ee_max_window env" "br_engine b" env now w]
      ram_quiet_ok [OF poll_quiet [OF p0]] by (auto simp: receiver_ok_def)
  then have ok0: "receiver_ok n (b\<lparr>br_engine := e0\<rparr>) w0"
    and clear: "receiver_ok n (b\<lparr>br_engine := e0, br_segment_occupied_mask := 0, br_datagram_occupied := False\<rparr>) w0"
    using ok by (simp_all add: receiver_ok_def endpoint_invar_def)
  show ?thesis
    using p p0 clear process_datagram_receiver_ok [OF process_segment_receiver_ok [OF ok0]]
    by (auto simp: BitsReceiver_process_def split: if_splits prod.splits)
qed

end

interpretation ram_cbs: ram_callbacks "ram_env conn (network_forward forward)" "\<lambda>w. fst (snd w)"
  for conn and forward :: "PacketBuffer \<Rightarrow> 'n \<Rightarrow> RouteResult \<times> 'n"
  by unfold_locales (auto simp: ram_env_def endpoint_env_def on_ram_def BitsReceiver_prepare_def
      BitsReceiver_sendPrepared_def network_forward_def split: prod.splits bool.splits)


interpretation ra: ram_callbacks ra_receiver_env "\<lambda>w. fst (snd w)"
  unfolding ra_receiver_env_def by (rule ram_cbs.ram_callbacks_axioms)

interpretation ra_sink: object_sink ra_receiver_env "\<lambda>w. rc_storage (fst (snd w))" 0
  unfolding ra_receiver_env_def by (rule ram_sink.object_sink_axioms)

lemma ra_window [simp]: "ee_max_window ra_receiver_env = 16"
  by (simp add: ra_receiver_env_def ram_env_def endpoint_env_def)

subsection \<open>Delivery\<close>

text \<open>A packet from the UART is never sent back; at most the receiver of its endpoint takes it.\<close>

lemma ra_deliver_cases:
  obtains (ignored) "ra_deliver p (b, t, line) = (b, t, line)"
  | (upload) "h_endpoint (pb_header p) = kBitsUploadEndpoint"
      "ra_deliver p (b, t, line) = (snd (BitsReceiver_receive (setIngressIndex 1 p) b), t, line)"
  | (echo) "h_endpoint (pb_header p) = kBitsEchoEndpoint"
      "ra_deliver p (b, t, line) = (b, snd (BitsTransmitter_receive (setIngressIndex 1 p) t), line)"
proof -
  let ?p = "setIngressIndex 1 p" and ?m = "(b, t, line)"
  have h: "pb_header ?p = pb_header p" by (simp add: setIngressIndex_def)
  have f: "snd (Router_forward (dc_forwarder ra_domain) (dc_routes ra_domain) ?p ?m) = ?m"
    by (cases "kTestWire = h_wire (pb_header p)")
      (simp_all add: Router_forward_ingress [where i = 1] setIngressIndex_def ra_domain_def kDemoRoutes_def
        route_of_def kUartEgress_def)
  have d: "ra_deliver p ?m = ?m \<or> ra_deliver p ?m = snd (dispatch ra_receive ra_dispatch_entries ?p kArduinoHostInfo ?m)"
    using f by (auto simp: ra_deliver_def DomainContext_receive_def Router_receive_def kUartIngressIndex_def Let_def
        ra_domain_def split_def)
  have ne: "kBitsUploadEndpoint \<noteq> kBitsEchoEndpoint"
    by (simp add: kBitsUploadEndpoint_def kBitsEchoEndpoint_def EndpointAddress_from_def)
  show thesis
    using d ignored upload echo ne
    by (auto simp: dispatch_def ra_dispatch_entries_def h Let_def split_def split: if_splits)
qed

end
