(* ===== verification/Bits_Echo_Invariant.thy ===== *)
theory Bits_Echo_Invariant
  imports Bits_Echo
begin

section \<open>Correctness of the RAM echo application\<close>

text \<open>
  The invariant of the whole application, kept by every pass whatever arrives on the UART; that
  the echo carries the bytes of the upload; and that a complete object is always echoed.
\<close>

subsection \<open>Transmit capacity and connection\<close>

text \<open>
  No operation of the transmitter exchanges its transmit packet for one of another capacity,
  or turns to another connection.
\<close>

definition tx_capacity :: "BitsTransmitter \<Rightarrow> u16" where
  "tx_capacity t = pb_capacity (bt_transmit_packet t)"

abbreviation tx_kept :: "BitsTransmitter \<Rightarrow> BitsTransmitter \<Rightarrow> bool" where
  "tx_kept t t' \<equiv> tx_capacity t' = tx_capacity t \<and> bt_connection t' = bt_connection t"

named_theorems tx_capacities

lemma tx_capacity_fields [simp]:
  "tx_capacity (tx_session f t) = tx_capacity t"
  "tx_capacity (t\<lparr>bt_last_send := r\<rparr>) = tx_capacity t"
  "tx_capacity (t\<lparr>bt_session := x\<rparr>) = tx_capacity t"
  "tx_capacity (t\<lparr>bt_datagram_occupied := b\<rparr>) = tx_capacity t"
  "tx_capacity (t\<lparr>bt_datagram_ingress := d\<rparr>) = tx_capacity t"
  "tx_capacity (t\<lparr>bt_transmit_packet := p\<rparr>) = pb_capacity p"
  "bt_connection (tx_session f t) = bt_connection t"
  by (simp_all add: tx_capacity_def tx_session_def)

lemmas tx_capacity_fold = tx_capacity_def [symmetric]

lemma preparePacket_capacity [tx_capacities]: "preparePacket n q t = (r, t') \<Longrightarrow> tx_kept t t'"
  using initializeConnection_capacity [of n "bt_connection t" "ControlFields_bits q" "bt_transmit_packet t"]
  by (auto simp: preparePacket_def tx_capacity_def split: prod.splits)

lemma forwardPacket_capacity [tx_capacities]: "forwardPacket env t w = (r, t', w') \<Longrightarrow> tx_kept t t'"
  by (auto simp: forwardPacket_def split: prod.splits)

lemma send_message_capacity [tx_capacities]:
  "tx_send_message env n q encode t w = (r, t', w') \<Longrightarrow> tx_kept t t'"
  by (auto simp: tx_send_message_def Let_def tx_capacity_fold dest!: tx_capacities split: prod.splits bool.splits if_splits)

lemma sendSetup_capacity [tx_capacities]: "tx_sendSetup env now re t w = (r, t', w') \<Longrightarrow> tx_kept t t'"
  by (auto simp: tx_sendSetup_def dest: tx_capacities split: prod.splits bool.splits)

lemma sendProbe_capacity [tx_capacities]: "tx_sendProbe env now t w = (r, t', w') \<Longrightarrow> tx_kept t t'"
  by (auto simp: tx_sendProbe_def dest: tx_capacities split: prod.splits bool.splits)

lemma sendAbort_capacity [tx_capacities]: "tx_sendAbort env t w = (r, t', w') \<Longrightarrow> tx_kept t t'"
  by (auto simp: tx_sendAbort_def dest: tx_capacities)

lemma sendSegment_capacity [tx_capacities]:
  "tx_sendSegment env off now re t w = (r, t', w') \<Longrightarrow> tx_kept t t'"
  by (auto simp: tx_sendSegment_def Let_def tx_capacity_fold dest!: tx_capacities split: prod.splits bool.splits if_splits)

lemma transitionToAborted_capacity [tx_capacities]:
  "transitionToAborted env t w = (t', w') \<Longrightarrow> tx_kept t t'"
  by (auto simp: transitionToAborted_def split: if_splits)

lemma attempt_capacity [tx_capacities]: "tx_attempt (sent, t, w) = (r, t', w') \<Longrightarrow> tx_kept t t'"
  by (auto simp: tx_attempt_def tx_error_def split: if_splits)

lemma give_up_capacity [tx_capacities]: "tx_give_up env t w = (r, t', w') \<Longrightarrow> tx_kept t t'"
  by (auto simp: tx_give_up_def dest!: tx_capacities split: prod.splits)

lemma attempt_of_capacity:
  assumes "\<And>r t1 w1. a = (r, t1, w1) \<Longrightarrow> tx_kept t t1" and "tx_attempt a = (r, t', w')"
  shows "tx_kept t t'"
  using assms attempt_capacity by (cases a) fastforce

lemma process_starting_capacity [tx_capacities]:
  "tx_process_starting env now pr t w = (r, t', w') \<Longrightarrow> tx_kept t t'"
  by (auto simp: tx_process_starting_def Let_def dest: tx_capacities attempt_of_capacity [rotated] split: if_splits)

lemma process_probe_capacity [tx_capacities]:
  "tx_process_probe env now pr t w = (r, t', w') \<Longrightarrow> tx_kept t t'"
  by (auto simp: tx_process_probe_def Let_def dest: tx_capacities attempt_of_capacity [rotated] split: if_splits)

lemma process_active_capacity [tx_capacities]:
  "tx_process_active env now pr t w = (r, t', w') \<Longrightarrow> tx_kept t t'"
  by (auto simp: tx_process_active_def Let_def dest: tx_capacities attempt_of_capacity [rotated]
      split: if_splits option.splits)

lemma handleDatagram_capacity [tx_capacities]:
  assumes "tx_handleDatagram env t w = (r, t', w')"
  shows "tx_kept t t'"
proof -
  have "tx_kept t t'" if "tx_handleAck env m t w = (r, t', w')" for m
    using that by (auto simp: tx_handleAck_def Let_def split: option.splits if_splits)
  moreover have "tx_kept t t'" if "tx_handleReject env m t w = (r, t', w')" for m
    using that by (auto simp: tx_handleReject_def split: option.splits if_splits)
  moreover have "tx_kept t t'" if "tx_handleAbort env m t w = (r, t', w')" for m
    using that by (auto simp: tx_handleAbort_def dest: tx_capacities split: option.splits if_splits)
  ultimately show ?thesis
    using assms by (auto simp: tx_handleDatagram_def Let_def split: option.splits if_splits MessageType.splits)
qed

lemma process_capacity [tx_capacities]:
  "BitsTransmitter_process env now t w = (r, t', w') \<Longrightarrow> tx_kept t t'"
  by (auto simp: BitsTransmitter_process_def Let_def tx_error_def dest!: tx_capacities
      split: prod.splits if_splits bool.splits)

lemma receive_capacity [simp]: "tx_capacity (snd (BitsTransmitter_receive packet t)) = tx_capacity t"
  "bt_connection (snd (BitsTransmitter_receive packet t)) = bt_connection t"
  by (auto simp: BitsTransmitter_receive_def split: option.splits prod.splits bool.splits)

subsection \<open>The invariant of the application\<close>

text \<open>
  Kept by every pass, whatever the bytes from the UART and the clock: the receiver and its
  object are consistent, the transmitter keeps its invariant and its packet size, and the object
  it is sending is what the echo storage holds.
\<close>

definition ra_invar :: "RamApplication \<Rightarrow> bool" where
  "ra_invar a \<longleftrightarrow>
     ra.receiver_ok kMaximumObjectSize (ra_receiver a) (ra_receiver_packet a, ra_callbacks a, ra_uart_out a)
     \<and> tx_invar (ra_transmitter a) \<and> tx_capacity (ra_transmitter a) = kMaximumBitsPayloadSize
     \<and> bt_connection (ra_transmitter a) = kEchoConnection
     \<and> length (ra_echo_storage a) = kMaximumObjectSize
     \<and> ts_object (bt_session (ra_transmitter a))
         = take (length (ts_object (bt_session (ra_transmitter a)))) (ra_echo_storage a)"

lemma ra_invar_init: "ra_invar ra_init"
proof -
  have p: "packet_invar (PacketBuffer_new kMaximumBitsPayloadSize)" by (rule packet_invar_new)
  have "tx_capacity (ra_transmitter ra_init) = kMaximumBitsPayloadSize"
    by (simp add: ra_init_def tx_capacity_def BitsTransmitter_init_def PacketBuffer_new_def)
  moreover have "tx_invar (ra_transmitter ra_init)" by (simp add: ra_init_def tx_invar_init p)
  moreover have "ra.receiver_ok kMaximumObjectSize (ra_receiver ra_init)
      (ra_receiver_packet ra_init, ra_callbacks ra_init, ra_uart_out ra_init)"
  proof -
    let ?slots = "[Some (PacketBuffer_new kMaximumBitsPayloadSize), Some (PacketBuffer_new kMaximumBitsPayloadSize)]"
    have "endpoint_invar (ra_receiver ra_init)" unfolding ra_init_def by (auto intro!: endpoint_init(1) p)
    moreover have "engine_invar 16 (br_engine (ra_receiver ra_init))"
      using engine_invar_init [of 16 "receiverEngineConfig ?slots 5000"] by (simp add: ra_init_def BitsReceiver_init_def)
    moreover have "re_state (br_engine (ra_receiver ra_init)) = TS_kIdle"
      by (simp add: ra_init_def BitsReceiver_init_def BitsReceiverEngine_init_def)
    ultimately show ?thesis
      by (simp add: ra.receiver_ok_def ram_object_ok_def) (simp add: ra_init_def kMaximumObjectSize_def)
  qed
  ultimately show ?thesis
    by (simp add: ra_invar_def ra_init_def BitsTransmitter_init_def TransferSession_init_def)
qed

text \<open>The transmitter, with what its session is about.\<close>

definition tx_echoes :: "bytes \<Rightarrow> BitsTransmitter \<Rightarrow> bool" where
  "tx_echoes obj t \<longleftrightarrow> tx_invar t \<and> tx_capacity t = kMaximumBitsPayloadSize
     \<and> bt_connection t = kEchoConnection \<and> ts_object (bt_session t) = obj"

lemma unlogged_ok: "unlogged.tx_ok s obj t w \<longleftrightarrow> tx_invar t \<and> ts_setup (bt_session t) = s \<and> ts_object (bt_session t) = obj"
  by (simp add: unlogged.tx_ok_def unlogged.log_ok_def)

lemma tx_echoes_receive:
  "tx_echoes obj t \<Longrightarrow> packet_invar p \<Longrightarrow> tx_echoes obj (snd (BitsTransmitter_receive p t))"
  using unlogged.receive_ok [of "ts_setup (bt_session t)" obj t "()" p] by (simp add: tx_echoes_def unlogged_ok)

lemma tx_echoes_process:
  "tx_echoes obj t \<Longrightarrow> BitsTransmitter_process env now t w = (r, t', w') \<Longrightarrow> tx_echoes obj t'"
  using unlogged.process_ok [of "ts_setup (bt_session t)" obj t w env now r t' w'] process_capacity [of env now t w r t' w']
  by (simp add: tx_echoes_def unlogged_ok)

lemma ra_invar_echoes:
  "ra_invar a \<longleftrightarrow> ra.receiver_ok kMaximumObjectSize (ra_receiver a) (ra_receiver_packet a, ra_callbacks a, ra_uart_out a)
     \<and> length (ra_echo_storage a) = kMaximumObjectSize
     \<and> (\<exists>k. tx_echoes (take k (ra_echo_storage a)) (ra_transmitter a))"
proof -
  have "x = take (length x) y \<longleftrightarrow> (\<exists>k. x = take k y)" for x y :: bytes
    by (metis length_take min.commute take_take take_all nat_le_linear min_def)
  then show ?thesis by (auto simp: ra_invar_def tx_echoes_def)
qed

lemma receiver_ok_line: "ra.receiver_ok n b (pk, c, line) \<Longrightarrow> ra.receiver_ok n b (pk', c, line')"
  by (simp add: ra.receiver_ok_def)

lemma setIngressIndex_invar: "packet_invar p \<Longrightarrow> packet_invar (setIngressIndex i p)"
  by (simp add: packet_invar_def setIngressIndex_def)

lemma ra_poll_uart_invar:
  assumes inv: "ra_invar a"
  shows "ra_invar (ra_poll_uart bs a)"
proof -
  obtain k where k: "tx_echoes (take k (ra_echo_storage a)) (ra_transmitter a)" using inv by (auto simp: ra_invar_echoes)
  let ?ok = "\<lambda>(b, t, line). ra.receiver_ok kMaximumObjectSize b (ra_receiver_packet a, ra_callbacks a, line)
      \<and> tx_echoes (take k (ra_echo_storage a)) t"
  have step: "?ok (ra_deliver p m)" if f: "uart_frame_packet c frame = Some p" and ok: "?ok m" for c frame p m
  proof -
    obtain b t line where m: "m = (b, t, line)" by (cases m)
    have pk: "packet_invar (setIngressIndex 1 p)" using uart_frame_packet_fits(1) [OF f] by (rule setIngressIndex_invar)
    show ?thesis
      using ok ra.receive_receiver_ok [OF _ pk] tx_echoes_receive [OF _ pk]
      by (rule_tac p = p and b = b and t = t and line = line in ra_deliver_cases) (simp_all add: m)
  qed
  have "?ok (snd (UartHdlcReceiver_process ra_deliver kMaximumBitsPayloadSize bs
      (ra_decoder a, ra_receiver a, ra_transmitter a, ra_uart_out a)))"
    by (rule process_keeps [where P = ?ok]) (use step inv k in \<open>auto simp: ra_invar_echoes\<close>)
  then show ?thesis
    using inv by (auto simp: ra_poll_uart_def ra_invar_echoes split: prod.splits)
qed

lemma ra_process_receiver_invar:
  assumes inv: "ra_invar a"
  shows "ra_invar (ra_process_receiver now a)"
proof -
  obtain r b pk c line where p: "BitsReceiver_process ra_receiver_env now (ra_receiver a)
      (ra_receiver_packet a, ra_callbacks a, ra_uart_out a) = (r, b, pk, c, line)" by (metis prod_cases5)
  show ?thesis using ra.process_receiver_ok [OF _ p] inv p by (simp add: ra_invar_echoes ra_process_receiver_def)
qed

lemma ra_process_transmitter_invar:
  assumes inv: "ra_invar a"
  shows "ra_invar (ra_process_transmitter now a)"
proof -
  obtain r t line where p: "BitsTransmitter_process ra_transmitter_env now (ra_transmitter a) (ra_uart_out a) = (r, t, line)"
    by (metis prod_cases3)
  show ?thesis
    using tx_echoes_process [OF _ p] inv receiver_ok_line p by (auto simp: ra_invar_echoes ra_process_transmitter_def)
qed

text \<open>A complete object always fits the echo: \<^verbatim>\<open>startTransfer\<close> is called only with arguments it takes.\<close>

lemma completed_object_size:
  assumes inv: "ra_invar a" and c: "rc_object_complete (ra_callbacks a)"
  defines "obj \<equiv> Ram_completedObject (ra_callbacks a)"
  shows "obj \<noteq> []" and "length obj \<le> kMaximumObjectSize"
    and "obj = take (unat (setupTotalSize (re_setup (br_engine (ra_receiver a))))) (rc_storage (ra_callbacks a))"
proof -
  let ?e = "br_engine (ra_receiver a)"
  have o: "ram_object_ok kMaximumObjectSize ?e (ra_callbacks a)" and e: "engine_invar 16 ?e"
    using inv by (simp_all add: ra_invar_def ra.receiver_ok_def)
  have st: "re_state ?e = TS_kCompleted" "unat (rc_received_size (ra_callbacks a)) = unat (setupTotalSize (re_setup ?e))"
    "length (rc_storage (ra_callbacks a)) = kMaximumObjectSize"
    using o c by (simp_all add: ram_object_ok_def)
  show obj: "obj = take (unat (setupTotalSize (re_setup ?e))) (rc_storage (ra_callbacks a))"
    using c st by (simp add: obj_def Ram_completedObject_def)
  then show "length obj \<le> kMaximumObjectSize" using st by simp
  have "setup_valid (re_setup ?e)" using e st by (simp add: engine_invar_def window_invar_def)
  then have "0 < unat (setupTotalSize (re_setup ?e))"
    by (auto simp: setup_valid_def unat_setupTotalSize word_less_nat_alt)
  then show "obj \<noteq> []" using obj st(3) by (simp add: kMaximumObjectSize_def) (metis length_greater_0_conv list.size(3) zero_neq_numeral)
qed

lemma echo_transfer_starts:
  assumes "tx_capacity t = kMaximumBitsPayloadSize" and "\<not> transmitterBusy (ts_state (bt_session t))"
    and "obj \<noteq> []" and "length obj \<le> kMaximumObjectSize"
  shows "fst (startTransfer obj kSegmentPayloadSize sid isn t) = ST_kStarted"
proof -
  define n where "n = length obj"
  have n: "0 < n" "n \<le> 256" using assms(3,4) by (simp_all add: n_def kMaximumObjectSize_def)
  let ?c = "segmentCount (of_nat n) kSegmentPayloadSize"
  have b: "0 < unat ?c" "(unat ?c - 1) * 24 < n"
    using segmentCount_bounds [of kSegmentPayloadSize n] n by (simp_all add: kSegmentPayloadSize_def)
  have "unat ?c \<noteq> 0" "unat ?c < 65536" using b n by simp_all
  then have "?c \<noteq> 0" "\<not> kMaximumCompactSegmentCount < ?c"
    by (auto simp: kMaximumCompactSegmentCount_def word_less_nat_alt)
  then show ?thesis
    using assms n unfolding startTransfer_def n_def
    by (simp add: transmitterBusy_def Let_def tx_capacity_def kMaximumBitsPayloadSize_def bits_sizes kSegmentPayloadSize_def)
qed

lemma startEcho_started:
  assumes inv: "ra_invar a" and c: "rc_object_complete (ra_callbacks a)"
    and idle: "\<not> transmitterBusy (ts_state (bt_session (ra_transmitter a)))"
  defines "obj \<equiv> Ram_completedObject (ra_callbacks a)"
  obtains t where
    "startTransfer obj kSegmentPayloadSize (ra_session_id a) (ucast now) (ra_transmitter a) = (ST_kStarted, t)"
    "startEcho obj now a = a\<lparr>ra_echo_storage := span_write 0 obj (ra_echo_storage a), ra_transmitter := t,
       ra_callbacks := releaseCompletedObject (ra_callbacks a), ra_session_id := ra_session_id a + 1\<rparr>"
    "take (length obj) (span_write 0 obj (ra_echo_storage a)) = obj"
proof -
  note size = completed_object_size [OF inv c, folded obj_def]
  have cap: "tx_capacity (ra_transmitter a) = kMaximumBitsPayloadSize" using inv by (simp add: ra_invar_def)
  obtain t where st: "startTransfer obj kSegmentPayloadSize (ra_session_id a) (ucast now) (ra_transmitter a) = (ST_kStarted, t)"
    using echo_transfer_starts [OF cap idle size(1,2), of "ra_session_id a" "ucast now"] by (metis prod.collapse)
  have take: "take (length obj) (span_write 0 obj (ra_echo_storage a)) = obj" by (simp add: span_write_def)
  have "startEcho obj now a = a\<lparr>ra_echo_storage := span_write 0 obj (ra_echo_storage a), ra_transmitter := t,
       ra_callbacks := releaseCompletedObject (ra_callbacks a), ra_session_id := ra_session_id a + 1\<rparr>"
    using st take by (simp add: startEcho_def Let_def)
  then show thesis using that st take by blast
qed

lemma ra_process_transmitter_fields [simp]:
  "ra_echo_storage (ra_process_transmitter now a) = ra_echo_storage a"
  "ra_receiver (ra_process_transmitter now a) = ra_receiver a"
  "ra_callbacks (ra_process_transmitter now a) = ra_callbacks a"
  "ra_session_id (ra_process_transmitter now a) = ra_session_id a"
  "ra_decoder (ra_process_transmitter now a) = ra_decoder a"
  by (auto simp: ra_process_transmitter_def split: prod.splits)

lemma released_receiver_ok:
  "ra.receiver_ok n b (pk, c, line) \<Longrightarrow> rc_object_complete c \<Longrightarrow> ra.receiver_ok n b (pk', releaseCompletedObject c, line')"
  by (auto simp: ra.receiver_ok_def ram_object_ok_def releaseCompletedObject_def)

lemma startEcho_invar:
  assumes inv: "ra_invar a" and c: "rc_object_complete (ra_callbacks a)"
    and idle: "\<not> transmitterBusy (ts_state (bt_session (ra_transmitter a)))"
  shows "ra_invar (startEcho (Ram_completedObject (ra_callbacks a)) now a)"
proof -
  let ?obj = "Ram_completedObject (ra_callbacks a)"
  obtain t where st: "startTransfer ?obj kSegmentPayloadSize (ra_session_id a) (ucast now) (ra_transmitter a) = (ST_kStarted, t)"
    and eq: "startEcho ?obj now a = a\<lparr>ra_echo_storage := span_write 0 ?obj (ra_echo_storage a), ra_transmitter := t,
       ra_callbacks := releaseCompletedObject (ra_callbacks a), ra_session_id := ra_session_id a + 1\<rparr>"
    and tk: "take (length ?obj) (span_write 0 ?obj (ra_echo_storage a)) = ?obj"
    using startEcho_started [OF inv c idle] by blast
  have tx: "tx_invar (ra_transmitter a)" using inv by (simp add: ra_invar_def)
  have "tx_kept (ra_transmitter a) t"
    using st by (auto simp: startTransfer_def Let_def split: if_splits)
  moreover have "length (span_write 0 ?obj (ra_echo_storage a)) = kMaximumObjectSize"
    using completed_object_size(2) [OF inv c] inv by (simp add: ra_invar_def)
  ultimately show ?thesis
    using inv eq tk startTransfer_started [OF tx st]
      released_receiver_ok [OF _ c, of kMaximumObjectSize "ra_receiver a" "ra_receiver_packet a" "ra_uart_out a"
        "ra_receiver_packet a" "ra_uart_out a"] by (simp add: ra_invar_def)
qed

lemma ra_runOnce_invar: "ra_invar a \<Longrightarrow> ra_invar (ra_runOnce bs n1 n2 n3 a)"
  using startEcho_invar by (simp add: ra_runOnce_def Let_def ra_process_transmitter_invar
      ra_process_receiver_invar ra_poll_uart_invar)

subsection \<open>The echo is the upload\<close>

text \<open>
  What the bytes on the line may carry: any packets, where those for the upload endpoint belong to
  one transfer.
\<close>

definition honest_packets :: "Setup \<Rightarrow> bytes \<Rightarrow> PacketBuffer list \<Rightarrow> bool" where
  "honest_packets s obj ps \<longleftrightarrow>
     (\<forall>p \<in> set ps. h_endpoint (pb_header p) = kBitsUploadEndpoint \<longrightarrow> honest_message s obj (payload p))"

definition ra_upload :: "Setup \<Rightarrow> bytes \<Rightarrow> RamApplication \<Rightarrow> bool" where
  "ra_upload s obj a \<longleftrightarrow> ra_invar a
     \<and> ra_sink.endpoint_ok s obj (ra_receiver a) (ra_receiver_packet a, ra_callbacks a, ra_uart_out a)
     \<and> ts_object (bt_session (ra_transmitter a)) \<in> {[], obj}"

lemma endpoint_ok_line:
  "ra_sink.endpoint_ok s obj b (pk, c, line) \<Longrightarrow> rc_storage c' = rc_storage c \<Longrightarrow> ra_sink.endpoint_ok s obj b (pk', c', line')"
  by (simp add: ra_sink.endpoint_ok_def ra_sink.transfer_ok_def)

lemma ra_upload_init: "ra_upload s obj ra_init"
proof -
  have "ra_sink.endpoint_ok s obj (ra_receiver ra_init) (ra_receiver_packet ra_init, ra_callbacks ra_init, ra_uart_out ra_init)"
    using ra_invar_init endpoint_init(2) [of "[Some (PacketBuffer_new kMaximumBitsPayloadSize), Some (PacketBuffer_new kMaximumBitsPayloadSize)]"
        "PacketBuffer_new kMaximumBitsPayloadSize" 16 kUploadConnection 5000]
    by (auto simp: ra_invar_def ra.receiver_ok_def ra_sink.endpoint_ok_def ra_sink.transfer_ok_def packet_invar_new)
      (auto simp: ra_init_def BitsReceiver_init_def BitsReceiverEngine_init_def packet_invar_new endpoint_pending_def)
  then show ?thesis
    using ra_invar_init
    by (simp add: ra_upload_def) (simp add: ra_init_def BitsTransmitter_init_def TransferSession_init_def)
qed

lemma ra_poll_uart_upload:
  assumes v: "setup_valid s" "length obj = unat (setupTotalSize s)" and up: "ra_upload s obj a"
    and u: "uart_packets kMaximumBitsPayloadSize bs (ra_decoder a) = (d', qs)" and hon: "honest_packets s obj qs"
  shows "ra_upload s obj (ra_poll_uart bs a)" and "ra_decoder (ra_poll_uart bs a) = d'"
proof -
  let ?out = "(ra_receiver a, ra_transmitter a, ra_uart_out a)"
  have pr: "UartHdlcReceiver_process ra_deliver kMaximumBitsPayloadSize bs (ra_decoder a, ?out) = (d', fold ra_deliver qs ?out)"
    using process_packets [of ra_deliver kMaximumBitsPayloadSize bs "ra_decoder a" ?out] u by simp
  have qs: "packet_invar q \<and> (h_endpoint (pb_header q) = kBitsUploadEndpoint \<longrightarrow> honest_message s obj (payload q))" if "q \<in> set qs" for q
    using uart_packets_invar [OF u] hon that by (auto simp: honest_packets_def)
  let ?ok = "\<lambda>(b, t, line). ra_sink.endpoint_ok s obj b (ra_receiver_packet a, ra_callbacks a, line)
      \<and> ts_object (bt_session t) \<in> {[], obj}"
  have step: "?ok (ra_deliver q m)" if q: "q \<in> set qs" and ok: "?ok m" for q m
  proof -
    obtain b t line where m: "m = (b, t, line)" by (cases m)
    have pk: "packet_invar (setIngressIndex 1 q)" using qs [OF q] by (simp add: setIngressIndex_invar)
    have pay: "payload (setIngressIndex 1 q) = payload q" by (simp add: setIngressIndex_def payload_def)
    have "ra_sink.endpoint_ok s obj (snd (BitsReceiver_receive (setIngressIndex 1 q) b)) (ra_receiver_packet a, ra_callbacks a, line)"
      if "h_endpoint (pb_header q) = kBitsUploadEndpoint"
      using ra_sink.endpoint_step_ok [OF _ v, of b _ "RecvEvent (setIngressIndex 1 q)"] ok qs [OF q] that pk pay by (simp add: m)
    moreover have "ts_object (bt_session (snd (BitsTransmitter_receive p t))) = ts_object (bt_session t)" for p
      by (auto simp: BitsTransmitter_receive_def split: option.splits prod.splits bool.splits)
    ultimately show ?thesis
      using ok by (rule_tac p = q and b = b and t = t and line = line in ra_deliver_cases) (auto simp: m)
  qed
  have "?ok (fold ra_deliver qs ?out)"
    by (rule fold_invariant [where Q = "\<lambda>q. q \<in> set qs" and P = ?ok]) (use step up in \<open>auto simp: ra_upload_def\<close>)
  then show "ra_upload s obj (ra_poll_uart bs a)"
    using up pr ra_poll_uart_invar [of a bs]
    by (auto simp: ra_upload_def ra_poll_uart_def split: prod.splits)
  show "ra_decoder (ra_poll_uart bs a) = d'" using pr by (simp add: ra_poll_uart_def split: prod.splits)
qed

lemma ra_process_receiver_upload:
  assumes v: "setup_valid s" "length obj = unat (setupTotalSize s)" and up: "ra_upload s obj a"
  shows "ra_upload s obj (ra_process_receiver now a)"
proof -
  obtain r b pk c line where p: "BitsReceiver_process ra_receiver_env now (ra_receiver a)
      (ra_receiver_packet a, ra_callbacks a, ra_uart_out a) = (r, b, pk, c, line)" by (metis prod_cases5)
  have "ra_sink.endpoint_ok s obj b (pk, c, line)"
    using ra_sink.endpoint_step_ok [OF _ v, of "ra_receiver a" "(ra_receiver_packet a, ra_callbacks a, ra_uart_out a)"
        "ProcEvent now" b "(pk, c, line)"] up p by (simp add: ra_upload_def)
  then show ?thesis
    using up ra_process_receiver_invar [of a now] p by (simp add: ra_upload_def ra_process_receiver_def)
qed

lemma completed_object_is_upload:
  assumes v: "setup_valid s" "length obj = unat (setupTotalSize s)" and up: "ra_upload s obj a"
    and c: "rc_object_complete (ra_callbacks a)"
  shows "Ram_completedObject (ra_callbacks a) = obj"
proof -
  let ?e = "br_engine (ra_receiver a)" and ?w = "(ra_receiver_packet a, ra_callbacks a, ra_uart_out a)"
  have inv: "ra_invar a" and e: "engine_invar 16 ?e" "ra_sink.transfer_ok s obj ?e ?w"
    using up by (auto simp: ra_upload_def ra_sink.endpoint_ok_def)
  have st: "re_state ?e = TS_kCompleted"
    using inv c by (simp add: ra_invar_def ra.receiver_ok_def ram_object_ok_def)
  have "re_setup ?e = s" using e(2) st by (simp add: ra_sink.transfer_ok_def)
  then show ?thesis
    using completed_object_size(3) [OF inv c] ra_sink.completed_object_state [OF v _ e(2) st] e(1) v(2) by simp
qed

lemma ra_runOnce_upload:
  assumes v: "setup_valid s" "length obj = unat (setupTotalSize s)" and up: "ra_upload s obj a"
    and u: "uart_packets kMaximumBitsPayloadSize bs (ra_decoder a) = (d', qs)" and hon: "honest_packets s obj qs"
  shows "ra_upload s obj (ra_runOnce bs n1 n2 n3 a)" and "ra_decoder (ra_runOnce bs n1 n2 n3 a) = d'"
proof -
  define a1 where "a1 = ra_process_receiver n1 (ra_poll_uart bs a)"
  note poll = ra_poll_uart_upload [OF v up u hon]
  have a1: "ra_upload s obj a1"
    unfolding a1_def by (rule ra_process_receiver_upload [OF v poll(1)])
  have echo: "ra_upload s obj (startEcho (Ram_completedObject (ra_callbacks a1)) n2 a1)"
    if c: "rc_object_complete (ra_callbacks a1)" and i: "\<not> transmitterBusy (ts_state (bt_session (ra_transmitter a1)))"
  proof -
    have inv: "ra_invar a1" and tx: "tx_invar (ra_transmitter a1)" using a1 by (auto simp: ra_upload_def ra_invar_def)
    show ?thesis
      using startEcho_invar [OF inv c i, of n2] startTransfer_started(2) [OF tx] completed_object_is_upload [OF v a1 c] a1
      by (rule_tac startEcho_started [OF inv c i, of n2])
        (auto simp: ra_upload_def releaseCompletedObject_def elim!: endpoint_ok_line)
  qed
  have fin: "ra_upload s obj (ra_process_transmitter n3 x)" if x: "ra_upload s obj x" for x
  proof -
    obtain r t line where p: "BitsTransmitter_process ra_transmitter_env n3 (ra_transmitter x) (ra_uart_out x) = (r, t, line)"
      by (metis prod_cases3)
    have "ts_object (bt_session t) = ts_object (bt_session (ra_transmitter x))"
      using tx_echoes_process [OF _ p] x by (simp add: ra_upload_def ra_invar_def tx_echoes_def)
    then show ?thesis
      using x ra_process_transmitter_invar [of x n3] p
      by (auto simp: ra_upload_def ra_process_transmitter_def elim!: endpoint_ok_line)
  qed
  show "ra_upload s obj (ra_runOnce bs n1 n2 n3 a)" using a1 echo fin by (simp add: ra_runOnce_def Let_def a1_def [symmetric])
  show "ra_decoder (ra_runOnce bs n1 n2 n3 a) = d'"
    using poll(2) by (simp add: ra_runOnce_def ra_process_receiver_def ra_process_transmitter_def startEcho_def Let_def split: prod.splits)
qed

subsection \<open>Starting an echo\<close>

text \<open>What the transmitter hands to the router is addressed to its connection.\<close>

lemma tx_send_message_delivered:
  assumes pk: "packet_invar (bt_transmit_packet t)" and n: "n < 65536" "n \<le> unat (tx_capacity t)"
    and enc: "\<And>out. length out = n \<Longrightarrow> encode out = (True, wire)" and len: "length wire = n"
    and fwd: "\<And>p w. link_fits n p \<Longrightarrow> pb_ingress_index p = 0 \<Longrightarrow> h_wire (pb_header p) = ca_wire (bt_connection t) \<Longrightarrow>
      te_forward env p w = (RR_kAccepted, f p w)"
  shows "\<exists>p t'. tx_send_message env n q encode t w = (True, t', f p w) \<and> link_fits n p \<and> payload p = wire
    \<and> h_endpoint (pb_header p) = ca_endpoint (bt_connection t)
    \<and> h_destination (pb_header p) = ca_remote_host (bt_connection t) \<and> bt_session t' = bt_session t"
proof -
  have un: "unat (of_nat n :: u16) = n" using n by (simp add: unat_of_nat take_bit_nat_eq_self)
  obtain ok p where i: "initializeConnection (of_nat n) (bt_connection t) (ControlFields_bits q) (bt_transmit_packet t) = (ok, p)"
    by fastforce
  have ok: ok using initializeConnection_fst [of "of_nat n" "bt_connection t" "ControlFields_bits q" "bt_transmit_packet t"]
    i n un by (simp add: tx_capacity_def word_le_nat_alt)
  note f = initializeConnection_success [OF i [simplified ok]]
  have inv: "packet_invar p"
    using initializeConnection_invar [OF pk, of "of_nat n" "bt_connection t" "ControlFields_bits q"] i by simp
  then have lp: "length (payload p) = n" using f(1) un by simp
  let ?p = "write_payload 0 wire p"
  have p': "packet_invar ?p" "payload ?p = wire" "pb_size ?p = of_nat n" "pb_ingress_index ?p = 0" "pb_header ?p = pb_header p"
    using inv lp len f un by (simp_all add: payload_write_payload span_write_def)
  have fits: "link_fits n ?p" using p' un by (simp add: link_fits_def)
  let ?t = "t\<lparr>bt_last_send := SR_kSent, bt_transmit_packet := ?p\<rparr>"
  have "te_forward env ?p w = (RR_kAccepted, f ?p w)" using fwd [OF fits p'(4)] p'(5) f(6) by simp
  then have "tx_send_message env n q encode t w = (True, ?t, f ?p w)"
    using i ok enc [OF lp] by (simp add: tx_send_message_def preparePacket_def forwardPacket_def Let_def sendResult_def)
  then show ?thesis using fits p' f(6) by (intro exI [of _ ?p] exI [of _ ?t]) simp
qed

lemma ra_forward_sends:
  assumes "link_fits n p" and "n \<le> 28" and "pb_ingress_index p = 0" and "h_wire (pb_header p) = kTestWire"
  shows "ra_forward p line = (RR_kAccepted, line @ wire_frame p)"
proof -
  have "link_fits 28 p" using assms(1,2) by (simp add: link_fits_def)
  then have "ra_uart_trySend p line = (LA_kAccepted, line @ wire_frame p)"
    using trySend_frame [of 28 p] by (simp add: ra_uart_trySend_def kMaximumBitsPayloadSize_def)
  then show ?thesis
    using assms(4) by (simp add: ra_forward_def Router_forward_local [OF assms(3)] kDemoRoutes_def route_of_def
        demo_Forwarder_forward_def kUartEgress_def combineAdmission_def)
qed

lemma receiver_process_idle:
  assumes "re_state (br_engine b) \<noteq> TS_kActive" and "endpoint_pending b = {}"
  shows "\<exists>r. BitsReceiver_process env now b w = (r, b, w)"
proof -
  have "\<And>i. \<not> bit (br_segment_occupied_mask b) i" "\<not> br_datagram_occupied b"
    using assms(2) by (auto simp: endpoint_pending_def split: if_splits)
  then have "br_segment_occupied_mask b = 0" "\<not> br_datagram_occupied b" by (auto intro: bit_eqI)
  moreover have "\<exists>r. engine_poll env now (br_engine b) w = (r, br_engine b, w)"
    using assms(1) by (simp add: engine_poll_def)
  ultimately show ?thesis
    by (auto simp: BitsReceiver_process_def BitsReceiver_process_segment_def BitsReceiver_process_datagram_def)
qed

lemma first_setup_sent:
  assumes inv: "tx_invar t" and cap: "tx_capacity t = kMaximumBitsPayloadSize" and conn: "bt_connection t = kEchoConnection"
    and st: "ts_state (bt_session t) = TS_kStarting" "\<not> ts_setup_sent (bt_session t)" "\<not> bt_datagram_occupied t"
  shows "\<exists>p t'. BitsTransmitter_process ra_transmitter_env now t line = (PR_kProgress, t', line @ wire_frame p)
    \<and> link_fits 10 p \<and> payload p = setup_wire (ts_setup (bt_session t))
    \<and> h_endpoint (pb_header p) = kBitsEchoEndpoint \<and> h_destination (pb_header p) = kPcHost
    \<and> bt_session t' = (bt_session t)\<lparr>ts_setup_sent := True, ts_setup_last_send_ms := now\<rparr>"
proof -
  have pk: "packet_invar (bt_transmit_packet t)" using inv by (simp add: tx_invar_def)
  have enc: "encodeSetup (ts_setup (bt_session t)) out = (True, setup_wire (ts_setup (bt_session t)))" if "length out = 10" for out
    using that by (simp add: encode_exact bits_sizes)
  have fwd: "te_forward ra_transmitter_env p w = (RR_kAccepted, w @ wire_frame p)"
    if "link_fits 10 p" "pb_ingress_index p = 0" "h_wire (pb_header p) = ca_wire (bt_connection t)" for p w
    using ra_forward_sends [OF that(1) _ that(2)] that(3) conn by (simp add: ra_transmitter_env_def kEchoConnection_def)
  have "\<exists>p t'. tx_send_message ra_transmitter_env 10 kNormal (encodeSetup (ts_setup (bt_session t))) t line
      = (True, t', line @ wire_frame p) \<and> link_fits 10 p \<and> payload p = setup_wire (ts_setup (bt_session t))
    \<and> h_endpoint (pb_header p) = ca_endpoint (bt_connection t)
    \<and> h_destination (pb_header p) = ca_remote_host (bt_connection t) \<and> bt_session t' = bt_session t"
    by (rule tx_send_message_delivered [OF pk _ _ enc _ fwd]) (simp_all add: cap kMaximumBitsPayloadSize_def)
  then obtain p t' where m: "tx_send_message ra_transmitter_env 10 kNormal (encodeSetup (ts_setup (bt_session t))) t line
      = (True, t', line @ wire_frame p)" "link_fits 10 p" "payload p = setup_wire (ts_setup (bt_session t))"
    "h_endpoint (pb_header p) = kBitsEchoEndpoint" "h_destination (pb_header p) = kPcHost" "bt_session t' = bt_session t"
    by (auto simp: conn kEchoConnection_def)
  show ?thesis
    using st m by (intro exI [of _ p]) (simp add: BitsTransmitter_process_def tx_process_starting_def tx_sendSetup_def bits_sizes
        tx_attempt_def tx_session_def Let_def)
qed

lemma ra_echo_starts:
  fixes a :: RamApplication and n1 n2 n3 :: u32
  assumes inv: "ra_invar a" and c: "rc_object_complete (ra_callbacks a)"
    and idle: "\<not> transmitterBusy (ts_state (bt_session (ra_transmitter a)))" "\<not> bt_datagram_occupied (ra_transmitter a)"
      "endpoint_pending (ra_receiver a) = {}"
  defines "obj \<equiv> Ram_completedObject (ra_callbacks a)" and "a' \<equiv> ra_runOnce [] n1 n2 n3 a"
  shows "\<exists>p s. ra_uart_out a' = ra_uart_out a @ wire_frame p \<and> payload p = setup_wire s
      \<and> h_endpoint (pb_header p) = kBitsEchoEndpoint \<and> h_destination (pb_header p) = kPcHost
      \<and> su_session_id s = ra_session_id a \<and> unat (setupTotalSize s) = length obj
      \<and> ts_setup (bt_session (ra_transmitter a')) = s"
    and "ts_object (bt_session (ra_transmitter a')) = obj" and "ts_state (bt_session (ra_transmitter a')) = TS_kStarting"
    and "\<not> rc_object_complete (ra_callbacks a')" and "ra_session_id a' = ra_session_id a + 1"
proof -
  have st: "re_state (br_engine (ra_receiver a)) = TS_kCompleted"
    using inv c by (simp add: ra_invar_def ra.receiver_ok_def ram_object_ok_def)
  obtain r0 where "BitsReceiver_process ra_receiver_env n1 (ra_receiver a) (ra_receiver_packet a, ra_callbacks a, ra_uart_out a)
      = (r0, ra_receiver a, ra_receiver_packet a, ra_callbacks a, ra_uart_out a)"
    using receiver_process_idle [OF _ idle(3), of ra_receiver_env n1 "(ra_receiver_packet a, ra_callbacks a, ra_uart_out a)"] st
    by auto
  then have r: "ra_process_receiver n1 (ra_poll_uart [] a) = a" by (simp add: ra_process_receiver_def ra_poll_uart_def)
  obtain t where t: "startTransfer obj kSegmentPayloadSize (ra_session_id a) (ucast n2) (ra_transmitter a) = (ST_kStarted, t)"
    and e: "startEcho obj n2 a = a\<lparr>ra_echo_storage := span_write 0 obj (ra_echo_storage a), ra_transmitter := t,
       ra_callbacks := releaseCompletedObject (ra_callbacks a), ra_session_id := ra_session_id a + 1\<rparr>"
    unfolding obj_def using startEcho_started [OF inv c idle(1)] by blast
  have tx: "tx_invar (ra_transmitter a)" "tx_capacity (ra_transmitter a) = kMaximumBitsPayloadSize"
    "bt_connection (ra_transmitter a) = kEchoConnection" using inv by (simp_all add: ra_invar_def)
  note s = startTransfer_started [OF tx(1) t]
  have k: "tx_kept (ra_transmitter a) t" "\<not> ts_setup_sent (bt_session t)" "\<not> bt_datagram_occupied t"
    using t idle(2) by (auto simp: startTransfer_def Let_def tx_session_def tx_capacity_def resetTransferTracking_def split: if_splits)
  obtain p t' where p: "BitsTransmitter_process ra_transmitter_env n3 t (ra_uart_out a) = (PR_kProgress, t', ra_uart_out a @ wire_frame p)"
    "payload p = setup_wire (ts_setup (bt_session t))" "h_endpoint (pb_header p) = kBitsEchoEndpoint" "h_destination (pb_header p) = kPcHost"
    "bt_session t' = (bt_session t)\<lparr>ts_setup_sent := True, ts_setup_last_send_ms := n3\<rparr>"
    using first_setup_sent [OF s(1) _ _ s(3) k(2,3), of n3 "ra_uart_out a"] k(1) tx by auto
  have a': "a' = (startEcho obj n2 a)\<lparr>ra_transmitter := t', ra_uart_out := ra_uart_out a @ wire_frame p\<rparr>"
    using p(1) e c idle(1) unfolding a'_def ra_runOnce_def r obj_def by (simp add: ra_process_transmitter_def Let_def)
  have "unat (setupTotalSize (ts_setup (bt_session t))) = length obj"
    using s(1,2,3) by (simp add: tx_invar_def session_invar_def session_window_def)
  then show "\<exists>p s. ra_uart_out a' = ra_uart_out a @ wire_frame p \<and> payload p = setup_wire s
      \<and> h_endpoint (pb_header p) = kBitsEchoEndpoint \<and> h_destination (pb_header p) = kPcHost
      \<and> su_session_id s = ra_session_id a \<and> unat (setupTotalSize s) = length obj
      \<and> ts_setup (bt_session (ra_transmitter a')) = s"
    using p s(5) by (intro exI [of _ p] exI [of _ "ts_setup (bt_session t)"]) (simp add: a')
  show "ts_object (bt_session (ra_transmitter a')) = obj" "ts_state (bt_session (ra_transmitter a')) = TS_kStarting"
    "\<not> rc_object_complete (ra_callbacks a')" "ra_session_id a' = ra_session_id a + 1"
    using p(5) s(2,3) e by (simp_all add: a' releaseCompletedObject_def)
qed

subsection \<open>Properties\<close>

text \<open>The passes of the main loop: the bytes the UART has and the three clock readings of each.\<close>

definition ra_run :: "(bytes \<times> u32 \<times> u32 \<times> u32) list \<Rightarrow> RamApplication \<Rightarrow> RamApplication" where
  "ra_run passes a = fold (\<lambda>(bs, n1, n2, n3). ra_runOnce bs n1 n2 n3) passes a"

lemma ra_run_invar: "ra_invar a \<Longrightarrow> ra_invar (ra_run passes a)"
  unfolding ra_run_def by (induction passes arbitrary: a) (auto simp: ra_runOnce_invar)

lemma ra_run_upload:
  assumes v: "setup_valid s" "length obj = unat (setupTotalSize s)"
    and "ra_upload s obj a"
    and "honest_packets s obj (snd (uart_packets kMaximumBitsPayloadSize (concat (map fst passes)) (ra_decoder a)))"
  shows "ra_upload s obj (ra_run passes a)"
  using assms(3,4)
proof (induction passes arbitrary: a)
  case (Cons pass passes)
  obtain bs n1 n2 n3 where pass: "pass = (bs, n1, n2, n3)" by (metis prod_cases4)
  obtain d' qs where u: "uart_packets kMaximumBitsPayloadSize bs (ra_decoder a) = (d', qs)" by fastforce
  have hon: "honest_packets s obj qs"
    "honest_packets s obj (snd (uart_packets kMaximumBitsPayloadSize (concat (map fst passes)) d'))"
    using Cons.prems(2) u by (auto simp: pass uart_packets_append honest_packets_def split: prod.splits)
  note once = ra_runOnce_upload [OF v Cons.prems(1) u hon(1), of n1 n2 n3]
  show ?case using Cons.IH [OF once(1)] once(2) hon(2) by (simp add: ra_run_def pass)
qed (simp add: ra_run_def)

text \<open>C7: Whatever bytes arrive and whatever the clock reads, after any number of passes of the RAM
  echo application the object being echoed is a prefix of the echo storage, which keeps its 256 bytes,
  a complete object is never empty and fits the storage, and an idle transmitter accepts it as an echo,
  so startTransfer never refuses in startEcho.\<close>

theorem ram_application_consistent:
  "let a = ra_run passes ra_init;
       t = ra_transmitter a;
       obj = Ram_completedObject (ra_callbacks a)
   in length (ra_echo_storage a) = kMaximumObjectSize
      \<and> ts_object (bt_session t) = take (length (ts_object (bt_session t))) (ra_echo_storage a)
      \<and> (if rc_object_complete (ra_callbacks a)
          then obj \<noteq> [] \<and> length obj \<le> kMaximumObjectSize
            \<and> fst (startTransfer obj kSegmentPayloadSize (ra_session_id a) isn t)
               = (if transmitterBusy (ts_state (bt_session t)) then ST_kBusy else ST_kStarted)
          else obj = [])"
proof -
  define a where "a = ra_run passes ra_init"
  have inv: "ra_invar a" unfolding a_def by (rule ra_run_invar [OF ra_invar_init])
  have cap: "tx_capacity (ra_transmitter a) = kMaximumBitsPayloadSize" using inv by (simp add: ra_invar_def)
  let ?t = "ra_transmitter a" and ?obj = "Ram_completedObject (ra_callbacks a)"
  have "fst (startTransfer ?obj kSegmentPayloadSize (ra_session_id a) isn ?t)
      = (if transmitterBusy (ts_state (bt_session ?t)) then ST_kBusy else ST_kStarted)" if "rc_object_complete (ra_callbacks a)"
    using echo_transfer_starts [OF cap _ completed_object_size(1,2) [OF inv that]]
    by (cases "transmitterBusy (ts_state (bt_session ?t))") (simp_all add: startTransfer_def transmitterBusy_def)
  moreover have "?obj = []" if "\<not> rc_object_complete (ra_callbacks a)" using that by (simp add: Ram_completedObject_def)
  ultimately show ?thesis
    using inv completed_object_size(1,2) [OF inv] unfolding a_def [symmetric] Let_def by (simp add: ra_invar_def)
qed

text \<open>An upload of three bytes in one segment, as the host sends it.\<close>

definition upload_packet :: "bytes \<Rightarrow> PacketBuffer" where
  "upload_packet message = \<lparr>pb_capacity = kMaximumBitsPayloadSize, pb_size = of_nat (length message), pb_ingress_index = 0,
     pb_header = \<lparr>h_control = 0x81, h_wire = kTestWire, h_source = kPcHost, h_destination = kArduinoHost,
       h_endpoint = kBitsUploadEndpoint\<rparr>,
     pb_storage = message @ replicate (28 - length message) 0\<rparr>"

definition upload_setup :: Setup where
  "upload_setup = \<lparr>su_session_id = 1, su_initial_sequence_number = 0, su_final_segment_index = 0, su_segment_size = 3,
     su_final_segment_size = 3\<rparr>"

definition upload_packets :: "PacketBuffer list" where
  "upload_packets = [upload_packet (setup_wire upload_setup),
     upload_packet (segment_wire \<lparr>sh_session_id = 1, sh_segment_index = 0\<rparr> @ [10, 20, 30])]"

text \<open>Their frames, the first one cut in the middle by the end of a pass.\<close>

definition upload_passes :: "(bytes \<times> u32 \<times> u32 \<times> u32) list" where
  "upload_passes = (let line = concat (map wire_frame upload_packets)
     in [(take 9 line, 1, 1, 1), ([], 2, 2, 2), (drop 9 line, 3, 4, 5)])"

lemma upload_packet_fits:
  "length message \<le> 28 \<Longrightarrow> link_fits 28 (upload_packet message) \<and> payload (upload_packet message) = message
     \<and> h_endpoint (pb_header (upload_packet message)) = kBitsUploadEndpoint"
  by (simp add: link_fits_def upload_packet_def packet_invar_def payload_def kMaximumBitsPayloadSize_def
      unat_of_nat take_bit_nat_eq_self word_le_nat_alt)

lemma upload_setup_ok: "setup_valid upload_setup \<and> length ([10, 20, 30] :: bytes) = unat (setupTotalSize upload_setup)"
  by (simp add: setup_valid_def upload_setup_def unat_setupTotalSize)

lemma upload_passes_honest:
  "honest_packets upload_setup [10, 20, 30]
     (snd (uart_packets kMaximumBitsPayloadSize (concat (map fst upload_passes)) (HdlcDecoder_init 34)))"
proof -
  have "object_segment upload_setup [10, 20, 30] 0 = [10, 20, 30]"
    by (simp add: object_segment_def upload_setup_def setup_segment_length_def subspan_def)
  then have seg: "honest_message upload_setup [10, 20, 30] (segment_wire \<lparr>sh_session_id = 1, sh_segment_index = 0\<rparr> @ [10, 20, 30])"
    using honest_wires(5) [of "\<lparr>sh_session_id = 1, sh_segment_index = 0\<rparr>" upload_setup "[10, 20, 30]"]
    by (simp add: upload_setup_def)
  have d: "hdlc_quiet (HdlcDecoder_init 34)" "length (hd_frame (HdlcDecoder_init 34)) = 6 + unat kMaximumBitsPayloadSize + 2"
    "\<forall>p \<in> set upload_packets. link_fits (unat kMaximumBitsPayloadSize) p"
    by (simp_all add: hdlc_quiet_def HdlcDecoder_init_def kMaximumBitsPayloadSize_def upload_packets_def upload_packet_fits)
  obtain d' qs where u: "uart_packets kMaximumBitsPayloadSize (concat (map wire_frame upload_packets)) (HdlcDecoder_init 34) = (d', qs)"
    "map packet_content qs = map packet_content upload_packets"
    using process_wire_frames [OF d, of "\<lambda>p ps. ps @ [p]" "[]"] by (auto simp: uart_packets_def fold_snoc)
  have "honest_message upload_setup [10, 20, 30] (snd c)" if "c \<in> set (map packet_content upload_packets)" for c
    using that seg honest_wires(1) [of upload_setup] by (auto simp: upload_packets_def packet_content_def upload_packet_fits)
  then have "honest_message upload_setup [10, 20, 30] (snd (packet_content q))" if "q \<in> set qs" for q
    using that u(2) by (metis image_eqI set_map)
  then show ?thesis using u(1) by (simp add: honest_packets_def upload_passes_def Let_def packet_content_def)
qed

text \<open>What the application says about an object: the echo it is sending, and the one it has complete.\<close>

definition echo_carries :: "bytes \<Rightarrow> RamApplication \<Rightarrow> bool" where
  "echo_carries obj a \<longleftrightarrow>
     (transmitterBusy (ts_state (bt_session (ra_transmitter a))) \<longrightarrow>
        ts_object (bt_session (ra_transmitter a)) = obj \<and> take (length obj) (ra_echo_storage a) = obj)
     \<and> (rc_object_complete (ra_callbacks a) \<longrightarrow> Ram_completedObject (ra_callbacks a) = obj)"

lemma upload_echo_carries:
  assumes v: "setup_valid s" "length obj = unat (setupTotalSize s)" and up: "ra_upload s obj a"
  shows "echo_carries obj a"
proof -
  have inv: "ra_invar a" "ts_object (bt_session (ra_transmitter a)) \<in> {[], obj}" using up by (auto simp: ra_upload_def)
  have "ts_object (bt_session (ra_transmitter a)) \<noteq> []" if "transmitterBusy (ts_state (bt_session (ra_transmitter a)))"
  proof -
    have "session_window (bt_session (ra_transmitter a))"
      using inv(1) that by (auto simp: ra_invar_def tx_invar_def session_invar_def transmitterBusy_def)
    then show ?thesis by (auto simp: session_window_def setup_valid_def unat_setupTotalSize word_less_nat_alt)
  qed
  then show ?thesis
    using inv completed_object_is_upload [OF v up] by (auto simp: ra_invar_def echo_carries_def)
qed

text \<open>C5: The echo is the upload. Whatever bytes arrive on the line, cut into passes anywhere and with any
  timing, frames split over passes, noise and frames that are too long included: when those packets
  that the link decodes from them for the upload endpoint carry only messages of one transfer (packets
  for other endpoints are arbitrary), then after the passes an echo that is running carries exactly the
  uploaded object, which is also what the echo storage holds, and an object that is complete but not
  yet echoed is the uploaded one.\<close>

theorem echo_is_the_upload:
  assumes "setup_valid s" and "length obj = unat (setupTotalSize s)"
    and "honest_packets s obj (snd (uart_packets kMaximumBitsPayloadSize (concat (map fst passes)) (HdlcDecoder_init 34)))"
  shows "echo_carries obj (ra_run passes ra_init)"
proof -
  have "ra_decoder ra_init = HdlcDecoder_init 34" by (simp add: ra_init_def kMaximumBitsPayloadSize_def)
  with assms show ?thesis
    using upload_echo_carries [OF assms(1,2) ra_run_upload [OF assms(1,2) ra_upload_init]] by simp
qed

theorem echo_is_the_upload_witness:
  "setup_valid upload_setup \<and> length ([10, 20, 30] :: bytes) = unat (setupTotalSize upload_setup)
   \<and> echo_carries [10, 20, 30] (ra_run upload_passes ra_init)"
  using echo_is_the_upload [of upload_setup "[10, 20, 30]" upload_passes] upload_setup_ok upload_passes_honest by blast

text \<open>The application once that upload is complete.\<close>

definition upload_engine :: BitsReceiverEngine where
  "upload_engine = (br_engine (ra_receiver ra_init))\<lparr>re_state := TS_kCompleted, re_setup := upload_setup,
     re_segment_count := 1, re_contiguous_count := 1, re_granted_end := 1\<rparr>"

definition upload_done :: RamApplication where
  "upload_done = ra_init\<lparr>ra_receiver := (ra_receiver ra_init)\<lparr>br_engine := upload_engine\<rparr>,
     ra_callbacks := \<lparr>rc_storage = [10, 20, 30] @ replicate 253 0, rc_received_size = 3, rc_object_complete = True\<rparr>\<rparr>"

lemma upload_done_ok:
  "ra_invar upload_done" "endpoint_pending (ra_receiver upload_done) = {}"
  "Ram_completedObject (ra_callbacks upload_done) = [10, 20, 30]"
proof -
  have init: "ra.receiver_ok kMaximumObjectSize (ra_receiver ra_init)
      (ra_receiver_packet ra_init, ra_callbacks ra_init, ra_uart_out ra_init)"
    using ra_invar_init by (simp add: ra_invar_def)
  have w: "ec_receive_window_width (re_config upload_engine) = 2"
    by (simp add: upload_engine_def ra_init_def BitsReceiver_init_def BitsReceiverEngine_init_def receiverEngineConfig_def
        kCompactWindowWidth_def Let_def)
  have "re_receive_bitmap (br_engine (ra_receiver ra_init)) = 0"
    by (simp add: ra_init_def BitsReceiver_init_def BitsReceiverEngine_init_def)
  then have "engine_invar 16 upload_engine"
    using w by (simp add: engine_invar_def window_invar_def)
      (simp add: upload_engine_def upload_setup_def setup_valid_def setupSegmentCount_def)
  then have "ra.receiver_ok kMaximumObjectSize (ra_receiver upload_done)
      (ra_receiver_packet upload_done, ra_callbacks upload_done, ra_uart_out upload_done)"
    using init by (simp add: ra.receiver_ok_def ram_object_ok_def upload_done_def kMaximumObjectSize_def)
      (simp add: upload_engine_def upload_setup_def unat_setupTotalSize)
  then show "ra_invar upload_done" using ra_invar_init by (simp add: ra_invar_def upload_done_def)
  show "endpoint_pending (ra_receiver upload_done) = {}"
    by (simp add: upload_done_def endpoint_pending_def ra_init_def BitsReceiver_init_def)
  show "Ram_completedObject (ra_callbacks upload_done) = [10, 20, 30]"
    by (simp add: upload_done_def Ram_completedObject_def)
qed

text \<open>C6: A complete upload is echoed at once. In a pass that finds a complete object, a free transmitter
  and no pending packet, the application puts one frame on the line: a SETUP to the host's echo endpoint
  that announces exactly the size of the object under the application's session id. The transmitter then
  holds the object, the receiver is free for the next upload, and the next session id is used up.\<close>

theorem echo_starts:
  assumes "ra_invar a" and "rc_object_complete (ra_callbacks a)"
    and "\<not> transmitterBusy (ts_state (bt_session (ra_transmitter a)))" and "\<not> bt_datagram_occupied (ra_transmitter a)"
    and "endpoint_pending (ra_receiver a) = {}"
  shows "\<exists>p s t. t = ra_transmitter (ra_runOnce [] n1 n2 n3 a)
    \<and> ra_uart_out (ra_runOnce [] n1 n2 n3 a) = ra_uart_out a @ wire_frame p \<and> payload p = setup_wire s
    \<and> h_endpoint (pb_header p) = kBitsEchoEndpoint \<and> h_destination (pb_header p) = kPcHost
    \<and> su_session_id s = ra_session_id a \<and> unat (setupTotalSize s) = length (Ram_completedObject (ra_callbacks a))
    \<and> ts_setup (bt_session t) = s \<and> ts_state (bt_session t) = TS_kStarting
    \<and> ts_object (bt_session t) = Ram_completedObject (ra_callbacks a)
    \<and> \<not> rc_object_complete (ra_callbacks (ra_runOnce [] n1 n2 n3 a))
    \<and> ra_session_id (ra_runOnce [] n1 n2 n3 a) = ra_session_id a + 1"
  using ra_echo_starts [OF assms, of n1 n2 n3] by blast

theorem echo_starts_witness:
  "ra_invar upload_done \<and> rc_object_complete (ra_callbacks upload_done)
   \<and> (\<exists>p s t. t = ra_transmitter (ra_runOnce [] 7 8 9 upload_done)
    \<and> ra_uart_out (ra_runOnce [] 7 8 9 upload_done) = wire_frame p \<and> payload p = setup_wire s
    \<and> h_endpoint (pb_header p) = kBitsEchoEndpoint \<and> h_destination (pb_header p) = kPcHost
    \<and> su_session_id s = 0x80 \<and> unat (setupTotalSize s) = 3
    \<and> ts_setup (bt_session t) = s \<and> ts_state (bt_session t) = TS_kStarting \<and> ts_object (bt_session t) = [10, 20, 30]
    \<and> \<not> rc_object_complete (ra_callbacks (ra_runOnce [] 7 8 9 upload_done))
    \<and> ra_session_id (ra_runOnce [] 7 8 9 upload_done) = 0x81)"
proof -
  have h: "rc_object_complete (ra_callbacks upload_done)" "\<not> transmitterBusy (ts_state (bt_session (ra_transmitter upload_done)))"
    "\<not> bt_datagram_occupied (ra_transmitter upload_done)" "ra_uart_out upload_done = []" "ra_session_id upload_done = 0x80"
    by (simp_all add: upload_done_def ra_init_def BitsTransmitter_init_def TransferSession_init_def transmitterBusy_def)
  show ?thesis
    using echo_starts [OF upload_done_ok(1) h(1-3) upload_done_ok(2), of 7 8 9] upload_done_ok h
    by (simp add: numeral_3_eq_3)
qed

end
