(* ===== verification/Can_Driver.thy ===== *)
theory Can_Driver
  imports WS_Prelude "HOL-Library.State_Monad"
begin

section \<open>The MCP2515 CAN driver\<close>

text \<open>
  \<^verbatim>\<open>platform/avr/spi0.h\<close>, \<^verbatim>\<open>mcp2515.h\<close> and \<^verbatim>\<open>mcp2515_can.h\<close>: a polling driver for a CAN controller on
  the SPI bus, written in the state monad over the pins of port B and the controller.  The
  controller is hardware: two functions on its state, one for an edge of its select line and one
  for a byte exchanged while it is selected.
\<close>

subsection \<open>SPI bus\<close>

record 'd SpiChip =
  chip_select :: "bool \<Rightarrow> 'd \<Rightarrow> 'd"
  chip_exchange :: "u8 \<Rightarrow> 'd \<Rightarrow> u8 \<times> 'd"

record 'd Avr =
  avr_portb :: u8
  avr_chip :: 'd

type_synonym ('d, 'a) avr_op = "('d Avr, 'a) state"

definition kPortB2 :: u8 where "kPortB2 = 0x04"

definition spi0ChipSelectAssert :: "'d SpiChip \<Rightarrow> ('d, unit) avr_op" where
  "spi0ChipSelectAssert chip = State_Monad.update (\<lambda>s. s\<lparr>avr_portb := avr_portb s AND NOT kPortB2,
     avr_chip := chip_select chip True (avr_chip s)\<rparr>)"

definition spi0ChipSelectDeassert :: "'d SpiChip \<Rightarrow> ('d, unit) avr_op" where
  "spi0ChipSelectDeassert chip = State_Monad.update (\<lambda>s. s\<lparr>avr_portb := avr_portb s OR kPortB2,
     avr_chip := chip_select chip False (avr_chip s)\<rparr>)"

definition spi0Transfer :: "'d SpiChip \<Rightarrow> u8 \<Rightarrow> ('d, u8) avr_op" where
  "spi0Transfer chip out_byte = State (\<lambda>s. case chip_exchange chip out_byte (avr_chip s) of
     (received, d) \<Rightarrow> (received, s\<lparr>avr_chip := d\<rparr>))"

subsection \<open>Registers\<close>

definition kInstructionRead :: u8 where "kInstructionRead = 0x03"
definition kInstructionWrite :: u8 where "kInstructionWrite = 0x02"
definition kInstructionReset :: u8 where "kInstructionReset = 0xC0"
definition kInstructionBitModify :: u8 where "kInstructionBitModify = 0x05"
definition kInstructionRequestToSendBuffer0 :: u8 where "kInstructionRequestToSendBuffer0 = 0x81"
definition kCanstatConfigMode :: u8 where "kCanstatConfigMode = 0x80"

definition kRegisterCanstat :: u8 where "kRegisterCanstat = 0x0E"
definition kRegisterCanctrl :: u8 where "kRegisterCanctrl = 0x0F"
definition kRegisterCnf3 :: u8 where "kRegisterCnf3 = 0x28"
definition kRegisterCnf2 :: u8 where "kRegisterCnf2 = 0x29"
definition kRegisterCnf1 :: u8 where "kRegisterCnf1 = 0x2A"
definition kRegisterCaninte :: u8 where "kRegisterCaninte = 0x2B"
definition kRegisterCanintf :: u8 where "kRegisterCanintf = 0x2C"
definition kRegisterTxb0ctrl :: u8 where "kRegisterTxb0ctrl = 0x30"
definition kRegisterTxb0sidh :: u8 where "kRegisterTxb0sidh = 0x31"
definition kRegisterTxb0dlc :: u8 where "kRegisterTxb0dlc = 0x35"
definition kRegisterTxb0d0 :: u8 where "kRegisterTxb0d0 = 0x36"
definition kRegisterRxb0ctrl :: u8 where "kRegisterRxb0ctrl = 0x60"
definition kRegisterRxb0sidh :: u8 where "kRegisterRxb0sidh = 0x61"
definition kRegisterRxb0dlc :: u8 where "kRegisterRxb0dlc = 0x65"
definition kRegisterRxb0d0 :: u8 where "kRegisterRxb0d0 = 0x66"
definition kRegisterRxb1ctrl :: u8 where "kRegisterRxb1ctrl = 0x70"
definition kRegisterRxb1sidh :: u8 where "kRegisterRxb1sidh = 0x71"
definition kRegisterRxb1dlc :: u8 where "kRegisterRxb1dlc = 0x75"
definition kRegisterRxb1d0 :: u8 where "kRegisterRxb1d0 = 0x76"

definition kModeMask :: u8 where "kModeMask = 0xE0"
definition kReceiveBuffer0Flag :: u8 where "kReceiveBuffer0Flag = 0x01"
definition kReceiveBuffer1Flag :: u8 where "kReceiveBuffer1Flag = 0x02"
definition kTransmitRequest :: u8 where "kTransmitRequest = 0x08"
definition kExtendedIdentifier :: u8 where "kExtendedIdentifier = 0x08"

lemmas mcp_constants = kInstructionRead_def kInstructionWrite_def kInstructionReset_def kInstructionBitModify_def
  kInstructionRequestToSendBuffer0_def kCanstatConfigMode_def kRegisterCanstat_def kRegisterCanctrl_def kRegisterCnf3_def
  kRegisterCnf2_def kRegisterCnf1_def kRegisterCaninte_def kRegisterCanintf_def kRegisterTxb0ctrl_def
  kRegisterTxb0sidh_def kRegisterTxb0dlc_def kRegisterTxb0d0_def kRegisterRxb0ctrl_def kRegisterRxb0sidh_def
  kRegisterRxb0dlc_def kRegisterRxb0d0_def kRegisterRxb1ctrl_def kRegisterRxb1sidh_def kRegisterRxb1dlc_def
  kRegisterRxb1d0_def kModeMask_def kReceiveBuffer0Flag_def kReceiveBuffer1Flag_def kTransmitRequest_def
  kExtendedIdentifier_def

definition mcp_reset :: "'d SpiChip \<Rightarrow> ('d, unit) avr_op" where
  "mcp_reset chip = do {
     spi0ChipSelectAssert chip;
     _ \<leftarrow> spi0Transfer chip kInstructionReset;
     spi0ChipSelectDeassert chip
   }"

definition readRegister :: "'d SpiChip \<Rightarrow> u8 \<Rightarrow> ('d, u8) avr_op" where
  "readRegister chip address = do {
     spi0ChipSelectAssert chip;
     _ \<leftarrow> spi0Transfer chip kInstructionRead;
     _ \<leftarrow> spi0Transfer chip address;
     val \<leftarrow> spi0Transfer chip 0x00;
     spi0ChipSelectDeassert chip;
     State_Monad.return val
   }"

text \<open>The settling delay of \<^verbatim>\<open>probeCanstat\<close> has no effect on the state.\<close>

definition probeCanstat :: "'d SpiChip \<Rightarrow> ('d, bool \<times> u8) avr_op" where
  "probeCanstat chip = do {
     mcp_reset chip;
     canstat \<leftarrow> readRegister chip kRegisterCanstat;
     State_Monad.return (canstat = kCanstatConfigMode, canstat)
   }"

definition writeRegister :: "'d SpiChip \<Rightarrow> u8 \<Rightarrow> u8 \<Rightarrow> ('d, unit) avr_op" where
  "writeRegister chip address val = do {
     spi0ChipSelectAssert chip;
     _ \<leftarrow> spi0Transfer chip kInstructionWrite;
     _ \<leftarrow> spi0Transfer chip address;
     _ \<leftarrow> spi0Transfer chip val;
     spi0ChipSelectDeassert chip
   }"

definition bitModify :: "'d SpiChip \<Rightarrow> u8 \<Rightarrow> u8 \<Rightarrow> u8 \<Rightarrow> ('d, unit) avr_op" where
  "bitModify chip address bits val = do {
     spi0ChipSelectAssert chip;
     _ \<leftarrow> spi0Transfer chip kInstructionBitModify;
     _ \<leftarrow> spi0Transfer chip address;
     _ \<leftarrow> spi0Transfer chip bits;
     _ \<leftarrow> spi0Transfer chip val;
     spi0ChipSelectDeassert chip
   }"

subsection \<open>CAN frames\<close>

record Mcp2515CanFrame =
  cf_identifier :: u16
  cf_size :: u8
  cf_data :: bytes

definition Mcp2515CanFrame_zero :: Mcp2515CanFrame where
  "Mcp2515CanFrame_zero = \<lparr>cf_identifier = 0, cf_size = 0, cf_data = replicate 8 0\<rparr>"

text \<open>The loop of \<^verbatim>\<open>initialize500Kbps8MHz\<close> that waits for the mode change, with the attempts left.\<close>

primrec mcp_await_normal :: "'d SpiChip \<Rightarrow> nat \<Rightarrow> ('d, bool) avr_op" where
  "mcp_await_normal chip 0 = State_Monad.return False"
| "mcp_await_normal chip (Suc attempts) = do {
     canstat \<leftarrow> readRegister chip kRegisterCanstat;
     if canstat AND kModeMask = 0 then State_Monad.return True else mcp_await_normal chip attempts
   }"

definition initialize500Kbps8MHz :: "'d SpiChip \<Rightarrow> ('d, bool) avr_op" where
  "initialize500Kbps8MHz chip = do {
     probe \<leftarrow> probeCanstat chip;
     if \<not> fst probe then State_Monad.return False
     else do {
       writeRegister chip kRegisterCnf1 0x00;
       writeRegister chip kRegisterCnf2 0x98;
       writeRegister chip kRegisterCnf3 0x01;
       writeRegister chip kRegisterRxb0ctrl 0x64;
       writeRegister chip kRegisterRxb1ctrl 0x60;
       writeRegister chip kRegisterCaninte 0x00;
       writeRegister chip kRegisterCanintf 0x00;
       bitModify chip kRegisterCanctrl kModeMask 0x00;
       mcp_await_normal chip 1000
     }
   }"

text \<open>The loop over the data bytes of \<^verbatim>\<open>transmit\<close>, from \<^verbatim>\<open>index\<close>.\<close>

primrec mcp_write_data :: "'d SpiChip \<Rightarrow> u8 \<Rightarrow> bytes \<Rightarrow> ('d, unit) avr_op" where
  "mcp_write_data chip address [] = State_Monad.return ()"
| "mcp_write_data chip address (b # bs) = do {
     writeRegister chip address b;
     mcp_write_data chip (address + 1) bs
   }"

definition mcp_request_to_send :: "'d SpiChip \<Rightarrow> ('d, unit) avr_op" where
  "mcp_request_to_send chip = do {
     spi0ChipSelectAssert chip;
     _ \<leftarrow> spi0Transfer chip kInstructionRequestToSendBuffer0;
     spi0ChipSelectDeassert chip
   }"

definition mcp_transmit :: "'d SpiChip \<Rightarrow> Mcp2515CanFrame \<Rightarrow> ('d, bool) avr_op" where
  "mcp_transmit chip frame =
     (if 0x07FF < cf_identifier frame \<or> 8 < cf_size frame then State_Monad.return False
      else do {
        control \<leftarrow> readRegister chip kRegisterTxb0ctrl;
        if control AND kTransmitRequest \<noteq> 0 then State_Monad.return False
        else do {
          writeRegister chip kRegisterTxb0sidh (ucast (drop_bit 3 (cf_identifier frame)));
          writeRegister chip (kRegisterTxb0sidh + 1) (ucast (push_bit 5 (cf_identifier frame AND 0x07)));
          writeRegister chip (kRegisterTxb0sidh + 2) 0x00;
          writeRegister chip (kRegisterTxb0sidh + 3) 0x00;
          writeRegister chip kRegisterTxb0dlc (cf_size frame);
          mcp_write_data chip kRegisterTxb0d0 (take (unat (cf_size frame)) (cf_data frame));
          mcp_request_to_send chip;
          State_Monad.return True
        }
      })"

text \<open>The buffer \<^verbatim>\<open>receive\<close> reads: its flag and the registers of its identifier, length and data.\<close>

definition mcp_pending_buffer :: "u8 \<Rightarrow> (u8 \<times> u8 \<times> u8 \<times> u8) option" where
  "mcp_pending_buffer flags =
     (if flags AND kReceiveBuffer0Flag \<noteq> 0
      then Some (kReceiveBuffer0Flag, kRegisterRxb0sidh, kRegisterRxb0dlc, kRegisterRxb0d0)
      else if flags AND kReceiveBuffer1Flag \<noteq> 0
      then Some (kReceiveBuffer1Flag, kRegisterRxb1sidh, kRegisterRxb1dlc, kRegisterRxb1d0)
      else None)"

text \<open>The loop over the data bytes of \<^verbatim>\<open>receive\<close>, for the indices left.\<close>

primrec mcp_read_data :: "'d SpiChip \<Rightarrow> u8 \<Rightarrow> nat list \<Rightarrow> bytes \<Rightarrow> ('d, bytes) avr_op" where
  "mcp_read_data chip data_register [] out = State_Monad.return out"
| "mcp_read_data chip data_register (i # is) out = do {
     b \<leftarrow> readRegister chip (data_register + of_nat i);
     mcp_read_data chip data_register is (out[i := b])
   }"

definition mcp_receive_buffer ::
  "'d SpiChip \<Rightarrow> u8 \<times> u8 \<times> u8 \<times> u8 \<Rightarrow> Mcp2515CanFrame \<Rightarrow> ('d, bool \<times> Mcp2515CanFrame) avr_op" where
  "mcp_receive_buffer chip buffer frame = (case buffer of (flag, identifier_register, dlc_register, data_register) \<Rightarrow> do {
     sidh \<leftarrow> readRegister chip identifier_register;
     sidl \<leftarrow> readRegister chip (identifier_register + 1);
     if sidl AND kExtendedIdentifier \<noteq> 0 then do {
       bitModify chip kRegisterCanintf flag 0x00;
       State_Monad.return (False, frame)
     }
     else do {
       let frame1 = frame\<lparr>cf_identifier := push_bit 3 (ucast sidh) OR ucast (drop_bit 5 sidl)\<rparr>;
       dlc \<leftarrow> readRegister chip dlc_register;
       if dlc AND 0x40 \<noteq> 0 then do {
         bitModify chip kRegisterCanintf flag 0x00;
         State_Monad.return (False, frame1)
       }
       else do {
         let n = (if 8 < dlc AND 0x0F then 8 else dlc AND 0x0F);
         bs \<leftarrow> mcp_read_data chip data_register [0..<unat n] (cf_data frame1);
         bitModify chip kRegisterCanintf flag 0x00;
         State_Monad.return (True, frame1\<lparr>cf_size := n, cf_data := bs\<rparr>)
       }
     }
   })"

definition mcp_receive :: "'d SpiChip \<Rightarrow> Mcp2515CanFrame \<Rightarrow> ('d, bool \<times> Mcp2515CanFrame) avr_op" where
  "mcp_receive chip frame = do {
     flags \<leftarrow> readRegister chip kRegisterCanintf;
     case mcp_pending_buffer flags of
       None \<Rightarrow> State_Monad.return (False, frame)
     | Some buffer \<Rightarrow> mcp_receive_buffer chip buffer frame
   }"

subsection \<open>Transactions\<close>

text \<open>What the controller sees: a run of bytes between two edges of its select line.\<close>

fun exchange_all :: "'d SpiChip \<Rightarrow> bytes \<Rightarrow> 'd \<Rightarrow> bytes \<times> 'd" where
  "exchange_all chip [] d = ([], d)"
| "exchange_all chip (b # bs) d =
     (case chip_exchange chip b d of (r, d1) \<Rightarrow> case exchange_all chip bs d1 of (rs, d2) \<Rightarrow> (r # rs, d2))"

definition spi_session :: "'d SpiChip \<Rightarrow> bytes \<Rightarrow> 'd \<Rightarrow> bytes \<times> 'd" where
  "spi_session chip bs d =
     (case exchange_all chip bs (chip_select chip True d) of (rs, d1) \<Rightarrow> (rs, chip_select chip False d1))"

text \<open>Every operation leaves the select line high and the other pins of the port alone.\<close>

definition bus_released :: "'d \<Rightarrow> 'd Avr \<Rightarrow> 'd Avr" where
  "bus_released d s = s\<lparr>avr_portb := avr_portb s OR kPortB2, avr_chip := d\<rparr>"

lemma bus_released_simps [simp]:
  "avr_chip (bus_released d s) = d"
  "bus_released d' (bus_released d s) = bus_released d' s"
  "avr_portb (bus_released d s) = avr_portb s OR kPortB2"
  by (simp_all add: bus_released_def)

lemma run_state_update [simp]: "run_state (State_Monad.update f) s = ((), f s)"
  by (simp add: State_Monad.update_def)

lemma portb_pulse [simp]: "(x AND NOT m) OR m = x OR (m :: u8)"
  by (intro bit_eqI) (auto simp: bit_simps)

lemma spi_ops:
  "run_state (mcp_reset chip) s = ((), bus_released (snd (spi_session chip [kInstructionReset] (avr_chip s))) s)"
  "run_state (readRegister chip a) s =
     (fst (spi_session chip [kInstructionRead, a, 0] (avr_chip s)) ! 2,
      bus_released (snd (spi_session chip [kInstructionRead, a, 0] (avr_chip s))) s)"
  "run_state (writeRegister chip a v) s = ((), bus_released (snd (spi_session chip [kInstructionWrite, a, v] (avr_chip s))) s)"
  "run_state (bitModify chip a m v) s = ((), bus_released (snd (spi_session chip [kInstructionBitModify, a, m, v] (avr_chip s))) s)"
  "run_state (mcp_request_to_send chip) s =
     ((), bus_released (snd (spi_session chip [kInstructionRequestToSendBuffer0] (avr_chip s))) s)"
  by (simp_all add: mcp_reset_def readRegister_def writeRegister_def bitModify_def mcp_request_to_send_def spi0ChipSelectAssert_def
      spi0ChipSelectDeassert_def spi0Transfer_def spi_session_def bus_released_def split: prod.splits)

text \<open>
  Whatever the controller answers, an operation either touches nothing or ends with the select
  line high and the other pins as they were.
\<close>

definition releases_bus :: "('d, 'a) avr_op \<Rightarrow> bool" where
  "releases_bus m \<longleftrightarrow> (\<forall>s. snd (run_state m s) = s \<or> (\<exists>d. snd (run_state m s) = bus_released d s))"

named_theorems bus_rules

lemma releases_return [bus_rules]: "releases_bus (State_Monad.return x)"
  by (simp add: releases_bus_def)

lemma releases_bind [bus_rules]:
  assumes "releases_bus m" and "\<And>x. releases_bus (k x)"
  shows "releases_bus (State_Monad.bind m k)"
  unfolding releases_bus_def
proof
  fix s
  obtain x s1 where m: "run_state m s = (x, s1)" by fastforce
  have "s1 = s \<or> (\<exists>d. s1 = bus_released d s)" using assms(1) m by (auto simp: releases_bus_def dest: spec [of _ s])
  moreover have "snd (run_state (k x) s1) = s1 \<or> (\<exists>d. snd (run_state (k x) s1) = bus_released d s1)"
    using assms(2) by (simp add: releases_bus_def)
  ultimately show "snd (run_state (State_Monad.bind m k) s) = s \<or> (\<exists>d. snd (run_state (State_Monad.bind m k) s) = bus_released d s)"
    using m by auto
qed

lemma releases_ops [bus_rules]:
  "releases_bus (mcp_reset chip)" "releases_bus (readRegister chip a)" "releases_bus (writeRegister chip a v)"
  "releases_bus (bitModify chip a m v)" "releases_bus (mcp_request_to_send chip)"
  by (auto simp: releases_bus_def spi_ops)

lemma releases_await [bus_rules]: "releases_bus (mcp_await_normal chip n)"
  by (induction n) (auto intro!: bus_rules)

lemma releases_write_data [bus_rules]: "releases_bus (mcp_write_data chip a bs)"
  by (induction bs arbitrary: a) (auto intro!: bus_rules)

lemma releases_read_data [bus_rules]: "releases_bus (mcp_read_data chip a is out)"
  by (induction "is" arbitrary: out) (auto intro!: bus_rules)

lemma releases_initialize: "releases_bus (initialize500Kbps8MHz chip)"
  unfolding initialize500Kbps8MHz_def probeCanstat_def by (auto intro!: bus_rules)

lemma releases_transmit: "releases_bus (mcp_transmit chip frame)"
  unfolding mcp_transmit_def by (auto intro!: bus_rules)

lemma releases_receive: "releases_bus (mcp_receive chip frame)"
  unfolding mcp_receive_def mcp_receive_buffer_def Let_def by (auto intro!: bus_rules split: option.splits)

subsection \<open>The controller\<close>

text \<open>
  What the data sheet says of the instructions, on a controller whose registers nothing else
  changes meanwhile: READ returns a register; WRITE sets the implemented bits of a register of
  transmit buffer 0 while no transmission of it is requested; BIT MODIFY works on the interrupt flags; RTS sets the transmit request.
\<close>

definition txb0_implemented :: "u8 \<Rightarrow> u8" where
  "txb0_implemented a = (if a = 0x32 then 0xEB else if a = 0x35 then 0x4F else 0xFF)"

definition mcp2515_law :: "'d SpiChip \<Rightarrow> ('d \<Rightarrow> u8 \<Rightarrow> u8) \<Rightarrow> bool" where
  "mcp2515_law chip regs \<longleftrightarrow>
     (\<forall>d a. fst (spi_session chip [0x03, a, 0] d) ! 2 = regs d a \<and> regs (snd (spi_session chip [0x03, a, 0] d)) = regs d)
     \<and> (\<forall>d a v. regs d 0x30 AND 0x08 = 0 \<and> 0x31 \<le> a \<and> a \<le> 0x3D \<and> v AND NOT (txb0_implemented a) = 0 \<longrightarrow>
          regs (snd (spi_session chip [0x02, a, v] d)) = (regs d)(a := v))
     \<and> (\<forall>d m v. regs (snd (spi_session chip [0x05, 0x2C, m, v] d)) = (regs d)(0x2C := (regs d 0x2C AND NOT m) OR (v AND m)))
     \<and> (\<forall>d. regs (snd (spi_session chip [0x81] d)) = (regs d)(0x30 := regs d 0x30 OR 0x08))"

lemma all_bits_implemented [simp]: "(b :: u8) AND - 256 = 0"
proof -
  have "- 256 = (0 :: u8)" by code_simp
  then show ?thesis by (metis and_zero_eq)
qed

lemma law_read:
  assumes "mcp2515_law chip regs"
  obtains d' where "run_state (readRegister chip a) s = (regs (avr_chip s) a, bus_released d' s)" "regs d' = regs (avr_chip s)"
  using assms by (auto simp: mcp2515_law_def spi_ops kInstructionRead_def)

lemma law_write:
  assumes "mcp2515_law chip regs" and "regs (avr_chip s) 0x30 AND 0x08 = 0"
    and "0x31 \<le> a" and "a \<le> 0x3D" and "v AND NOT (txb0_implemented a) = 0"
  obtains d' where "run_state (writeRegister chip a v) s = ((), bus_released d' s)" "regs d' = (regs (avr_chip s))(a := v)"
  using assms by (auto simp: mcp2515_law_def spi_ops kInstructionWrite_def)

lemma law_clear_flag:
  assumes "mcp2515_law chip regs"
  obtains d' where "run_state (bitModify chip kRegisterCanintf m 0) s = ((), bus_released d' s)"
    "regs d' = (regs (avr_chip s))(0x2C := regs (avr_chip s) 0x2C AND NOT m)"
  using assms by (auto simp: mcp2515_law_def spi_ops kInstructionBitModify_def kRegisterCanintf_def)

text \<open>A run of writes to consecutive registers.\<close>

definition write_regs :: "u8 \<Rightarrow> bytes \<Rightarrow> (u8 \<Rightarrow> u8) \<Rightarrow> u8 \<Rightarrow> u8" where
  "write_regs a bs r = (\<lambda>x. if unat a \<le> unat x \<and> unat x < unat a + length bs then bs ! (unat x - unat a) else r x)"

lemma write_regs_Nil [simp]: "write_regs a [] r = r"
  by (rule ext) (auto simp: write_regs_def)

lemma write_regs_Cons:
  assumes "unat a < 255"
  shows "write_regs (a + 1) bs (r(a := b)) = write_regs a (b # bs) r"
proof
  fix x :: u8
  have u: "unat (a + 1) = unat a + 1" using assms by (simp add: unat_word_ariths)
  have "unat x = unat a \<longleftrightarrow> x = a" by (simp add: unat_eq_iff)
  then show "write_regs (a + 1) bs (r(a := b)) x = write_regs a (b # bs) r x"
    using u by (auto simp: write_regs_def nth_Cons')
qed

lemma write_data_regs:
  assumes law: "mcp2515_law chip regs" and "regs d 0x30 AND 0x08 = 0" and "0x36 \<le> unat a" and "unat a + length bs \<le> 0x3E"
  shows "\<exists>d'. run_state (mcp_write_data chip a bs) (bus_released d s) = ((), bus_released d' s)
    \<and> regs d' = write_regs a bs (regs d)"
  using assms(2-4)
proof (induction bs arbitrary: a d)
  case (Cons b bs)
  have a: "0x31 \<le> a" "a \<le> 0x3D" "a \<noteq> 0x32" "a \<noteq> 0x35" "a \<noteq> 0x30" using Cons.prems by (auto simp: word_le_nat_alt)
  then have "b AND NOT (txb0_implemented a) = 0" by (simp add: txb0_implemented_def)
  then obtain d1 where w: "run_state (writeRegister chip a b) (bus_released d s) = ((), bus_released d1 s)"
    "regs d1 = (regs d)(a := b)"
    using law_write [OF law _ a(1,2), where s = "bus_released d s"] Cons.prems(1) by auto
  have idle1: "regs d1 0x30 AND 0x08 = 0" using w(2) a(5) Cons.prems(1) by simp
  have u: "unat (a + 1) = unat a + 1" using Cons.prems by (simp add: unat_word_ariths)
  obtain d2 where "run_state (mcp_write_data chip (a + 1) bs) (bus_released d1 s) = ((), bus_released d2 s)"
    "regs d2 = write_regs (a + 1) bs (regs d1)"
    using Cons.IH [OF idle1, of "a + 1"] Cons.prems u by auto
  then show ?case using w Cons.prems write_regs_Cons [of a bs "regs d" b] by auto
qed auto

subsection \<open>Transmission\<close>

lemma sidl_implemented: "(ucast (push_bit 5 ((x :: u16) AND 0x07)) :: u8) AND NOT 0xEB = 0"
proof (rule bit_eqI)
  fix i
  have "bit (0xEB :: u8) 5" "bit (0xEB :: u8) 6" "bit (0xEB :: u8) 7" by code_simp+
  then have "5 \<le> i \<Longrightarrow> i < 8 \<Longrightarrow> bit (0xEB :: u8) i"
    by (cases "i = 5"; cases "i = 6"; cases "i = 7") auto
  then show "bit ((ucast (push_bit 5 (x AND 0x07)) :: u8) AND NOT 0xEB) i = bit (0 :: u8) i"
    by (auto simp: bit_simps)
qed

lemma sidl_standard: "(ucast (push_bit 5 ((x :: u16) AND 0x07)) :: u8) AND 0xE8 = ucast (push_bit 5 (x AND 0x07))"
proof (rule bit_eqI)
  fix i
  have "bit (0xE8 :: u8) 5" "bit (0xE8 :: u8) 6" "bit (0xE8 :: u8) 7" by code_simp+
  then have "5 \<le> i \<Longrightarrow> i < 8 \<Longrightarrow> bit (0xE8 :: u8) i"
    by (cases "i = 5"; cases "i = 6"; cases "i = 7") auto
  then show "bit ((ucast (push_bit 5 (x AND 0x07)) :: u8) AND 0xE8) i = bit (ucast (push_bit 5 (x AND 0x07)) :: u8) i"
    by (auto simp: bit_simps)
qed

lemma can_sizes: "(x :: u8) \<le> 8 \<Longrightarrow> x \<in> {0, 1, 2, 3, 4, 5, 6, 7, 8}"
proof -
  assume "x \<le> 8"
  then have "unat x \<in> {0, 1, 2, 3, 4, 5, 6, 7, 8}" by (auto simp: word_le_nat_alt)
  then show ?thesis by (auto simp: word_unat_eq_iff)
qed

lemma size_implemented: "(x :: u8) \<le> 8 \<Longrightarrow> x AND NOT 0x4F = 0 \<and> x AND 0x4F = x \<and> x AND 0x0F = x \<and> x AND 0x40 = 0"
  using can_sizes [of x] by auto

lemma transmit_refused:
  "0x07FF < cf_identifier frame \<or> 8 < cf_size frame \<Longrightarrow> run_state (mcp_transmit chip frame) s = (False, s)"
  by (simp add: mcp_transmit_def)

text \<open>The registers of transmit buffer 0 for a frame.\<close>

definition frame_registers :: "Mcp2515CanFrame \<Rightarrow> bytes" where
  "frame_registers frame = [ucast (drop_bit 3 (cf_identifier frame)), ucast (push_bit 5 (cf_identifier frame AND 0x07)), 0, 0,
     cf_size frame] @ take (unat (cf_size frame)) (cf_data frame)"

definition frame_valid :: "Mcp2515CanFrame \<Rightarrow> bool" where
  "frame_valid frame \<longleftrightarrow> cf_identifier frame \<le> 0x07FF \<and> cf_size frame \<le> 8 \<and> length (cf_data frame) = 8"

lemma transmit_busy:
  assumes law: "mcp2515_law chip regs" and v: "frame_valid frame" and busy: "regs (avr_chip s) 0x30 AND 0x08 \<noteq> 0"
  shows "\<exists>d. run_state (mcp_transmit chip frame) s = (False, bus_released d s) \<and> regs d = regs (avr_chip s)"
proof -
  obtain d where "run_state (readRegister chip 0x30) s = (regs (avr_chip s) 0x30, bus_released d s)" "regs d = regs (avr_chip s)"
    using law_read [OF law] by blast
  then show ?thesis
    using busy v by (auto simp: mcp_transmit_def kRegisterTxb0ctrl_def kTransmitRequest_def frame_valid_def)
qed

lemma transmit_registers:
  assumes law: "mcp2515_law chip regs" and v: "frame_valid frame" and idle: "regs (avr_chip s) 0x30 AND 0x08 = 0"
  shows "\<exists>d. run_state (mcp_transmit chip frame) s = (True, bus_released d s)
    \<and> regs d = (write_regs 0x31 (frame_registers frame) (regs (avr_chip s)))(0x30 := regs (avr_chip s) 0x30 OR 0x08)"
proof -
  let ?r = "regs (avr_chip s)" and ?h = "ucast (drop_bit 3 (cf_identifier frame)) :: u8"
    and ?l = "ucast (push_bit 5 (cf_identifier frame AND 0x07)) :: u8"
  obtain d0 where d0: "run_state (readRegister chip 0x30) s = (?r 0x30, bus_released d0 s)" "regs d0 = ?r"
    using law_read [OF law] by blast
  have l: "?l AND NOT 0xEB = 0" by (rule sidl_implemented)
  have z: "cf_size frame AND NOT 0x4F = 0" using v size_implemented by (simp add: frame_valid_def)
  obtain d1 where d1: "run_state (writeRegister chip 0x31 ?h) (bus_released d0 s) = ((), bus_released d1 s)" "regs d1 = ?r(0x31 := ?h)"
    using law_write [OF law, of "bus_released d0 s" "0x31" ?h] d0 idle by (auto simp: txb0_implemented_def)
  have i1: "regs d1 0x30 AND 0x08 = 0" using d1(2) d0(2) idle by simp
  obtain d2 where d2: "run_state (writeRegister chip 0x32 ?l) (bus_released d1 s) = ((), bus_released d2 s)" "regs d2 = (regs d1)(0x32 := ?l)"
    using law_write [OF law, of "bus_released d1 s" "0x32" ?l] l i1 by (auto simp: txb0_implemented_def)
  have i2: "regs d2 0x30 AND 0x08 = 0" using d2(2) i1 by simp
  obtain d3 where d3: "run_state (writeRegister chip 0x33 0) (bus_released d2 s) = ((), bus_released d3 s)" "regs d3 = (regs d2)(0x33 := 0)"
    using law_write [OF law, of "bus_released d2 s" "0x33" 0] i2 by (auto simp: txb0_implemented_def)
  have i3: "regs d3 0x30 AND 0x08 = 0" using d3(2) i2 by simp
  obtain d4 where d4: "run_state (writeRegister chip 0x34 0) (bus_released d3 s) = ((), bus_released d4 s)" "regs d4 = (regs d3)(0x34 := 0)"
    using law_write [OF law, of "bus_released d3 s" "0x34" 0] i3 by (auto simp: txb0_implemented_def)
  have i4: "regs d4 0x30 AND 0x08 = 0" using d4(2) i3 by simp
  obtain d5 where d5: "run_state (writeRegister chip 0x35 (cf_size frame)) (bus_released d4 s) = ((), bus_released d5 s)"
    "regs d5 = (regs d4)(0x35 := cf_size frame)"
    using law_write [OF law, of "bus_released d4 s" "0x35" "cf_size frame"] z i4 by (auto simp: txb0_implemented_def)
  have i5: "regs d5 0x30 AND 0x08 = 0" using d5(2) i4 by simp
  let ?bs = "take (unat (cf_size frame)) (cf_data frame)"
  have len: "length ?bs \<le> 8" using v by (simp add: frame_valid_def)
  obtain d6 where d6: "run_state (mcp_write_data chip 0x36 ?bs) (bus_released d5 s) = ((), bus_released d6 s)"
    "regs d6 = write_regs 0x36 ?bs (regs d5)"
    using write_data_regs [OF law i5, of "0x36" ?bs s] len by auto
  have r: "regs d6 = write_regs 0x31 (frame_registers frame) ?r"
    unfolding d6(2) d5(2) d4(2) d3(2) d2(2) d1(2) frame_registers_def
    by (simp add: write_regs_Cons [symmetric])
  have nv: "\<not> (0x07FF < cf_identifier frame \<or> 8 < cf_size frame)" using v by (auto simp: frame_valid_def)
  let ?d = "snd (spi_session chip [0x81] d6)"
  have "run_state (mcp_transmit chip frame) s = (True, bus_released ?d s)"
    unfolding mcp_transmit_def if_not_P [OF nv]
    using d0(1) idle d1(1) d2(1) d3(1) d4(1) d5(1) d6(1)
    by (simp add: kRegisterTxb0ctrl_def kRegisterTxb0sidh_def kRegisterTxb0dlc_def kRegisterTxb0d0_def kTransmitRequest_def
        spi_ops(5) kInstructionRequestToSendBuffer0_def)
  moreover have "regs ?d = (write_regs 0x31 (frame_registers frame) ?r)(0x30 := ?r 0x30 OR 0x08)"
    using law r unfolding mcp2515_law_def by (simp add: write_regs_def)
  ultimately show ?thesis by blast
qed

subsection \<open>Reception\<close>

text \<open>What \<^verbatim>\<open>receive\<close> makes of the thirteen registers of a receive buffer.\<close>

lemma read_data_regs:
  assumes law: "mcp2515_law chip regs" and "unat a + n \<le> 256" and "n \<le> length out"
  shows "\<exists>d'. run_state (mcp_read_data chip a [k..<n] out) (bus_released d s)
      = (take k out @ map (\<lambda>i. regs d (a + of_nat i)) [k..<n] @ drop (max k n) out, bus_released d' s) \<and> regs d' = regs d"
  using assms(3)
proof (induction "n - k" arbitrary: k out d)
  case 0
  then show ?case by (auto simp: max_def)
next
  case (Suc m)
  then have k: "k < n" "k < length out" "[k..<n] = k # [Suc k..<n]" by (auto simp: upt_conv_Cons)
  have m: "m = n - Suc k" using Suc.hyps(2) by simp
  obtain d1 where r: "run_state (readRegister chip (a + of_nat k)) (bus_released d s) = (regs d (a + of_nat k), bus_released d1 s)"
    "regs d1 = regs d"
    using law_read [OF law, of "a + of_nat k" "bus_released d s"] by auto
  obtain d2 where d2: "run_state (mcp_read_data chip a [Suc k..<n] (out[k := regs d (a + of_nat k)])) (bus_released d1 s)
      = (take (Suc k) (out[k := regs d (a + of_nat k)]) @ map (\<lambda>i. regs d1 (a + of_nat i)) [Suc k..<n]
          @ drop (max (Suc k) n) (out[k := regs d (a + of_nat k)]), bus_released d2 s)" "regs d2 = regs d1"
    using Suc.hyps(1) [of "Suc k" "out[k := regs d (a + of_nat k)]" d1] m Suc.prems by auto
  have "take (Suc k) (out[k := x]) = take k out @ [x]" for x using k(2) by (simp add: take_Suc_conv_app_nth)
  moreover have "drop (max (Suc k) n) (out[k := x]) = drop n out" for x using k(1) by (simp add: max_def)
  ultimately show ?case using r d2 k by (intro exI [of _ d2]) (simp add: max_def)
qed

lemma receive_empty:
  assumes law: "mcp2515_law chip regs" and "regs (avr_chip s) 0x2C AND 0x03 = 0"
  shows "\<exists>d. run_state (mcp_receive chip frame) s = ((False, frame), bus_released d s) \<and> regs d = regs (avr_chip s)"
proof -
  let ?f = "regs (avr_chip s) 0x2C"
  have "?f AND 0x01 = (?f AND 0x03) AND 0x01" "?f AND 0x02 = (?f AND 0x03) AND 0x02" by (simp_all add: and.assoc)
  then have f: "?f AND 0x01 = 0" "?f AND 0x02 = 0" using assms(2) by simp_all
  show ?thesis
    by (rule law_read [OF law, of "0x2C" s]) (use f in \<open>auto simp: mcp_receive_def kRegisterCanintf_def
        mcp_pending_buffer_def kReceiveBuffer0Flag_def kReceiveBuffer1Flag_def\<close>)
qed

lemma bit_7: "bit (7 :: 'a :: len word) i \<longleftrightarrow> i < 3 \<and> i < LENGTH('a)"
proof -
  have "bit (mask 3 :: 'a word) i \<longleftrightarrow> i < 3 \<and> i < LENGTH('a)" by (auto simp only: bit_mask_iff possible_bit_word)
  then show ?thesis by (simp add: mask_eq_exp_minus_1)
qed

lemma bit_7_int: "bit (7 :: int) i \<longleftrightarrow> i < 3"
proof -
  have "bit (mask 3 :: int) i \<longleftrightarrow> i < 3" by (auto simp only: bit_mask_iff possible_bit_int)
  then show ?thesis by (simp add: mask_eq_exp_minus_1)
qed

lemma identifier_registers:
  fixes x :: u16
  assumes "x \<le> 0x07FF"
  shows "push_bit 3 (ucast (ucast (drop_bit 3 x) :: u8)) OR ucast (drop_bit 5 (ucast (push_bit 5 (x AND 0x07)) :: u8)) = x"
    and "(ucast (push_bit 5 (x AND 0x07)) :: u8) AND 0x08 = 0"
proof -
  have "unat x < 2 ^ 11" using assms by (simp add: word_le_nat_alt)
  then have "take_bit 11 x = x" by (simp add: word_unat_eq_iff unsigned_take_bit_eq take_bit_nat_eq_self)
  then have x11: "bit x i \<Longrightarrow> i < 11" for i by (metis bit_take_bit_iff)
  show "push_bit 3 (ucast (ucast (drop_bit 3 x) :: u8)) OR ucast (drop_bit 5 (ucast (push_bit 5 (x AND 0x07)) :: u8)) = x"
  proof (rule bit_eqI)
    fix i
    show "bit (push_bit 3 (ucast (ucast (drop_bit 3 x) :: u8) :: u16) OR ucast (drop_bit 5 (ucast (push_bit 5 (x AND 0x07)) :: u8))) i = bit x i"
      using x11 [of i] by (cases "i < 3") (auto simp: bit_simps bit_7 bit_7_int simp del: push_bit_and dest: bit_imp_le_length)
  qed
  show "(ucast (push_bit 5 (x AND 0x07)) :: u8) AND 0x08 = 0"
  proof (rule bit_eqI)
    fix i
    have "bit (8 :: u8) i \<longleftrightarrow> i = 3" using bit_exp_iff [of 3 i, where ?'a = u8] by auto
    then show "bit ((ucast (push_bit 5 (x AND 0x07)) :: u8) AND 0x08) i = bit (0 :: u8) i" by (auto simp: bit_simps)
  qed
qed

text \<open>The identifier and the length are read from the bits of a frame alone.\<close>

lemma masked_registers:
  "drop_bit 5 (x :: u8) = drop_bit 5 (x AND 0xE8)" "x AND 0x08 = (x AND 0xE8) AND 0x08"
  "x AND 0x40 = (x AND 0x4F) AND 0x40" "x AND 0x0F = (x AND 0x4F) AND 0x0F"
proof -
  have "drop_bit 5 (x AND 0xE8) = drop_bit 5 x AND 0x07" by (simp add: drop_bit_and)
  also have "\<dots> = drop_bit 5 x" by (rule bit_eqI) (auto simp: bit_simps bit_7 bit_7_int dest: bit_imp_le_length)
  finally show "drop_bit 5 x = drop_bit 5 (x AND 0xE8)" by simp
qed (simp_all add: and.assoc)

text \<open>A buffer that holds the bits of a valid frame is read back as that frame, whatever else it holds.\<close>

lemma receive_buffer_frame:
  assumes law: "mcp2515_law chip regs" and v: "frame_valid f" and out: "length (cf_data out) = 8"
    and room: "unat a + 13 \<le> 256"
    and r: "regs d a = ucast (drop_bit 3 (cf_identifier f))"
      "regs d (a + 1) AND 0xE8 = ucast (push_bit 5 (cf_identifier f AND 0x07))" "regs d (a + 4) AND 0x4F = cf_size f"
    and dt: "\<And>i. i < unat (cf_size f) \<Longrightarrow> regs d (a + 5 + of_nat i) = cf_data f ! i"
  shows "\<exists>d'. run_state (mcp_receive_buffer chip (flag, a, a + 4, a + 5) out) (bus_released d s)
    = ((True, \<lparr>cf_identifier = cf_identifier f, cf_size = cf_size f,
         cf_data = take (unat (cf_size f)) (cf_data f) @ drop (unat (cf_size f)) (cf_data out)\<rparr>), bus_released d' s)
    \<and> regs d' = (regs d)(0x2C := regs d 0x2C AND NOT flag)"
proof -
  let ?n = "unat (cf_size f)"
  have f: "cf_identifier f \<le> 0x07FF" "cf_size f \<le> 8" "length (cf_data f) = 8" using v by (simp_all add: frame_valid_def)
  have n: "?n \<le> 8" using f(2) by (simp add: word_le_nat_alt)
  obtain d1 where d1: "run_state (readRegister chip a) (bus_released d s) = (regs d a, bus_released d1 s)" "regs d1 = regs d"
    using law_read [OF law, of a "bus_released d s"] by auto
  obtain d2 where d2: "run_state (readRegister chip (a + 1)) (bus_released d1 s) = (regs d (a + 1), bus_released d2 s)" "regs d2 = regs d"
    using law_read [OF law, of "a + 1" "bus_released d1 s"] d1 by auto
  obtain d3 where d3: "run_state (readRegister chip (a + 4)) (bus_released d2 s) = (regs d (a + 4), bus_released d3 s)" "regs d3 = regs d"
    using law_read [OF law, of "a + 4" "bus_released d2 s"] d2 by auto
  have u5: "unat (a + 5) + ?n \<le> 256" using room n by (simp add: unat_word_ariths)
  obtain d4 where d4: "run_state (mcp_read_data chip (a + 5) [0..<?n] (cf_data out)) (bus_released d3 s)
      = (map (\<lambda>i. regs d (a + 5 + of_nat i)) [0..<?n] @ drop ?n (cf_data out), bus_released d4 s)" "regs d4 = regs d"
    using read_data_regs [OF law u5, of "cf_data out" 0 d3 s] d3 out n by auto
  have m: "map (\<lambda>i. regs d (a + 5 + of_nat i)) [0..<?n] = take ?n (cf_data f)"
    using dt f n by (intro nth_equalityI) simp_all
  obtain d5 where d5: "run_state (bitModify chip kRegisterCanintf flag 0) (bus_released d4 s) = ((), bus_released d5 s)"
    "regs d5 = (regs d)(0x2C := regs d 0x2C AND NOT flag)"
    using law_clear_flag [OF law, of flag "bus_released d4 s"] d4 by auto
  have z: "regs d (a + 4) AND 0x40 = 0" "regs d (a + 4) AND 0x0F = cf_size f" "\<not> 8 < cf_size f"
    using size_implemented [OF f(2)] f(2) masked_registers(3,4) [of "regs d (a + 4)"] r(3) by auto
  have id: "push_bit 3 (ucast (regs d a)) OR ucast (drop_bit 5 (regs d (a + 1))) = cf_identifier f" "regs d (a + 1) AND 0x08 = 0"
    using identifier_registers [OF f(1)] masked_registers(1,2) [of "regs d (a + 1)"] r(1,2) by simp_all
  have fr: "out\<lparr>cf_identifier := cf_identifier f, cf_size := cf_size f, cf_data := bs\<rparr>
      = \<lparr>cf_identifier = cf_identifier f, cf_size = cf_size f, cf_data = bs\<rparr>" for bs
    by (cases out) simp
  show ?thesis
    using d1(1) d2(1) d3(1) d4(1) d5 m z id fr
    by (intro exI [of _ d5]) (simp add: mcp_receive_buffer_def kExtendedIdentifier_def Let_def)
qed

text \<open>
  The bus between two controllers: what a standard frame carries of the sender's transmit buffer (the
  eleven identifier bits, the bit that tells it from an extended frame, the remote-request bit, the
  length and that many data bytes) is in a receive buffer of the other, whose flag is raised.  The
  other bits of the receive buffer are not transmitted and may be anything.
\<close>

definition bus_delivers :: "(u8 \<Rightarrow> u8) \<Rightarrow> u8 \<times> u8 \<Rightarrow> (u8 \<Rightarrow> u8) \<Rightarrow> bool" where
  "bus_delivers sender buffer receiver \<longleftrightarrow> (case buffer of (flag, a) \<Rightarrow>
     receiver a = sender 0x31 \<and> receiver (a + 1) AND 0xE8 = sender 0x32 AND 0xE8
     \<and> receiver (a + 4) AND 0x4F = sender 0x35 AND 0x4F
     \<and> (\<forall>i < min 8 (unat (sender 0x35 AND 0x0F)). receiver (a + 5 + of_nat i) = sender (0x36 + of_nat i))
     \<and> receiver 0x2C AND flag \<noteq> 0 \<and> (flag = 0x02 \<longrightarrow> receiver 0x2C AND 0x01 = 0))"

definition receive_buffers :: "(u8 \<times> u8) list" where
  "receive_buffers = [(0x01, 0x61), (0x02, 0x71)]"

lemma write_regs_at: "unat a + i < 256 \<Longrightarrow> i < length bs \<Longrightarrow> write_regs a bs r (a + of_nat i) = bs ! i"
  by (simp add: write_regs_def unat_word_ariths unat_of_nat take_bit_nat_eq_self)

text \<open>After a transmission the transmit buffer holds the registers of the frame.\<close>

lemma length_frame_registers: "frame_valid f \<Longrightarrow> length (frame_registers f) \<le> 13"
  by (auto simp: frame_registers_def frame_valid_def word_le_nat_alt)

lemma transmitted_at:
  assumes "frame_valid f" and "i < length (frame_registers f)"
  shows "((write_regs 0x31 (frame_registers f) r)(0x30 := x)) (0x31 + of_nat i) = frame_registers f ! i"
proof -
  have "unat (0x31 + of_nat i :: u8) = 0x31 + i"
    using assms length_frame_registers [of f] by (simp add: unat_word_ariths unat_of_nat take_bit_nat_eq_self)
  then have "0x31 + of_nat i \<noteq> (0x30 :: u8)" by (simp only: word_unat_eq_iff) simp
  then show ?thesis using assms length_frame_registers [of f] by (simp add: write_regs_at)
qed

lemma receive_delivered:
  assumes rx: "mcp2515_law chip regs" and v: "frame_valid f" and out: "length (cf_data out) = 8"
    and buf: "(flag, a) \<in> set receive_buffers"
    and sent: "\<And>i. i < length (frame_registers f) \<Longrightarrow> sender (0x31 + of_nat i) = frame_registers f ! i"
    and del: "bus_delivers sender (flag, a) (regs (avr_chip s))"
  shows "\<exists>d. run_state (mcp_receive chip out) s = ((True, \<lparr>cf_identifier = cf_identifier f, cf_size = cf_size f,
          cf_data = take (unat (cf_size f)) (cf_data f) @ drop (unat (cf_size f)) (cf_data out)\<rparr>), bus_released d s)
        \<and> regs d = (regs (avr_chip s))(0x2C := regs (avr_chip s) 0x2C AND NOT flag)"
proof -
  obtain d0 where r: "run_state (readRegister chip 0x2C) s = (regs (avr_chip s) 0x2C, bus_released d0 s)"
    "regs d0 = regs (avr_chip s)"
    using law_read [OF rx] by blast
  have b: "mcp_pending_buffer (regs (avr_chip s) 0x2C) = Some (flag, a, a + 4, a + 5)" "unat a + 13 \<le> 256"
    using del buf by (auto simp: mcp_pending_buffer_def bus_delivers_def receive_buffers_def mcp_constants)
  have f: "cf_size f \<le> 8" "length (cf_data f) = 8" "unat (cf_size f) \<le> 8" using v by (simp_all add: frame_valid_def word_le_nat_alt)
  have len: "length (frame_registers f) = 5 + unat (cf_size f)" using f by (simp add: frame_registers_def)
  have s: "sender 0x31 = ucast (drop_bit 3 (cf_identifier f))" "sender 0x32 = ucast (push_bit 5 (cf_identifier f AND 0x07))"
    "sender 0x35 = cf_size f"
    using sent [of 0] sent [of 1] sent [of 4] len by (simp_all add: frame_registers_def)
  have "sender (0x36 + of_nat i) = cf_data f ! i" if "i < unat (cf_size f)" for i
    using sent [of "5 + i"] len that f by (simp add: frame_registers_def add.assoc [symmetric])
  then have data: "regs d0 (a + 5 + of_nat i) = cf_data f ! i" if "i < unat (cf_size f)" for i
    using del that r(2) s(3) size_implemented [OF f(1)] f(3) by (simp add: bus_delivers_def)
  have "regs d0 a = ucast (drop_bit 3 (cf_identifier f))" "regs d0 (a + 1) AND 0xE8 = ucast (push_bit 5 (cf_identifier f AND 0x07))"
    "regs d0 (a + 4) AND 0x4F = cf_size f"
    using del r(2) s size_implemented [OF f(1)] sidl_standard by (simp_all add: bus_delivers_def)
  from receive_buffer_frame [OF rx v out b(2) this data, of flag s] obtain d where "run_state (mcp_receive_buffer chip (flag, a, a + 4, a + 5) out) (bus_released d0 s)
      = ((True, \<lparr>cf_identifier = cf_identifier f, cf_size = cf_size f,
         cf_data = take (unat (cf_size f)) (cf_data f) @ drop (unat (cf_size f)) (cf_data out)\<rparr>), bus_released d s)"
    "regs d = (regs d0)(0x2C := regs d0 0x2C AND NOT flag)"
    by blast
  then show ?thesis using r b by (intro exI [of _ d]) (simp add: mcp_receive_def kRegisterCanintf_def)
qed

text \<open>Whatever the controller on the SPI bus does, initialising it, sending a frame and polling for one
  each either touch nothing or end with the chip-select pin released and every other pin of port B as
  it was; none of them can leave the bus claimed.\<close>

lemma can_driver_releases_bus:
  "releases_bus (initialize500Kbps8MHz chip) \<and> releases_bus (mcp_transmit chip frame) \<and> releases_bus (mcp_receive chip frame)"
  using releases_initialize releases_transmit releases_receive by blast

end
