(* ===== verification/Can_Console.thy ===== *)
theory Can_Console
  imports Can_Driver
begin

section \<open>The CAN test console\<close>

text \<open>
  \<^verbatim>\<open>examples/arduino-uno/mcp2515_can_test.cpp\<close>: frames are typed on the serial line as
  \<^verbatim>\<open>T:<identifier>:<data>\<close> in hexadecimal and sent on the bus; frames from the bus are reported as
  \<^verbatim>\<open>R:<identifier>:<data>\<close>.  Characters are bytes; the comparisons of the source agree for signed and
  unsigned \<^verbatim>\<open>char\<close>, since every bound is an ASCII digit or letter.
\<close>

record 'd CanConsole =
  cc_avr :: "'d Avr"
  cc_command :: bytes
  cc_command_size :: u8
  cc_uart_out :: bytes

definition kCommandCapacity :: nat where "kCommandCapacity = 24"

definition CanConsole_init :: "'d Avr \<Rightarrow> 'd CanConsole" where
  "CanConsole_init avr = \<lparr>cc_avr = avr, cc_command = replicate kCommandCapacity 0, cc_command_size = 0, cc_uart_out = []\<rparr>"

definition ascii :: "string \<Rightarrow> bytes" where
  "ascii = map of_char"

subsection \<open>Serial output\<close>

definition can_uart0WriteByte :: "u8 \<Rightarrow> 'd CanConsole \<Rightarrow> 'd CanConsole" where
  "can_uart0WriteByte byte c = c\<lparr>cc_uart_out := cc_uart_out c @ [byte]\<rparr>"

definition kHexDigits :: bytes where
  "kHexDigits = ascii ''0123456789ABCDEF''"

definition uart0WriteHexNibble :: "u8 \<Rightarrow> 'd CanConsole \<Rightarrow> 'd CanConsole" where
  "uart0WriteHexNibble nibble = can_uart0WriteByte (kHexDigits ! unat (nibble AND 0x0F))"

definition uart0WriteHexByte :: "u8 \<Rightarrow> 'd CanConsole \<Rightarrow> 'd CanConsole" where
  "uart0WriteHexByte val c = uart0WriteHexNibble val (uart0WriteHexNibble (drop_bit 4 val) c)"

fun writeString :: "bytes \<Rightarrow> 'd CanConsole \<Rightarrow> 'd CanConsole" where
  "writeString [] c = c"
| "writeString (ch # text) c = (if ch = 0 then c else writeString text (can_uart0WriteByte ch c))"

definition writeHexIdentifier :: "u16 \<Rightarrow> 'd CanConsole \<Rightarrow> 'd CanConsole" where
  "writeHexIdentifier identifier c =
     uart0WriteHexByte (ucast identifier) (uart0WriteHexNibble (ucast (drop_bit 8 identifier)) c)"

subsection \<open>Commands\<close>

definition parseHexNibble :: "u8 \<Rightarrow> u8 option" where
  "parseHexNibble ch =
     (if of_char CHR ''0'' \<le> ch \<and> ch \<le> of_char CHR ''9'' then Some (ch - of_char CHR ''0'')
      else if of_char CHR ''A'' \<le> ch \<and> ch \<le> of_char CHR ''F'' then Some (ch - of_char CHR ''A'' + 10)
      else if of_char CHR ''a'' \<le> ch \<and> ch \<le> of_char CHR ''f'' then Some (ch - of_char CHR ''a'' + 10)
      else None)"

definition parseHexByte :: "bytes \<Rightarrow> nat \<Rightarrow> u8 option" where
  "parseHexByte text i =
     (case parseHexNibble (text ! i) of None \<Rightarrow> None
      | Some high \<Rightarrow> (case parseHexNibble (text ! (i + 1)) of None \<Rightarrow> None
          | Some low \<Rightarrow> Some (push_bit 4 high OR low)))"

text \<open>The loop over the data bytes of \<^verbatim>\<open>processCommand\<close>, for the indices left.\<close>

primrec can_parse_data :: "bytes \<Rightarrow> nat list \<Rightarrow> bytes \<Rightarrow> bytes option" where
  "can_parse_data text [] out = Some out"
| "can_parse_data text (i # is) out =
     (case parseHexByte text (6 + 2 * i) of None \<Rightarrow> None | Some b \<Rightarrow> can_parse_data text is (out[i := b]))"

definition can_command_malformed :: "bytes \<Rightarrow> u8 \<Rightarrow> bool" where
  "can_command_malformed text n \<longleftrightarrow> n < 6 \<or> text ! 0 \<noteq> of_char CHR ''T'' \<or> text ! 1 \<noteq> of_char CHR '':''
     \<or> text ! 5 \<noteq> of_char CHR '':'' \<or> (n - 6) AND 1 \<noteq> 0 \<or> 16 < n - 6"

definition can_parse_identifier :: "bytes \<Rightarrow> u16 option" where
  "can_parse_identifier text =
     (case (parseHexNibble (text ! 2), parseHexNibble (text ! 3), parseHexNibble (text ! 4)) of
        (Some id_high, Some id_middle, Some id_low) \<Rightarrow>
          if 0x07 < id_high then None
          else Some (push_bit 8 (ucast id_high) OR push_bit 4 (ucast id_middle) OR ucast id_low)
      | _ \<Rightarrow> None)"

definition can_send_frame :: "'d SpiChip \<Rightarrow> Mcp2515CanFrame \<Rightarrow> 'd CanConsole \<Rightarrow> 'd CanConsole" where
  "can_send_frame chip frame c =
     (case run_state (mcp_transmit chip frame) (cc_avr c) of (sent, avr) \<Rightarrow>
        writeString (ascii (if sent then ''T:OK'' else ''T:BUSY'') @ [0x0D, 0x0A]) (c\<lparr>cc_avr := avr\<rparr>))"

definition can_reply_bad :: "'d CanConsole \<Rightarrow> 'd CanConsole" where
  "can_reply_bad = writeString (ascii ''T:BAD'' @ [0x0D, 0x0A])"

definition processCommand :: "'d SpiChip \<Rightarrow> 'd CanConsole \<Rightarrow> 'd CanConsole" where
  "processCommand chip c =
     (let text = cc_command c; n = cc_command_size c
      in if can_command_malformed text n then can_reply_bad c
         else (case can_parse_identifier text of None \<Rightarrow> can_reply_bad c
           | Some identifier \<Rightarrow>
               let frame = Mcp2515CanFrame_zero\<lparr>cf_identifier := identifier, cf_size := (n - 6) div 2\<rparr>
               in case can_parse_data text [0..<unat (cf_size frame)] (cf_data frame) of
                    None \<Rightarrow> can_reply_bad c
                  | Some bs \<Rightarrow> can_send_frame chip (frame\<lparr>cf_data := bs\<rparr>) c))"

definition can_receive_char :: "'d SpiChip \<Rightarrow> u8 \<Rightarrow> 'd CanConsole \<Rightarrow> 'd CanConsole" where
  "can_receive_char chip ch c =
     (if ch = 0x0D \<or> ch = 0x0A
      then if cc_command_size c \<noteq> 0 then (processCommand chip c)\<lparr>cc_command_size := 0\<rparr> else c
      else if unat (cc_command_size c) < kCommandCapacity
      then c\<lparr>cc_command := (cc_command c)[unat (cc_command_size c) := ch], cc_command_size := cc_command_size c + 1\<rparr>
      else can_reply_bad (c\<lparr>cc_command_size := 0\<rparr>))"

definition can_processUart :: "'d SpiChip \<Rightarrow> bytes \<Rightarrow> 'd CanConsole \<Rightarrow> 'd CanConsole" where
  "can_processUart chip available c = fold (can_receive_char chip) available c"

definition reportReceivedFrame :: "Mcp2515CanFrame \<Rightarrow> 'd CanConsole \<Rightarrow> 'd CanConsole" where
  "reportReceivedFrame frame c =
     (let c1 = can_uart0WriteByte (of_char CHR '':'') (writeHexIdentifier (cf_identifier frame) (writeString (ascii ''R:'') c));
          c2 = fold uart0WriteHexByte (take (unat (cf_size frame)) (cf_data frame)) c1
      in writeString [0x0D, 0x0A] c2)"

text \<open>One round of the inner loop of \<^verbatim>\<open>main\<close>: a frame is received and reported.\<close>

definition can_poll_bus :: "'d SpiChip \<Rightarrow> Mcp2515CanFrame \<Rightarrow> 'd CanConsole \<Rightarrow> bool \<times> Mcp2515CanFrame \<times> 'd CanConsole" where
  "can_poll_bus chip frame c =
     (case run_state (mcp_receive chip frame) (cc_avr c) of ((received, f), avr) \<Rightarrow>
        (received, f, if received then reportReceivedFrame f (c\<lparr>cc_avr := avr\<rparr>) else c\<lparr>cc_avr := avr\<rparr>))"

text \<open>The inner loop, and one round of the endless loop of \<^verbatim>\<open>main\<close> with the bytes that have arrived.\<close>

partial_function (option) can_drain_bus :: "'d SpiChip \<Rightarrow> Mcp2515CanFrame \<Rightarrow> 'd CanConsole \<Rightarrow> 'd CanConsole option" where
  "can_drain_bus chip frame c =
     (case can_poll_bus chip frame c of (received, f, c1) \<Rightarrow> if received then can_drain_bus chip f c1 else Some c1)"

definition can_main_round :: "'d SpiChip \<Rightarrow> bytes \<Rightarrow> 'd CanConsole \<Rightarrow> 'd CanConsole option" where
  "can_main_round chip available c = can_drain_bus chip Mcp2515CanFrame_zero (can_processUart chip available c)"

text \<open>The start of \<^verbatim>\<open>main\<close>, behind the set-up of the serial line and the bus: whether the console is ready.\<close>

definition can_main_start :: "'d SpiChip \<Rightarrow> 'd CanConsole \<Rightarrow> bool \<times> 'd CanConsole" where
  "can_main_start chip c =
     (case run_state (initialize500Kbps8MHz chip) (cc_avr c) of (ready, avr) \<Rightarrow>
        (ready, writeString (ascii (if ready then ''READY:500K'' else ''ERROR:MCP2515'') @ [0x0D, 0x0A]) (c\<lparr>cc_avr := avr\<rparr>)))"

subsection \<open>Text\<close>

definition hex1 :: "u8 \<Rightarrow> u8" where
  "hex1 n = kHexDigits ! unat (n AND 0x0F)"

definition hex2 :: "u8 \<Rightarrow> bytes" where
  "hex2 b = [hex1 (drop_bit 4 b), hex1 b]"

text \<open>A frame as both directions write it, after the \<^verbatim>\<open>T:\<close> or \<^verbatim>\<open>R:\<close>.\<close>

definition frame_text :: "Mcp2515CanFrame \<Rightarrow> bytes" where
  "frame_text frame = hex1 (ucast (drop_bit 8 (cf_identifier frame))) # hex2 (ucast (cf_identifier frame))
     @ ascii '':'' @ concat (map hex2 (take (unat (cf_size frame)) (cf_data frame)))"

lemma kHexDigits_eq: "kHexDigits = [0x30, 0x31, 0x32, 0x33, 0x34, 0x35, 0x36, 0x37, 0x38, 0x39, 0x41, 0x42, 0x43, 0x44, 0x45, 0x46]"
  by (simp add: kHexDigits_def ascii_def)

lemma low_nibble_less: "unat ((n :: u8) AND 0x0F) < 16"
proof -
  have "n AND 0x0F \<le> 0x0F" by (rule word_and_le1)
  then show ?thesis by (simp add: word_le_nat_alt)
qed

lemma parse_digit:
  assumes "k < 16"
  shows "parseHexNibble (kHexDigits ! k) = Some (of_nat k)"
proof -
  have "map parseHexNibble kHexDigits = map (\<lambda>k. Some (of_nat k)) [0..<16]" by code_simp
  then have "map parseHexNibble kHexDigits ! k = map (\<lambda>k. Some (of_nat k)) [0..<16] ! k" by simp
  moreover have "length kHexDigits = 16" by (simp add: kHexDigits_eq)
  ultimately show ?thesis using assms by simp
qed

lemma parse_hex1: "parseHexNibble (hex1 n) = Some (n AND 0x0F)"
  unfolding hex1_def parse_digit [OF low_nibble_less] by simp

lemma digit_not_control:
  assumes "k < 16"
  shows "kHexDigits ! k \<notin> {0, 0x0A, 0x0D}"
proof -
  have "kHexDigits ! k \<in> set kHexDigits" using assms by (intro nth_mem) (simp add: kHexDigits_eq)
  moreover have "list_all (\<lambda>d. d \<notin> {0, 0x0A, 0x0D}) kHexDigits" by (simp add: kHexDigits_eq)
  ultimately show ?thesis by (auto simp: list_all_iff)
qed

lemma hex1_not_control: "hex1 n \<notin> {0, 0x0A, 0x0D}"
  unfolding hex1_def by (rule digit_not_control [OF low_nibble_less])

lemma bit_15: "bit (15 :: 'a :: len word) i \<longleftrightarrow> i < 4 \<and> i < LENGTH('a)"
proof -
  have "bit (mask 4 :: 'a word) i \<longleftrightarrow> i < 4 \<and> i < LENGTH('a)" by (auto simp only: bit_mask_iff possible_bit_word)
  then show ?thesis by (simp add: mask_eq_exp_minus_1)
qed

lemma bit_15_int: "bit (15 :: int) i \<longleftrightarrow> i < 4"
proof -
  have "bit (mask 4 :: int) i \<longleftrightarrow> i < 4" by (auto simp only: bit_mask_iff possible_bit_int)
  then show ?thesis by (simp add: mask_eq_exp_minus_1)
qed

lemma nibbles_of_byte: "push_bit 4 (drop_bit 4 b AND 0x0F) OR (b AND 0x0F) = (b :: u8)"
proof (rule bit_eqI)
  fix i
  show "bit (push_bit 4 (drop_bit 4 b AND 0x0F) OR (b AND 0x0F)) i = bit b i"
    by (cases "i < 4") (auto simp: bit_simps bit_15 bit_15_int simp del: push_bit_and dest: bit_imp_le_length)
qed

lemma parse_hex2:
  assumes "text ! i = hex2 b ! 0" and "text ! (i + 1) = hex2 b ! 1"
  shows "parseHexByte text i = Some b"
  using assms nibbles_of_byte [of b] by (simp add: parseHexByte_def hex2_def parse_hex1 del: push_bit_and)

lemma writeString_out: "0 \<notin> set text \<Longrightarrow> writeString text c = c\<lparr>cc_uart_out := cc_uart_out c @ text\<rparr>"
  by (induction "text" arbitrary: c) (auto simp: can_uart0WriteByte_def)

lemma hex_nibble_out: "uart0WriteHexNibble n c = c\<lparr>cc_uart_out := cc_uart_out c @ [hex1 n]\<rparr>"
  by (simp add: uart0WriteHexNibble_def can_uart0WriteByte_def hex1_def)

lemma hex_byte_out: "uart0WriteHexByte b c = c\<lparr>cc_uart_out := cc_uart_out c @ hex2 b\<rparr>"
  by (simp add: uart0WriteHexByte_def hex_nibble_out hex2_def)

lemma hex_data_out: "fold uart0WriteHexByte bs c = c\<lparr>cc_uart_out := cc_uart_out c @ concat (map hex2 bs)\<rparr>"
  by (induction bs arbitrary: c) (simp_all add: hex_byte_out)

lemmas hex_out = hex_nibble_out hex_byte_out hex_data_out

lemma report_text:
  "reportReceivedFrame frame c = c\<lparr>cc_uart_out := cc_uart_out c @ ascii ''R:'' @ frame_text frame @ [0x0D, 0x0A]\<rparr>"
  by (simp add: reportReceivedFrame_def writeString_out hex_out writeHexIdentifier_def can_uart0WriteByte_def ascii_def
      frame_text_def Let_def)

subsection \<open>A typed frame reaches the bus\<close>

lemma length_hex2 [simp]: "length (hex2 b) = 2"
  by (simp add: hex2_def)

lemma length_hex_data: "length (concat (map hex2 bs)) = 2 * length bs"
  by (induction bs) simp_all

lemma nth_hex_data:
  assumes "i < length bs"
  shows "concat (map hex2 bs) ! (2 * i) = hex2 (bs ! i) ! 0 \<and> concat (map hex2 bs) ! (2 * i + 1) = hex2 (bs ! i) ! 1"
  using assms
proof (induction bs arbitrary: i)
  case (Cons b bs)
  then show ?case by (cases i) (auto simp: hex2_def)
qed simp

lemma parse_data_hex:
  assumes "\<And>i. i < n \<Longrightarrow> parseHexByte text (6 + 2 * i) = Some (bs ! i)" and "n \<le> length out" and "n \<le> length bs"
  shows "can_parse_data text [k..<n] out = Some (take k out @ drop k (take n bs) @ drop (max k n) out)"
  using assms(2)
proof (induction "n - k" arbitrary: k out)
  case 0
  then show ?case using assms(3) by (auto simp: max_def)
next
  case (Suc m)
  then have k: "k < n" "k < length out" "[k..<n] = k # [Suc k..<n]" by (auto simp: upt_conv_Cons)
  have "drop k (take n bs) = bs ! k # drop (Suc k) (take n bs)"
    using k(1) assms(3) by (simp add: Cons_nth_drop_Suc [symmetric])
  moreover have "take (Suc k) (out[k := bs ! k]) = take k out @ [bs ! k]" using k(2) by (simp add: take_Suc_conv_app_nth)
  moreover have "drop (max (Suc k) n) (out[k := bs ! k]) = drop n out" using k(1) by (simp add: max_def)
  moreover have "m = n - Suc k" using Suc.hyps(2) by simp
  ultimately show ?case
    using Suc.hyps(1) [of "Suc k" "out[k := bs ! k]"] Suc.prems k assms(1) by (simp add: max_def)
qed

lemma identifier_digits:
  fixes x :: u16
  assumes "x \<le> 0x07FF"
  shows "push_bit 8 (ucast ((ucast (drop_bit 8 x) :: u8) AND 0x0F)) OR push_bit 4 (ucast (drop_bit 4 (ucast x :: u8) AND 0x0F))
      OR ucast ((ucast x :: u8) AND 0x0F) = x"
    and "\<not> 0x07 < (ucast (drop_bit 8 x) :: u8) AND 0x0F"
proof -
  have "unat x < 2 ^ 11" using assms by (simp add: word_le_nat_alt)
  then have "take_bit 11 x = x" by (simp add: word_unat_eq_iff unsigned_take_bit_eq take_bit_nat_eq_self)
  then have x11: "bit x i \<Longrightarrow> i < 11" for i by (metis bit_take_bit_iff)
  show "push_bit 8 (ucast ((ucast (drop_bit 8 x) :: u8) AND 0x0F)) OR push_bit 4 (ucast (drop_bit 4 (ucast x :: u8) AND 0x0F))
      OR ucast ((ucast x :: u8) AND 0x0F) = x"
  proof (rule bit_eqI)
    fix i
    show "bit (push_bit 8 (ucast ((ucast (drop_bit 8 x) :: u8) AND 0x0F)) OR push_bit 4 (ucast (drop_bit 4 (ucast x :: u8) AND 0x0F))
      OR ucast ((ucast x :: u8) AND 0x0F) :: u16) i = bit x i"
      using x11 [of i] by (cases "i < 4"; cases "i < 8")
        (auto simp: bit_simps bit_15 bit_15_int simp del: push_bit_and dest: bit_imp_le_length)
  qed
  have "(ucast (drop_bit 8 x) :: u8) AND 0x0F = (ucast (drop_bit 8 x) :: u8) AND 0x07"
  proof (rule bit_eqI)
    fix i
    show "bit ((ucast (drop_bit 8 x) :: u8) AND 0x0F) i = bit ((ucast (drop_bit 8 x) :: u8) AND 0x07) i"
      using x11 [of "8 + i"] by (auto simp: bit_simps bit_15 bit_15_int bit_7 bit_7_int)
  qed
  then show "\<not> 0x07 < (ucast (drop_bit 8 x) :: u8) AND 0x0F" using word_and_le1 [of "ucast (drop_bit 8 x) :: u8" 7] by auto
qed

text \<open>The characters of a command are collected until the line ends.\<close>

lemma collect_command:
  assumes "set text \<inter> {0x0A, 0x0D} = {}" and "unat (cc_command_size c) + length text \<le> kCommandCapacity"
    and "length (cc_command c) = kCommandCapacity"
  shows "can_processUart chip text c = c\<lparr>cc_command := span_write (unat (cc_command_size c)) text (cc_command c),
    cc_command_size := cc_command_size c + of_nat (length text)\<rparr>"
  using assms
proof (induction "text" arbitrary: c)
  case (Cons ch more)
  let ?n = "unat (cc_command_size c)"
  let ?c = "c\<lparr>cc_command := (cc_command c)[?n := ch], cc_command_size := cc_command_size c + 1\<rparr>"
  have n: "unat (cc_command_size c + 1) = ?n + 1" using Cons.prems(2) by (simp add: unat_word_ariths kCommandCapacity_def)
  have "can_receive_char chip ch c = ?c" using Cons.prems by (simp add: can_receive_char_def)
  then have "can_processUart chip (ch # more) c = can_processUart chip more ?c" by (simp add: can_processUart_def)
  also have "\<dots> = ?c\<lparr>cc_command := span_write (?n + 1) more ((cc_command c)[?n := ch]),
      cc_command_size := cc_command_size c + 1 + of_nat (length more)\<rparr>"
    using Cons.IH [of ?c] Cons.prems n by simp
  also have "span_write (?n + 1) more ((cc_command c)[?n := ch]) = span_write ?n (ch # more) (cc_command c)"
    using Cons.prems(2,3) by (simp add: span_write_def take_Suc_conv_app_nth)
  finally show ?case by (simp add: add.assoc)
qed (simp add: can_processUart_def span_write_def)

definition command_text :: "Mcp2515CanFrame \<Rightarrow> bytes" where
  "command_text frame = ascii ''T:'' @ frame_text frame"

lemma command_text_shape:
  assumes "frame_valid f"
  shows "length (command_text f) = 6 + 2 * unat (cf_size f)" and "length (command_text f) \<le> 22"
    and "set (command_text f) \<inter> {0x0A, 0x0D} = {}"
proof -
  have n: "unat (cf_size f) \<le> 8" "length (cf_data f) = 8" using assms by (simp_all add: frame_valid_def word_le_nat_alt)
  then show l: "length (command_text f) = 6 + 2 * unat (cf_size f)"
    by (simp add: command_text_def frame_text_def ascii_def length_hex_data hex2_def)
  show "length (command_text f) \<le> 22" using l n by simp
  have "hex1 k \<noteq> 0x0A" "hex1 k \<noteq> 0x0D" for k using hex1_not_control [of k] by auto
  then show "set (command_text f) \<inter> {0x0A, 0x0D} = {}"
    by (auto simp: command_text_def frame_text_def ascii_def hex2_def)
qed

text \<open>The console reads a command back as the frame it was written from.\<close>

lemma command_parses:
  assumes v: "frame_valid f" and t: "take (length (command_text f)) cmd = command_text f" and len: "length cmd = 24"
  shows "\<not> can_command_malformed cmd (of_nat (length (command_text f)))"
    and "can_parse_identifier cmd = Some (cf_identifier f)"
    and "(of_nat (length (command_text f)) - 6) div 2 = cf_size f"
    and "can_parse_data cmd [0..<unat (cf_size f)] (replicate 8 0)
      = Some (take (unat (cf_size f)) (cf_data f) @ replicate (8 - unat (cf_size f)) 0)"
proof -
  let ?t = "command_text f" and ?n = "unat (cf_size f)"
  note shape = command_text_shape [OF v]
  have f: "cf_identifier f \<le> 0x07FF" "?n \<le> 8" "length (cf_data f) = 8" using v by (simp_all add: frame_valid_def word_le_nat_alt)
  have at: "cmd ! i = ?t ! i" if "i < length ?t" for i using t that by (metis nth_take)
  have "unat (of_nat (length ?t) :: u8) = length ?t" using shape(2) by (simp only: unat_of_nat) (simp add: take_bit_nat_eq_self)
  then have u: "unat (of_nat (length ?t) :: u8) = 6 + 2 * ?n" using shape(1) by linarith
  have m: "unat (of_nat (length ?t) - 6 :: u8) = 2 * ?n" using u by (subst unat_sub_le) simp_all
  have even: "(of_nat (length ?t) - 6 :: u8) AND 1 = 0"
    by (simp only: and_one_eq word_unat_eq_iff unat_mod_distrib m) simp
  show "\<not> can_command_malformed cmd (of_nat (length ?t))"
  proof -
    have "cmd ! 0 = of_char CHR ''T''" "cmd ! 1 = of_char CHR '':''" "cmd ! 5 = of_char CHR '':''"
      using at [of 0] at [of 1] at [of 5] shape(1) by (simp_all add: command_text_def frame_text_def ascii_def hex2_def)
    then show ?thesis using u m even f unfolding can_command_malformed_def by (simp add: word_less_nat_alt)
  qed
  show "can_parse_identifier cmd = Some (cf_identifier f)"
    using at [of 2] at [of 3] at [of 4] shape(1) identifier_digits [OF f(1)]
    by (simp add: can_parse_identifier_def command_text_def frame_text_def ascii_def hex2_def parse_hex1 del: push_bit_and)
  show "(of_nat (length ?t) - 6) div 2 = cf_size f"
    by (simp only: word_unat_eq_iff unat_div_distrib m) simp
  have d: "parseHexByte cmd (6 + 2 * i) = Some (take ?n (cf_data f) ! i)" if "i < ?n" for i
  proof (rule parse_hex2)
    have t6: "?t ! (6 + k) = concat (map hex2 (take ?n (cf_data f))) ! k" for k
      by (simp add: command_text_def frame_text_def ascii_def hex2_def nth_append)
    have "i < length (take ?n (cf_data f))" using that f by simp
    note h = nth_hex_data [OF this]
    show "cmd ! (6 + 2 * i) = hex2 (take ?n (cf_data f) ! i) ! 0" using at [of "6 + 2 * i"] t6 [of "2 * i"] h that shape(1) by simp
    show "cmd ! (6 + 2 * i + 1) = hex2 (take ?n (cf_data f) ! i) ! 1"
      using at [of "6 + 2 * i + 1"] t6 [of "2 * i + 1"] h that shape(1) by (simp add: add.assoc)
  qed
  show "can_parse_data cmd [0..<?n] (replicate 8 0) = Some (take ?n (cf_data f) @ replicate (8 - ?n) 0)"
    using parse_data_hex [of ?n cmd "take ?n (cf_data f)" "replicate 8 0" 0] d f by simp
qed

lemma console_report:
  assumes "mcp2515_law chip regs" and v: "frame_valid f" and "length (cf_data out) = 8" and "(flag, a) \<in> set receive_buffers"
    and "\<And>i. i < length (frame_registers f) \<Longrightarrow> sender (0x31 + of_nat i) = frame_registers f ! i"
    and "bus_delivers sender (flag, a) (regs (avr_chip (cc_avr c)))"
  shows "\<exists>f' d. can_poll_bus chip out c = (True, f', c\<lparr>cc_avr := bus_released d (cc_avr c),
      cc_uart_out := cc_uart_out c @ ascii ''R:'' @ frame_text f @ [0x0D, 0x0A]\<rparr>)
    \<and> regs d = (regs (avr_chip (cc_avr c)))(0x2C := regs (avr_chip (cc_avr c)) 0x2C AND NOT flag)"
proof -
  let ?f = "\<lparr>cf_identifier = cf_identifier f, cf_size = cf_size f,
    cf_data = take (unat (cf_size f)) (cf_data f) @ drop (unat (cf_size f)) (cf_data out)\<rparr>"
  obtain d where "run_state (mcp_receive chip out) (cc_avr c) = ((True, ?f), bus_released d (cc_avr c))"
    "regs d = (regs (avr_chip (cc_avr c)))(0x2C := regs (avr_chip (cc_avr c)) 0x2C AND NOT flag)"
    using receive_delivered [OF assms] by blast
  moreover have "frame_text ?f = frame_text f" using v by (simp add: frame_text_def frame_valid_def word_le_nat_alt)
  ultimately show ?thesis by (intro exI [of _ ?f] exI [of _ d]) (simp add: can_poll_bus_def report_text)
qed

subsection \<open>Arbitrary lines\<close>





text \<open>Digits may be typed in either case; the console reads a line as its upper-case form.\<close>

definition hex_upper :: "u8 \<Rightarrow> u8" where
  "hex_upper ch = (if 0x61 \<le> ch \<and> ch \<le> 0x66 then ch - 0x20 else ch)"

lemma hex_digit_cases:
  fixes ch :: u8
  shows "0x61 \<le> ch \<Longrightarrow> ch \<le> 0x66 \<Longrightarrow> ch \<in> {0x61, 0x62, 0x63, 0x64, 0x65, 0x66}"
    and "0x41 \<le> ch \<Longrightarrow> ch \<le> 0x46 \<Longrightarrow> ch \<in> {0x41, 0x42, 0x43, 0x44, 0x45, 0x46}"
    and "0x30 \<le> ch \<Longrightarrow> ch \<le> 0x39 \<Longrightarrow> ch \<in> {0x30, 0x31, 0x32, 0x33, 0x34, 0x35, 0x36, 0x37, 0x38, 0x39}"
  unfolding word_le_nat_alt insert_iff empty_iff word_unat_eq_iff by (simp, presburger)+

lemma hex_upper_parses: "parseHexNibble (hex_upper ch) = parseHexNibble ch"
proof (cases "0x61 \<le> ch \<and> ch \<le> 0x66")
  case True
  then have "ch \<in> {0x61, 0x62, 0x63, 0x64, 0x65, 0x66}" using hex_digit_cases(1) by blast
  then show ?thesis by (elim insertE emptyE) (simp_all add: hex_upper_def parseHexNibble_def)
qed (simp only: hex_upper_def if_False)

lemma hex_upper_digit:
  assumes "parseHexNibble ch = Some v"
  shows "hex_upper ch = hex1 v"
proof -
  have "ch \<in> {0x30, 0x31, 0x32, 0x33, 0x34, 0x35, 0x36, 0x37, 0x38, 0x39} \<union> {0x41, 0x42, 0x43, 0x44, 0x45, 0x46}
      \<union> {0x61, 0x62, 0x63, 0x64, 0x65, 0x66}"
  proof (rule ccontr)
    assume "\<not> ?thesis"
    then have "\<not> (0x30 \<le> ch \<and> ch \<le> 0x39)" "\<not> (0x41 \<le> ch \<and> ch \<le> 0x46)" "\<not> (0x61 \<le> ch \<and> ch \<le> 0x66)"
      using hex_digit_cases by blast+
    then show False using assms by (auto simp: parseHexNibble_def split: if_splits)
  qed
  then show ?thesis
    using assms by (elim UnE insertE emptyE) (simp_all add: hex_upper_def parseHexNibble_def hex1_def kHexDigits_eq)
qed

lemma hex_upper_marks: "(hex_upper ch = 0x54) = (ch = 0x54)" "(hex_upper ch = 0x3A) = (ch = 0x3A)"
proof -
  have "((hex_upper ch = 0x54) = (ch = 0x54)) \<and> ((hex_upper ch = 0x3A) = (ch = 0x3A))"
  proof (cases "0x61 \<le> ch \<and> ch \<le> 0x66")
    case True
    then have "ch \<in> {0x61, 0x62, 0x63, 0x64, 0x65, 0x66}" using hex_digit_cases(1) by blast
    then show ?thesis by (elim insertE emptyE) (simp_all add: hex_upper_def)
  qed (simp only: hex_upper_def if_False)
  then show "(hex_upper ch = 0x54) = (ch = 0x54)" "(hex_upper ch = 0x3A) = (ch = 0x3A)" by simp_all
qed

lemma hex_upper_hex1 [simp]: "hex_upper (hex1 n) = hex1 n"
  using hex_upper_digit [OF parse_hex1 [of n]] by (simp add: hex1_def)

lemma hex_upper_command_text: "map hex_upper (command_text f) = command_text f"
proof -
  have "map hex_upper (hex2 b) = hex2 b" for b by (simp add: hex2_def)
  then have "map hex_upper (concat (map hex2 bs)) = concat (map hex2 bs)" for bs by (induction bs) simp_all
  then show ?thesis
    by (simp add: command_text_def frame_text_def ascii_def hex2_def) (simp add: hex_upper_def)
qed

text \<open>The parts of the parser look at a line through it only.\<close>

lemma parse_upper:
  assumes "length cmd = 24"
  shows "can_command_malformed (map hex_upper cmd) n = can_command_malformed cmd n"
    and "can_parse_identifier (map hex_upper cmd) = can_parse_identifier cmd"
    and "\<forall>i \<in> set is. i < 8 \<Longrightarrow> can_parse_data (map hex_upper cmd) is out = can_parse_data cmd is out"
proof -
  show "can_command_malformed (map hex_upper cmd) n = can_command_malformed cmd n"
    using assms by (simp add: can_command_malformed_def hex_upper_marks)
  show "can_parse_identifier (map hex_upper cmd) = can_parse_identifier cmd"
    using assms by (simp add: can_parse_identifier_def hex_upper_parses)
  have "parseHexByte (map hex_upper cmd) (6 + 2 * i) = parseHexByte cmd (6 + 2 * i)" if "i < 8" for i
  proof -
    have "6 + 2 * i < length cmd" "6 + 2 * i + 1 < length cmd" using assms that by simp_all
    then show ?thesis by (simp only: parseHexByte_def nth_map hex_upper_parses)
  qed
  then show "\<forall>i \<in> set is. i < 8 \<Longrightarrow> can_parse_data (map hex_upper cmd) is out = can_parse_data cmd is out"
    by (induction "is" arbitrary: out) (auto split: option.splits)
qed

text \<open>Typing a line and its end runs it as a command.\<close>

lemma typed_line:
  assumes c: "cc_command_size c = 0" "length (cc_command c) = kCommandCapacity"
    and l: "set line \<inter> {0x0A, 0x0D} = {}" "line \<noteq> []" "length line \<le> kCommandCapacity"
  shows "can_processUart chip (line @ [0x0D]) c = (processCommand chip (c\<lparr>cc_command := span_write 0 line (cc_command c),
    cc_command_size := of_nat (length line)\<rparr>))\<lparr>cc_command_size := 0\<rparr>"
proof -
  have "unat (of_nat (length line) :: u8) = length line"
    using l(3) by (simp add: unat_of_nat take_bit_nat_eq_self kCommandCapacity_def)
  then have nz: "of_nat (length line) \<noteq> (0 :: u8)" using l(2) by (metis length_0_conv unat_0)
  have "can_processUart chip line c = c\<lparr>cc_command := span_write 0 line (cc_command c), cc_command_size := of_nat (length line)\<rparr>"
    using collect_command [OF l(1), of c chip] c l(3) by simp
  then show ?thesis using nz unfolding can_processUart_def by (simp add: can_receive_char_def)
qed

lemma console_frame:
  assumes law: "mcp2515_law chip regs" and v: "frame_valid f" and line: "map hex_upper line = command_text f"
    and c: "cc_command_size c = 0" "length (cc_command c) = kCommandCapacity" and l: "set line \<inter> {0x0A, 0x0D} = {}"
  shows "\<exists>d reply. can_processUart chip (line @ [0x0D]) c = c\<lparr>cc_avr := bus_released d (cc_avr c),
      cc_command := span_write 0 line (cc_command c), cc_command_size := 0, cc_uart_out := cc_uart_out c @ reply @ [0x0D, 0x0A]\<rparr>
    \<and> (if regs (avr_chip (cc_avr c)) 0x30 AND 0x08 = 0
       then reply = ascii ''T:OK'' \<and> regs d = (write_regs 0x31 (frame_registers f)
           (regs (avr_chip (cc_avr c))))(0x30 := regs (avr_chip (cc_avr c)) 0x30 OR 0x08)
       else reply = ascii ''T:BUSY'' \<and> regs d = regs (avr_chip (cc_avr c)))"
proof -
  let ?t = "command_text f" and ?cmd = "span_write 0 line (cc_command c)" and ?n = "unat (cf_size f)"
  let ?f = "\<lparr>cf_identifier = cf_identifier f, cf_size = cf_size f, cf_data = take ?n (cf_data f) @ replicate (8 - ?n) 0\<rparr>"
  note shape = command_text_shape [OF v]
  have n: "length line = length ?t" using arg_cong [OF line, of length] by simp
  have ne: "line \<noteq> []" using n shape(1) by auto
  have n8: "?n \<le> 8" "length (cf_data f) = 8" using v by (simp_all add: frame_valid_def word_le_nat_alt)
  have len: "length ?cmd = 24" using c shape(2) n by (simp add: kCommandCapacity_def)
  have tk: "take (length ?t) (map hex_upper ?cmd) = ?t" using n line by (simp add: span_write_def take_map)
  note p = command_parses [OF v tk, simplified parse_upper [OF len] length_map, OF len]
  have data: "can_parse_data ?cmd [0..<?n] (replicate 8 0) = Some (take ?n (cf_data f) @ replicate (8 - ?n) 0)"
    using p(4) parse_upper(3) [OF len, of "[0..<?n]"] n8 by simp
  have vf: "frame_valid ?f" "frame_registers ?f = frame_registers f"
    using v n8 by (auto simp: frame_valid_def frame_registers_def)
  let ?c = "c\<lparr>cc_command := ?cmd, cc_command_size := of_nat (length line)\<rparr>"
  have fr: "Mcp2515CanFrame_zero\<lparr>cf_identifier := cf_identifier f, cf_size := cf_size f, cf_data := take ?n (cf_data f) @ replicate (8 - ?n) 0\<rparr> = ?f"
    by (simp add: Mcp2515CanFrame_zero_def)
  have "processCommand chip ?c = can_send_frame chip ?f ?c"
    unfolding processCommand_def Let_def using p(1-3) data fr n by (simp add: Mcp2515CanFrame_zero_def)
  then have run: "can_processUart chip (line @ [0x0D]) c = (can_send_frame chip ?f ?c)\<lparr>cc_command_size := 0\<rparr>"
    using typed_line [OF c l ne, of chip] n shape(2) by (simp add: kCommandCapacity_def)
  have sent: "can_processUart chip (line @ [0x0D]) c = c\<lparr>cc_avr := bus_released d (cc_avr c), cc_command := ?cmd, cc_command_size := 0,
      cc_uart_out := cc_uart_out c @ ascii (if ok then ''T:OK'' else ''T:BUSY'') @ [0x0D, 0x0A]\<rparr>"
    if "run_state (mcp_transmit chip ?f) (cc_avr c) = (ok, bus_released d (cc_avr c))" for ok d
    using run that by (cases c) (simp add: can_send_frame_def writeString_out ascii_def)
  show ?thesis
  proof (cases "regs (avr_chip (cc_avr c)) 0x30 AND 0x08 = 0")
    case True
    from transmit_registers [OF law vf(1) True] obtain d where "run_state (mcp_transmit chip ?f) (cc_avr c) = (True, bus_released d (cc_avr c))"
      "regs d = (write_regs 0x31 (frame_registers f) (regs (avr_chip (cc_avr c))))(0x30 := regs (avr_chip (cc_avr c)) 0x30 OR 0x08)"
      unfolding vf(2) by blast
    then show ?thesis using True sent by (intro exI [of _ d] exI [of _ "ascii ''T:OK''"]) simp
  next
    case False
    from transmit_busy [OF law vf(1) False] obtain d where "run_state (mcp_transmit chip ?f) (cc_avr c) = (False, bus_released d (cc_avr c))"
      "regs d = regs (avr_chip (cc_avr c))" by blast
    then show ?thesis using False sent by (intro exI [of _ d] exI [of _ "ascii ''T:BUSY''"]) simp
  qed
qed









subsection \<open>The receive loop ends\<close>

text \<open>Reading a receive buffer in any of its three ways lowers its flag and changes nothing else.\<close>

lemma read_data_keeps:
  assumes "mcp2515_law chip regs"
  shows "\<exists>bs d'. run_state (mcp_read_data chip a is out) (bus_released d s) = (bs, bus_released d' s) \<and> regs d' = regs d"
proof (induction "is" arbitrary: out d)
  case (Cons i "is")
  obtain d1 where "run_state (readRegister chip (a + of_nat i)) (bus_released d s) = (regs d (a + of_nat i), bus_released d1 s)"
    "regs d1 = regs d"
    using law_read [OF assms, of "a + of_nat i" "bus_released d s"] by auto
  then show ?case using Cons.IH [of "out[i := regs d (a + of_nat i)]" d1] by auto
qed auto

lemma receive_buffer_lowers:
  assumes law: "mcp2515_law chip regs"
  shows "\<exists>result d'. run_state (mcp_receive_buffer chip (flag, i, l, a) out) (bus_released d s) = (result, bus_released d' s)
    \<and> regs d' = (regs d)(0x2C := regs d 0x2C AND NOT flag)"
proof -
  obtain d1 where d1: "run_state (readRegister chip i) (bus_released d s) = (regs d i, bus_released d1 s)" "regs d1 = regs d"
    using law_read [OF law, of i "bus_released d s"] by auto
  obtain d2 where d2: "run_state (readRegister chip (i + 1)) (bus_released d1 s) = (regs d (i + 1), bus_released d2 s)" "regs d2 = regs d"
    using law_read [OF law, of "i + 1" "bus_released d1 s"] d1 by auto
  obtain d3 where d3: "run_state (readRegister chip l) (bus_released d2 s) = (regs d l, bus_released d3 s)" "regs d3 = regs d"
    using law_read [OF law, of l "bus_released d2 s"] d2 by auto
  have clear: "\<exists>e'. run_state (bitModify chip kRegisterCanintf flag 0) (bus_released e s) = ((), bus_released e' s)
    \<and> regs e' = (regs d)(0x2C := regs d 0x2C AND NOT flag)" if "regs e = regs d" for e
    using law_clear_flag [OF law, of flag "bus_released e s"] that by auto
  let ?n = "[0..<unat (if 8 < regs d l AND 0x0F then 8 else regs d l AND 0x0F)]"
  obtain bs d4 where d4: "run_state (mcp_read_data chip a ?n (cf_data out)) (bus_released d3 s) = (bs, bus_released d4 s)" "regs d4 = regs d"
    using read_data_keeps [OF law, of a ?n "cf_data out" d3 s] d3 by auto
  show ?thesis
    using d1(1) d2(1) d3(1) d4(1) clear [OF d2(2)] clear [OF d3(2)] clear [OF d4(2)]
    by (auto simp: mcp_receive_buffer_def Let_def)
qed

text \<open>The receive flags that are up.\<close>

definition pending_flags :: "u8 \<Rightarrow> nat" where
  "pending_flags f = (if f AND 0x01 \<noteq> 0 then 1 else 0) + (if f AND 0x02 \<noteq> 0 then 1 else 0)"

lemma flag_lowered: "(f AND NOT k) AND k = 0" "(f AND NOT 1) AND 2 = f AND 2" "(f AND NOT 2) AND 1 = f AND (1 :: u8)" for f k :: u8
proof -
  show "(f AND NOT k) AND k = 0" by (simp add: and.assoc)
  have "NOT 1 AND 2 = (2 :: u8)" "NOT 2 AND 1 = (1 :: u8)" by code_simp+
  then show "(f AND NOT 1) AND 2 = f AND 2" "(f AND NOT 2) AND 1 = f AND (1 :: u8)" by (simp_all only: and.assoc)
qed

lemma poll_bus_lowers:
  assumes law: "mcp2515_law chip regs"
  shows "\<exists>received f c1. can_poll_bus chip frame c = (received, f, c1)
    \<and> (received \<longrightarrow> pending_flags (regs (avr_chip (cc_avr c1)) 0x2C) < pending_flags (regs (avr_chip (cc_avr c)) 0x2C))"
proof -
  let ?s = "cc_avr c" and ?f = "regs (avr_chip (cc_avr c)) 0x2C"
  obtain d where r: "run_state (readRegister chip 0x2C) ?s = (?f, bus_released d ?s)" "regs d = regs (avr_chip ?s)"
    using law_read [OF law] by blast
  show ?thesis
  proof (cases "mcp_pending_buffer ?f")
    case None
    then show ?thesis using r by (auto simp: can_poll_bus_def mcp_receive_def kRegisterCanintf_def)
  next
    case (Some buffer)
    obtain flag i l a where b: "buffer = (flag, i, l, a)" by (cases buffer)
    then have "pending_flags (?f AND NOT flag) < pending_flags ?f"
      using Some flag_lowered(1) [of ?f 1] flag_lowered(1) [of ?f 2] flag_lowered(2,3) [of ?f]
      by (auto simp: mcp_pending_buffer_def pending_flags_def mcp_constants split: if_splits)
    moreover obtain result d' where "run_state (mcp_receive_buffer chip buffer frame) (bus_released d ?s) = (result, bus_released d' ?s)"
      "regs d' = (regs d)(0x2C := regs d 0x2C AND NOT flag)"
      using receive_buffer_lowers [OF law] unfolding b by blast
    ultimately show ?thesis
      using Some r by (cases result) (simp add: can_poll_bus_def mcp_receive_def kRegisterCanintf_def report_text)
  qed
qed

text \<open>With a controller that receives nothing meanwhile, the loop takes at most the two buffers.\<close>

lemma drain_bus_returns:
  assumes "mcp2515_law chip regs"
  shows "\<exists>c1. can_drain_bus chip frame c = Some c1"
proof (induction "pending_flags (regs (avr_chip (cc_avr c)) 0x2C)" arbitrary: frame c rule: less_induct)
  case less
  from poll_bus_lowers [OF assms, of frame c] obtain received f c1 where poll: "can_poll_bus chip frame c = (received, f, c1)"
    "received \<longrightarrow> pending_flags (regs (avr_chip (cc_avr c1)) 0x2C) < pending_flags (regs (avr_chip (cc_avr c)) 0x2C)" by blast
  then show ?case using less [of c1 f] by (subst can_drain_bus.simps) auto
qed

lemma main_round_returns: "mcp2515_law chip regs \<Longrightarrow> \<exists>c1. can_main_round chip available c = Some c1"
  unfolding can_main_round_def by (rule drain_bus_returns)

subsection \<open>Properties\<close>

text \<open>C29: A frame typed on one console is printed by the other. With two MCP2515 controllers that follow
  their data sheet, a console whose command buffer is empty and whose transmit buffer is free answers \<^verbatim>\<open>T:OK\<close>
  when \<^verbatim>\<open>T:\<close>, the identifier and the data of any standard frame are typed in hexadecimal; once the bus has put
  what such a frame carries (not the unused data bytes and the extended-identifier registers) into either
  receive buffer of the other controller, polling that controller takes the frame, prints \<^verbatim>\<open>R:\<close> with the same
  text and lowers the buffer's flag.\<close>

theorem can_console_round_trip:
  assumes "mcp2515_law chip regs" and "mcp2515_law chip' regs'" and "frame_valid f"
    and "cc_command_size c = 0" and "length (cc_command c) = kCommandCapacity"
    and "regs (avr_chip (cc_avr c)) 0x30 AND 0x08 = 0"
    and "c1 = can_processUart chip (command_text f @ [0x0D]) c"
    and "(flag, a) \<in> set receive_buffers" and "length (cf_data out) = 8"
    and "bus_delivers (regs (avr_chip (cc_avr c1))) (flag, a) (regs' (avr_chip (cc_avr c')))"
  shows "cc_uart_out c1 = cc_uart_out c @ ascii ''T:OK'' @ [0x0D, 0x0A] \<and> cc_command_size c1 = 0
    \<and> (\<exists>f' d. can_poll_bus chip' out c' = (True, f', c'\<lparr>cc_avr := bus_released d (cc_avr c'),
         cc_uart_out := cc_uart_out c' @ ascii ''R:'' @ frame_text f @ [0x0D, 0x0A]\<rparr>)
       \<and> regs' d = (regs' (avr_chip (cc_avr c')))(0x2C := regs' (avr_chip (cc_avr c')) 0x2C AND NOT flag))"
proof -
  obtain d where c1: "c1 = c\<lparr>cc_avr := bus_released d (cc_avr c), cc_command := span_write 0 (command_text f) (cc_command c),
      cc_command_size := 0, cc_uart_out := cc_uart_out c @ ascii ''T:OK'' @ [0x0D, 0x0A]\<rparr>"
    "regs d = (write_regs 0x31 (frame_registers f) (regs (avr_chip (cc_avr c))))(0x30 := regs (avr_chip (cc_avr c)) 0x30 OR 0x08)"
    using console_frame [OF assms(1,3) hex_upper_command_text assms(4,5) command_text_shape(3) [OF assms(3)]] assms(6,7) by auto
  have "regs d (0x31 + of_nat i) = frame_registers f ! i" if "i < length (frame_registers f)" for i
    unfolding c1(2) by (rule transmitted_at [OF assms(3) that])
  from console_report [OF assms(2,3,9,8) this, of c'] show ?thesis using assms(10) c1(1) by simp
qed

text \<open>A controller as a register file that acts on an instruction when it is deselected.\<close>

record RegisterChip =
  rg_received :: bytes
  rg_registers :: "u8 \<Rightarrow> u8"

fun rg_execute :: "bytes \<Rightarrow> (u8 \<Rightarrow> u8) \<Rightarrow> u8 \<Rightarrow> u8" where
  "rg_execute [i, a, v] r = (if i = 0x02 then r(a := v) else r)"
| "rg_execute [i, a, m, v] r = (if i = 0x05 then r(a := (r a AND NOT m) OR (v AND m)) else r)"
| "rg_execute [i] r = (if i = 0x81 then r(0x30 := r 0x30 OR 0x08) else r)"
| "rg_execute bs r = r"

definition register_chip :: "RegisterChip SpiChip" where
  "register_chip = \<lparr>chip_select = (\<lambda>selected d. if selected then d\<lparr>rg_received := []\<rparr>
       else d\<lparr>rg_registers := rg_execute (rg_received d) (rg_registers d)\<rparr>),
     chip_exchange = (\<lambda>b d. (case rg_received d of [i, a] \<Rightarrow> if i = 0x03 then rg_registers d a else 0 | _ \<Rightarrow> 0,
       d\<lparr>rg_received := rg_received d @ [b]\<rparr>))\<rparr>"

lemma register_chip_law: "mcp2515_law register_chip rg_registers"
  by (simp add: mcp2515_law_def spi_session_def register_chip_def)

definition example_frame :: Mcp2515CanFrame where
  "example_frame = \<lparr>cf_identifier = 0x123, cf_size = 2, cf_data = [0xDE, 0xAD, 0, 0, 0, 0, 0, 0]\<rparr>"

definition example_console :: "(u8 \<Rightarrow> u8) \<Rightarrow> RegisterChip CanConsole" where
  "example_console r = CanConsole_init \<lparr>avr_portb = 0x04, avr_chip = \<lparr>rg_received = [], rg_registers = r\<rparr>\<rparr>"

definition example_typed :: "RegisterChip CanConsole" where
  "example_typed = can_processUart register_chip (ascii ''T:123:DEAD'' @ [0x0D]) (example_console (\<lambda>_. 0))"

text \<open>The registers of the receive buffer that the frame does not reach hold something else.\<close>

definition example_peer :: "RegisterChip CanConsole" where
  "example_peer = example_console (\<lambda>x. if x = 0x2C then 0x01
     else if x \<in> {0x61, 0x62, 0x65, 0x66, 0x67} then rg_registers (avr_chip (cc_avr example_typed)) (x - 0x30) else 0xFF)"

theorem can_console_round_trip_witness:
  "cc_uart_out example_typed = ascii ''T:OK'' @ [0x0D, 0x0A]
   \<and> cc_uart_out (snd (snd (can_poll_bus register_chip Mcp2515CanFrame_zero example_peer))) = ascii ''R:123:DEAD'' @ [0x0D, 0x0A]"
proof -
  have t: "command_text example_frame = ascii ''T:123:DEAD''"
    by (simp add: command_text_def frame_text_def example_frame_def ascii_def hex1_def hex2_def kHexDigits_eq)
  have ft: "ascii ''R:'' @ frame_text example_frame = ascii ''R:123:DEAD''"
    by (simp add: frame_text_def example_frame_def ascii_def hex1_def hex2_def kHexDigits_eq)
  have v: "frame_valid example_frame" by (simp add: frame_valid_def example_frame_def)
  have all2: "(\<forall>i < 2. P i) \<longleftrightarrow> P 0 \<and> P (1 :: nat)" for P by (auto simp: less_2_cases_iff)
  have "rg_registers (avr_chip (cc_avr example_typed)) 0x35 = 2"
    using console_frame [OF register_chip_law v hex_upper_command_text, of "example_console (\<lambda>_. 0)"]
      transmitted_at [OF v, of 4] command_text_shape(3) [OF v]
    by (auto simp: example_typed_def t [symmetric] example_console_def CanConsole_init_def frame_registers_def example_frame_def)
  then have del: "bus_delivers (rg_registers (avr_chip (cc_avr example_typed))) (0x01, 0x61) (rg_registers (avr_chip (cc_avr example_peer)))"
    using all2 by (simp add: bus_delivers_def example_peer_def example_console_def CanConsole_init_def)
  have c: "cc_command_size (example_console (\<lambda>_. 0)) = 0" "length (cc_command (example_console (\<lambda>_. 0))) = kCommandCapacity"
    "rg_registers (avr_chip (cc_avr (example_console (\<lambda>_. 0)))) 0x30 AND 0x08 = 0"
    "example_typed = can_processUart register_chip (command_text example_frame @ [0x0D]) (example_console (\<lambda>_. 0))"
    "(0x01, 0x61) \<in> set receive_buffers" "length (cf_data Mcp2515CanFrame_zero) = 8"
    "cc_uart_out (example_console r) = []" for r
    by (simp_all add: example_console_def CanConsole_init_def example_typed_def t receive_buffers_def Mcp2515CanFrame_zero_def)
  show ?thesis
    using can_console_round_trip [OF register_chip_law register_chip_law v c(1-6) del] c(7) ft by (auto simp: example_peer_def)
qed



end
