(* ===== verification/Sim_Command_Line.thy ===== *)
theory Sim_Command_Line
  imports Main
begin

section \<open>Command line of the simulated ECU\<close>

text \<open>
  \<^verbatim>\<open>sim/command_line.cpp\<close> and \<^verbatim>\<open>sim/ecu_process_config.h\<close>.  A C string is the list of its characters
  before the terminator, a possibly null pointer an option.  \<^verbatim>\<open>std::from_chars\<close> is modelled as the
  standard defines it for an unsigned 64-bit integer in base ten; the period is a 64-bit signed
  count of microseconds.
\<close>

subsection \<open>Configuration\<close>

record EcuProcessConfig =
  cfg_ecu_name :: string
  cfg_loop_period :: int

definition EcuProcessConfig_init :: EcuProcessConfig where
  "EcuProcessConfig_init = \<lparr>cfg_ecu_name = [], cfg_loop_period = 1000\<rparr>"

definition EcuProcessConfig_isValid :: "EcuProcessConfig \<Rightarrow> bool" where
  "EcuProcessConfig_isValid config \<longleftrightarrow> cfg_ecu_name config \<noteq> [] \<and> 0 < cfg_loop_period config"

datatype CommandLineStatus = CL_kOk | CL_kHelpRequested | CL_kError

record CommandLineResult =
  clr_status :: CommandLineStatus
  clr_config :: EcuProcessConfig
  clr_diagnostic :: string

definition CommandLineResult_init :: CommandLineResult where
  "CommandLineResult_init = \<lparr>clr_status = CL_kError, clr_config = EcuProcessConfig_init, clr_diagnostic = []\<rparr>"

definition errorResult :: "string \<Rightarrow> CommandLineResult" where
  "errorResult diagnostic = CommandLineResult_init\<lparr>clr_status := CL_kError, clr_diagnostic := diagnostic\<rparr>"

subsection \<open>Numbers\<close>

definition is_digit :: "char \<Rightarrow> bool" where
  "is_digit ch \<longleftrightarrow> ch \<in> set ''0123456789''"

definition digit_value :: "char \<Rightarrow> nat" where
  "digit_value ch = of_char ch - 48"

definition decimal_value :: "string \<Rightarrow> nat" where
  "decimal_value = foldl (\<lambda>v ch. 10 * v + digit_value ch) 0"

datatype from_chars_error = FC_none | FC_invalid_argument | FC_out_of_range

text \<open>The error, the value and what follows the digits.\<close>

definition from_chars_u64 :: "string \<Rightarrow> from_chars_error \<times> nat \<times> string" where
  "from_chars_u64 s =
     (let digits = takeWhile is_digit s; rest = dropWhile is_digit s
      in if digits = [] then (FC_invalid_argument, 0, s)
         else if decimal_value digits < 2 ^ 64 then (FC_none, decimal_value digits, rest)
         else (FC_out_of_range, 0, rest))"

definition kMaximumPeriod :: nat where "kMaximumPeriod = 2 ^ 63 - 1"

definition parseLoopPeriod :: "string \<Rightarrow> int option" where
  "parseLoopPeriod s =
     (case from_chars_u64 s of (ec, val, rest) \<Rightarrow>
        if ec \<noteq> FC_none \<or> rest \<noteq> [] \<or> val = 0 \<or> kMaximumPeriod < val then None else Some (int val))"

subsection \<open>Options\<close>

text \<open>The loop over the arguments after the program name, with the flags of what was supplied.\<close>

fun parse_arguments :: "string option list \<Rightarrow> bool \<Rightarrow> bool \<Rightarrow> CommandLineResult \<Rightarrow> CommandLineResult" where
  "parse_arguments [] name_supplied loop_period_supplied result =
     (if \<not> name_supplied then errorResult ''missing required option: --name <ecu-name>'' else result)"
| "parse_arguments (None # args) name_supplied loop_period_supplied result =
     errorResult ''encountered a null command-line argument''"
| "parse_arguments (Some argument # args) name_supplied loop_period_supplied result =
     (if argument = ''--help'' \<or> argument = ''-h'' then result\<lparr>clr_status := CL_kHelpRequested\<rparr>
      else if argument = ''--name'' then
        (if name_supplied then errorResult ''--name may be supplied only once''
         else (case args of [] \<Rightarrow> errorResult ''--name requires a non-empty value''
           | name # args1 \<Rightarrow>
               (case name of None \<Rightarrow> errorResult ''--name requires a non-empty value''
                | Some n \<Rightarrow> if n = [] then errorResult ''--name requires a non-empty value''
                    else parse_arguments args1 True loop_period_supplied
                      (result\<lparr>clr_config := (clr_config result)\<lparr>cfg_ecu_name := n\<rparr>\<rparr>))))
      else if argument = ''--loop-period-us'' then
        (if loop_period_supplied then errorResult ''--loop-period-us may be supplied only once''
         else (case args of [] \<Rightarrow> errorResult ''--loop-period-us requires a positive integer''
           | period # args1 \<Rightarrow>
               (case Option.bind period parseLoopPeriod of
                  None \<Rightarrow> errorResult ''--loop-period-us must be a positive integer in range''
                | Some v \<Rightarrow> parse_arguments args1 name_supplied True
                    (result\<lparr>clr_config := (clr_config result)\<lparr>cfg_loop_period := v\<rparr>\<rparr>))))
      else errorResult (''unknown option: '' @ argument))"

text \<open>\<^verbatim>\<open>argv\<close> is the list of the entries before the terminating null pointer; the C runtime passes its length as
  \<^verbatim>\<open>argc\<close>, so \<^const>\<open>take\<close> cuts only when a caller passes a smaller count.\<close>

definition parseCommandLine :: "int \<Rightarrow> string option list option \<Rightarrow> CommandLineResult" where
  "parseCommandLine argc argv =
     (case argv of None \<Rightarrow> errorResult ''invalid process argument array''
      | Some arguments \<Rightarrow>
          if argc < 1 then errorResult ''invalid process argument array''
          else parse_arguments (drop 1 (take (nat argc) arguments)) False False
            (CommandLineResult_init\<lparr>clr_status := CL_kOk\<rparr>))"

definition commandLineUsage :: "string option \<Rightarrow> string" where
  "commandLineUsage executable_name =
     (let safe_name = (case executable_name of None \<Rightarrow> ''ws_sim_counter_ecu''
          | Some n \<Rightarrow> if n = [] then ''ws_sim_counter_ecu'' else n)
      in ''Usage: '' @ safe_name @ '' --name <ecu-name> [--loop-period-us <positive-integer>]'' @ [CHR 0x0A]
         @ ''       '' @ safe_name @ '' --help'' @ [CHR 0x0A])"

subsection \<open>Numbers are read exactly\<close>

text \<open>A text is a period when it is a decimal number within the range of the representation.\<close>

definition period_text :: "string \<Rightarrow> int \<Rightarrow> bool" where
  "period_text s v \<longleftrightarrow> s \<noteq> [] \<and> list_all is_digit s \<and> v = int (decimal_value s) \<and> 0 < v \<and> v \<le> 2 ^ 63 - 1"

lemma parseLoopPeriod_iff: "parseLoopPeriod s = Some v \<longleftrightarrow> period_text s v"
proof (cases "list_all is_digit s")
  case True
  then have tw: "takeWhile is_digit s = s" "dropWhile is_digit s = []" by (auto simp: list_all_iff)
  show ?thesis
    using True by (cases "s = []") (auto simp: parseLoopPeriod_def from_chars_u64_def tw period_text_def kMaximumPeriod_def Let_def)
next
  case False
  then have "dropWhile is_digit s \<noteq> []" by (auto simp: list_all_iff)
  then show ?thesis
    using False by (auto simp: parseLoopPeriod_def from_chars_u64_def period_text_def Let_def split: if_splits)
qed

subsection \<open>Accepted command lines\<close>

lemma error_not_ok [simp]: "clr_status (errorResult d) \<noteq> CL_kOk" "clr_status (errorResult d) = CL_kError"
  by (simp_all add: errorResult_def)

lemma parse_all_supplied:
  "clr_status r = CL_kOk \<Longrightarrow> clr_status (parse_arguments args True True r) = CL_kOk \<longleftrightarrow> args = []"
  by (cases args; cases "hd args") (auto split: list.splits option.splits)

lemma parse_name_supplied:
  assumes "clr_status r = CL_kOk"
  shows "clr_status (parse_arguments args True False r) = CL_kOk
    \<longleftrightarrow> args = [] \<or> (\<exists>p v. args = [Some ''--loop-period-us'', Some p] \<and> period_text p v)"
proof (cases args)
  case (Cons a more)
  then show ?thesis
    using assms by (cases a; cases more; cases "hd more")
      (auto simp: parse_all_supplied parseLoopPeriod_iff [symmetric] split: option.splits)
qed (use assms in simp)

lemma parse_period_supplied:
  assumes "clr_status r = CL_kOk"
  shows "clr_status (parse_arguments args False True r) = CL_kOk \<longleftrightarrow> (\<exists>n. args = [Some ''--name'', Some n] \<and> n \<noteq> [])"
proof (cases args)
  case (Cons a more)
  then show ?thesis
    using assms by (cases a; cases more; cases "hd more") (auto simp: parse_all_supplied split: option.splits)
qed (use assms in simp)

text \<open>The command lines of the usage text: each option once, in either order, the name present.\<close>

definition accepted_arguments :: "string option list \<Rightarrow> EcuProcessConfig \<Rightarrow> bool" where
  "accepted_arguments args config \<longleftrightarrow> cfg_ecu_name config \<noteq> []
     \<and> (args = [Some ''--name'', Some (cfg_ecu_name config)] \<and> cfg_loop_period config = 1000
        \<or> (\<exists>p. period_text p (cfg_loop_period config)
             \<and> (args = [Some ''--name'', Some (cfg_ecu_name config), Some ''--loop-period-us'', Some p]
                \<or> args = [Some ''--loop-period-us'', Some p, Some ''--name'', Some (cfg_ecu_name config)])))"

lemma parse_exact:
  "clr_status (parse_arguments args False False (CommandLineResult_init\<lparr>clr_status := CL_kOk\<rparr>)) = CL_kOk
   \<longleftrightarrow> (\<exists>config. accepted_arguments args config
        \<and> parse_arguments args False False (CommandLineResult_init\<lparr>clr_status := CL_kOk\<rparr>)
          = \<lparr>clr_status = CL_kOk, clr_config = config, clr_diagnostic = []\<rparr>)" (is "?ok = ?acc")
proof
  assume ?acc
  then show ?ok by auto
next
  assume ok: ?ok
  let ?r = "CommandLineResult_init\<lparr>clr_status := CL_kOk\<rparr>"
  from ok obtain a b more where args: "args = Some a # b # more" "a = ''--name'' \<or> a = ''--loop-period-us''"
    by (cases args; cases "hd args"; cases "tl args") (auto split: if_splits)
  show ?acc
  proof (cases "a = ''--name''")
    case True
    then obtain n where b: "b = Some n" "n \<noteq> []" using ok args by (cases b) (auto split: if_splits)
    let ?r1 = "?r\<lparr>clr_config := EcuProcessConfig_init\<lparr>cfg_ecu_name := n\<rparr>\<rparr>"
    have p: "parse_arguments args False False ?r = parse_arguments more True False ?r1"
      using True args b by (simp add: CommandLineResult_init_def)
    then have "more = [] \<or> (\<exists>p v. more = [Some ''--loop-period-us'', Some p] \<and> period_text p v)"
      using ok parse_name_supplied [of ?r1 more] by simp
    then show ?thesis
      using p args True b
      by (auto simp: accepted_arguments_def parseLoopPeriod_iff [symmetric] CommandLineResult_init_def EcuProcessConfig_init_def)
  next
    case False
    then obtain t v where b: "b = Some t" "period_text t v"
      using ok args by (cases b) (auto simp: parseLoopPeriod_iff [symmetric] split: option.splits)
    let ?r1 = "?r\<lparr>clr_config := EcuProcessConfig_init\<lparr>cfg_loop_period := v\<rparr>\<rparr>"
    have p: "parse_arguments args False False ?r = parse_arguments more False True ?r1"
      using False args b by (simp add: CommandLineResult_init_def parseLoopPeriod_iff [THEN iffD2])
    then obtain n where "more = [Some ''--name'', Some n]" "n \<noteq> []"
      using ok parse_period_supplied [of ?r1 more] by auto
    then show ?thesis
      using p args False b by (auto simp: accepted_arguments_def CommandLineResult_init_def EcuProcessConfig_init_def)
  qed
qed

lemma accepted_parses:
  assumes "accepted_arguments args config"
  shows "parse_arguments args False False (CommandLineResult_init\<lparr>clr_status := CL_kOk\<rparr>)
    = \<lparr>clr_status = CL_kOk, clr_config = config, clr_diagnostic = []\<rparr>"
  using assms by (cases config)
    (auto simp: accepted_arguments_def parseLoopPeriod_iff [symmetric] CommandLineResult_init_def EcuProcessConfig_init_def)

text \<open>C33: The parser accepts exactly the command lines of its usage text and reads them right: for an
  argument array it succeeds with a configuration if and only if, after the program name, there is
  \<^verbatim>\<open>--name\<close> with that non-empty name and either no period, which then is one millisecond, or one
  \<^verbatim>\<open>--loop-period-us\<close> in either order whose text is a decimal number from 1 to 2^63 - 1 with that value.\<close>

theorem command_line_exact:
  "parseCommandLine argc (Some argv) = \<lparr>clr_status = CL_kOk, clr_config = config, clr_diagnostic = []\<rparr>
   \<longleftrightarrow> 1 \<le> argc \<and> accepted_arguments (drop 1 (take (nat argc) argv)) config"
proof (cases "1 \<le> argc")
  case True
  let ?p = "parse_arguments (drop 1 (take (nat argc) argv)) False False (CommandLineResult_init\<lparr>clr_status := CL_kOk\<rparr>)"
  have "parseCommandLine argc (Some argv) = ?p" using True by (simp add: parseCommandLine_def)
  then show ?thesis
    using True parse_exact [of "drop 1 (take (nat argc) argv)"] accepted_parses by (auto simp del: parse_arguments.simps)
next
  case False
  then show ?thesis by (simp add: parseCommandLine_def errorResult_def CommandLineResult_init_def)
qed

end
