(* ===== verification/Sim_Process.thy ===== *)
theory Sim_Process
  imports Sim_Command_Line
begin

section \<open>The process of a simulated ECU\<close>

text \<open>
  \<^verbatim>\<open>sim/ecu_process.cpp\<close>: the superloop over injected interfaces, which are functions on a world \<open>'w\<close>,
  and \<^verbatim>\<open>sim/ecu_logger.cpp\<close>, \<^verbatim>\<open>sim/signal_shutdown.cpp\<close> and \<^verbatim>\<open>sim/examples/counter_ecu.cpp\<close>, which provide
  them.  Times are nanoseconds since the epoch of the clock; they are 64-bit signed in the source,
  and leaving that range, which C++ leaves undefined, is an outcome of its own.
\<close>

subsection \<open>Interfaces\<close>

datatype EcuProcessExitCode = EC_kSuccess | EC_kInvalidConfiguration | EC_kNetworkInitializationFailed
  | EC_kNetworkPollFailed

fun EcuProcess_exit :: "EcuProcessExitCode \<Rightarrow> int" where
  "EcuProcess_exit EC_kSuccess = 0"
| "EcuProcess_exit EC_kInvalidConfiguration = 2"
| "EcuProcess_exit EC_kNetworkInitializationFailed = 3"
| "EcuProcess_exit EC_kNetworkPollFailed = 4"

record 'w EcuEnv =
  en_network_init :: "'w \<Rightarrow> bool \<times> 'w"
  en_network_poll :: "'w \<Rightarrow> bool \<times> 'w"
  en_application_init :: "'w \<Rightarrow> 'w"
  en_application_periodic :: "'w \<Rightarrow> 'w"
  en_now :: "'w \<Rightarrow> int \<times> 'w"
  en_sleepUntil :: "int \<Rightarrow> 'w \<Rightarrow> 'w"
  en_isShutdownRequested :: "'w \<Rightarrow> bool \<times> 'w"
  en_info :: "string \<Rightarrow> 'w \<Rightarrow> 'w"
  en_error :: "string \<Rightarrow> 'w \<Rightarrow> 'w"

datatype ecu_outcome = Exited int | Overflowed

definition in_i64 :: "int \<Rightarrow> bool" where
  "in_i64 x \<longleftrightarrow> - (2 ^ 63) \<le> x \<and> x < 2 ^ 63"

text \<open>A time point plus a duration in microseconds: the conversion to nanoseconds, then the sum.\<close>

definition time_plus :: "int \<Rightarrow> int \<Rightarrow> int option" where
  "time_plus t period = (if in_i64 (1000 * period) \<and> in_i64 (t + 1000 * period) then Some (t + 1000 * period) else None)"

subsection \<open>Superloop\<close>

text \<open>One iteration: the process ends with an outcome, or goes on with the next deadline.\<close>

definition ecu_shutdown_complete :: "'w EcuEnv \<Rightarrow> 'w \<Rightarrow> ecu_outcome \<times> 'w" where
  "ecu_shutdown_complete env w = (Exited (EcuProcess_exit EC_kSuccess), en_info env ''shutdown complete'' w)"

definition ecu_next_deadline ::
  "'w EcuEnv \<Rightarrow> int \<Rightarrow> int \<Rightarrow> 'w \<Rightarrow> (ecu_outcome \<times> 'w) + (int \<times> 'w)" where
  "ecu_next_deadline env period deadline w =
     (case time_plus deadline period of None \<Rightarrow> Inl (Overflowed, w)
      | Some next_deadline \<Rightarrow>
          (case en_now env w of (current_time, w1) \<Rightarrow>
             if next_deadline \<le> current_time
             then (case time_plus current_time period of None \<Rightarrow> Inl (Overflowed, w1)
               | Some d \<Rightarrow> Inr (d, en_sleepUntil env d w1))
             else Inr (next_deadline, en_sleepUntil env next_deadline w1)))"

definition ecu_iteration :: "'w EcuEnv \<Rightarrow> int \<Rightarrow> int \<times> 'w \<Rightarrow> (ecu_outcome \<times> 'w) + (int \<times> 'w)" where
  "ecu_iteration env period s =
     (case en_isShutdownRequested env (snd s) of (stop, w1) \<Rightarrow>
        if stop then Inl (ecu_shutdown_complete env w1)
        else (case en_network_poll env w1 of (ok, w2) \<Rightarrow>
          if \<not> ok then Inl (Exited (EcuProcess_exit EC_kNetworkPollFailed), en_error env ''network poll failed'' w2)
          else (case en_isShutdownRequested env (en_application_periodic env w2) of (stop1, w3) \<Rightarrow>
            if stop1 then Inl (ecu_shutdown_complete env w3)
            else ecu_next_deadline env period (fst s) w3)))"

partial_function (option) ecu_loop :: "'w EcuEnv \<Rightarrow> int \<Rightarrow> int \<times> 'w \<Rightarrow> (ecu_outcome \<times> 'w) option" where
  "ecu_loop env period s =
     (case ecu_iteration env period s of Inl r \<Rightarrow> Some r | Inr s1 \<Rightarrow> ecu_loop env period s1)"

definition EcuProcess_run :: "'w EcuEnv \<Rightarrow> EcuProcessConfig \<Rightarrow> 'w \<Rightarrow> (ecu_outcome \<times> 'w) option" where
  "EcuProcess_run env config w =
     (if \<not> EcuProcessConfig_isValid config
      then Some (Exited (EcuProcess_exit EC_kInvalidConfiguration), en_error env ''invalid ECU process configuration'' w)
      else (case en_network_init env (en_info env ''initializing network'' w) of (ok, w1) \<Rightarrow>
        if \<not> ok
        then Some (Exited (EcuProcess_exit EC_kNetworkInitializationFailed),
               en_error env ''network initialization failed'' w1)
        else (case en_now env (en_info env ''ECU process started'' (en_application_init env w1)) of (t, w2) \<Rightarrow>
          ecu_loop env (cfg_loop_period config) (t, w2))))"

subsection \<open>Termination\<close>

fun ecu_iterate :: "'w EcuEnv \<Rightarrow> int \<Rightarrow> nat \<Rightarrow> int \<times> 'w \<Rightarrow> (ecu_outcome \<times> 'w) + (int \<times> 'w)" where
  "ecu_iterate env period 0 s = Inr s"
| "ecu_iterate env period (Suc n) s =
     (case ecu_iteration env period s of Inl r \<Rightarrow> Inl r | Inr s1 \<Rightarrow> ecu_iterate env period n s1)"

lemma ecu_loop_returns: "ecu_iterate env period n s = Inl r \<Longrightarrow> ecu_loop env period s = Some r"
proof (induction n arbitrary: s)
  case (Suc n)
  then show ?case by (subst ecu_loop.simps) (auto split: sum.splits)
qed simp

lemma ecu_loop_iterates:
  assumes "ecu_loop env period s = Some r"
  shows "\<exists>n. ecu_iterate env period n s = Inl r"
proof (rule ecu_loop.raw_induct [OF _ assms, where P = "\<lambda>env period s r. \<exists>n. ecu_iterate env period n s = Inl r"])
  fix ecu_loop :: "'a EcuEnv \<Rightarrow> int \<Rightarrow> int \<times> 'a \<Rightarrow> (ecu_outcome \<times> 'a) option" and env period s r
  assume IH: "\<And>env period s r. ecu_loop env period s = Some r \<Longrightarrow> \<exists>n. ecu_iterate env period n s = Inl r"
    and step: "(case ecu_iteration env period s of Inl r \<Rightarrow> Some r | Inr s1 \<Rightarrow> ecu_loop env period s1) = Some r"
  show "\<exists>n. ecu_iterate env period n s = Inl r"
  proof (cases "ecu_iteration env period s")
    case (Inl a)
    then show ?thesis using step by (intro exI [of _ 1]) simp
  next
    case (Inr s1)
    then obtain n where "ecu_iterate env period n s1 = Inl r" using IH [of env period s1 r] step by auto
    then show ?thesis using Inr by (intro exI [of _ "Suc n"]) simp
  qed
qed

subsection \<open>The order of calls\<close>

datatype ecu_event = EvNetworkInit bool | EvApplicationInit | EvPoll bool | EvPeriodic | EvShutdown bool
  | EvNow int | EvSleep int | EvInfo string | EvError string

text \<open>The same interfaces, with a record of the calls and what they returned.\<close>

definition traced :: "'w EcuEnv \<Rightarrow> ('w \<times> ecu_event list) EcuEnv" where
  "traced env = \<lparr>
     en_network_init = (\<lambda>(w, l). case en_network_init env w of (r, w1) \<Rightarrow> (r, w1, l @ [EvNetworkInit r])),
     en_network_poll = (\<lambda>(w, l). case en_network_poll env w of (r, w1) \<Rightarrow> (r, w1, l @ [EvPoll r])),
     en_application_init = (\<lambda>(w, l). (en_application_init env w, l @ [EvApplicationInit])),
     en_application_periodic = (\<lambda>(w, l). (en_application_periodic env w, l @ [EvPeriodic])),
     en_now = (\<lambda>(w, l). case en_now env w of (t, w1) \<Rightarrow> (t, w1, l @ [EvNow t])),
     en_sleepUntil = (\<lambda>d (w, l). (en_sleepUntil env d w, l @ [EvSleep d])),
     en_isShutdownRequested = (\<lambda>(w, l). case en_isShutdownRequested env w of (r, w1) \<Rightarrow> (r, w1, l @ [EvShutdown r])),
     en_info = (\<lambda>m (w, l). (en_info env m w, l @ [EvInfo m])),
     en_error = (\<lambda>m (w, l). (en_error env m w, l @ [EvError m]))\<rparr>"

text \<open>
  A whole iteration: shutdown is looked at, the network is polled, the application runs, shutdown
  is looked at again, the clock is read and the process sleeps.
\<close>

definition cycle_calls :: "int \<times> int \<Rightarrow> ecu_event list" where
  "cycle_calls slot = [EvShutdown False, EvPoll True, EvPeriodic, EvShutdown False, EvNow (fst slot), EvSleep (snd slot)]"

text \<open>
  The clock readings and deadlines of successive iterations: the next slot of the grid, or a full
  step from the reading when that slot has passed.
\<close>

fun slots_from :: "int \<Rightarrow> int \<Rightarrow> (int \<times> int) list \<Rightarrow> bool" where
  "slots_from step d [] = True"
| "slots_from step d ((t, x) # slots) \<longleftrightarrow> x = (if d + step \<le> t then t + step else d + step) \<and> slots_from step x slots"

text \<open>How the last iteration ends, with the exit code.\<close>

definition ecu_last_calls :: "ecu_event list \<Rightarrow> int \<Rightarrow> bool" where
  "ecu_last_calls calls code \<longleftrightarrow>
     code = 0 \<and> calls = [EvShutdown True, EvInfo ''shutdown complete'']
     \<or> code = 0 \<and> calls = [EvShutdown False, EvPoll True, EvPeriodic, EvShutdown True, EvInfo ''shutdown complete'']
     \<or> code = 4 \<and> calls = [EvShutdown False, EvPoll False, EvError ''network poll failed'']"

lemma time_plus_Some: "time_plus t p = Some d \<Longrightarrow> d = t + 1000 * p"
  by (simp add: time_plus_def split: if_splits)

lemma iteration_continues:
  assumes "ecu_iteration (traced env) period (d, w, l) = Inr s"
  shows "\<exists>t d1 w1. s = (d1, w1, l @ cycle_calls (t, d1)) \<and> slots_from (1000 * period) d [(t, d1)]"
  using assms
  by (auto simp: ecu_iteration_def ecu_next_deadline_def traced_def cycle_calls_def
      split: prod.splits if_splits option.splits dest!: time_plus_Some)

lemma iteration_exits:
  assumes "ecu_iteration (traced env) period (d, w, l) = Inl (Exited code, w1, l1)"
  shows "\<exists>calls. l1 = l @ calls \<and> ecu_last_calls calls code"
  using assms
  by (auto simp: ecu_iteration_def ecu_next_deadline_def ecu_shutdown_complete_def traced_def ecu_last_calls_def
      split: prod.splits if_splits option.splits)

lemma iterate_trace:
  assumes "ecu_iterate (traced env) period n (d, w, l) = Inl (Exited code, w1, l1)"
  shows "\<exists>slots last. l1 = l @ concat (map cycle_calls slots) @ last
    \<and> slots_from (1000 * period) d slots \<and> ecu_last_calls last code"
  using assms
proof (induction n arbitrary: d w l)
  case (Suc n)
  show ?case
  proof (cases "ecu_iteration (traced env) period (d, w, l)")
    case (Inl r)
    then obtain last where "l1 = l @ last" "ecu_last_calls last code" using iteration_exits Suc.prems by fastforce
    then show ?thesis by (intro exI [of _ "[]"] exI [of _ last]) simp
  next
    case (Inr s)
    from iteration_continues [OF this] obtain t d1 w2
      where s: "s = (d1, w2, l @ cycle_calls (t, d1))" and slot: "slots_from (1000 * period) d [(t, d1)]" by blast
    have "ecu_iterate (traced env) period n (d1, w2, l @ cycle_calls (t, d1)) = Inl (Exited code, w1, l1)"
      using Suc.prems Inr s by simp
    from Suc.IH [OF this] obtain slots last where
      "l1 = (l @ cycle_calls (t, d1)) @ concat (map cycle_calls slots) @ last"
      "slots_from (1000 * period) d1 slots" "ecu_last_calls last code" by blast
    then show ?thesis using slot by (intro exI [of _ "(t, d1) # slots"] exI [of _ last]) simp
  qed
qed simp

text \<open>Every sleep is to a time in the future, and deadlines are at least a step apart.\<close>

lemma slots_ahead: "slots_from step d slots \<Longrightarrow> 0 < step \<Longrightarrow> list_all (\<lambda>(t, x). t < x) slots"
  by (induction step d slots rule: slots_from.induct) auto

lemma slots_apart:
  assumes "slots_from step d slots" and "0 < step"
  shows "sorted_wrt (\<lambda>x y. x + step \<le> y) (d # map snd slots)"
  using assms
proof (induction step d slots rule: slots_from.induct)
  case (2 step d t x slots)
  then have rest: "sorted_wrt (\<lambda>x y. x + step \<le> y) (x # map snd slots)"
    by (auto simp del: sorted_wrt.simps)
  have "d + step \<le> x" using 2 by auto
  then have "\<forall>y\<in>set (map snd slots). d + step \<le> y" using rest \<open>0 < step\<close> by (fastforce simp del: set_map)
  then show ?case using rest \<open>d + step \<le> x\<close> by simp
qed simp

text \<open>The calls of a whole run, with its exit code.\<close>

definition run_calls :: "EcuProcessConfig \<Rightarrow> ecu_event list \<Rightarrow> int \<Rightarrow> bool" where
  "run_calls config calls code \<longleftrightarrow>
     (if \<not> EcuProcessConfig_isValid config then code = 2 \<and> calls = [EvError ''invalid ECU process configuration'']
      else code = 3 \<and> calls = [EvInfo ''initializing network'', EvNetworkInit False, EvError ''network initialization failed'']
       \<or> (\<exists>start slots last.
            calls = [EvInfo ''initializing network'', EvNetworkInit True, EvApplicationInit,
                EvInfo ''ECU process started'', EvNow start] @ concat (map cycle_calls slots) @ last
            \<and> ecu_last_calls last code
            \<and> slots_from (1000 * cfg_loop_period config) start slots
            \<and> list_all (\<lambda>(t, x). t < x) slots
            \<and> sorted_wrt (\<lambda>x y. x + 1000 * cfg_loop_period config \<le> y) (start # map snd slots)))"

lemma loop_trace:
  assumes "ecu_loop (traced env) period (d, w, l) = Some (Exited code, w1, l1)"
  shows "\<exists>slots last. l1 = l @ concat (map cycle_calls slots) @ last
    \<and> slots_from (1000 * period) d slots \<and> ecu_last_calls last code"
proof -
  from ecu_loop_iterates [OF assms] obtain n
    where "ecu_iterate (traced env) period n (d, w, l) = Inl (Exited code, w1, l1)" by blast
  then show ?thesis by (rule iterate_trace)
qed

text \<open>C31: the order of the calls of a simulated ECU.  Whatever the network, application, clock, shutdown
  source and logger do, a run that ends with an exit code made exactly these calls: an invalid
  configuration only logs and gives 2; otherwise the network is initialized before the application,
  a failure giving 3; then every iteration looks at shutdown, polls the network, runs the
  application, looks at shutdown again, reads the clock and sleeps to a time after that reading, the
  deadlines being at least a loop period apart and no missed slot being made up; the last iteration
  ends at a shutdown request with 0, having run the application or not, or at a failed poll with 4,
  without running it.
\<close>

theorem process_call_order:
  assumes "EcuProcess_run (traced env) config (w, []) = Some (Exited code, w1, calls)"
  shows "run_calls config calls code"
proof (cases "EcuProcessConfig_isValid config")
  case False
  then show ?thesis using assms by (simp add: EcuProcess_run_def run_calls_def traced_def)
next
  case True
  obtain ok w2 where init: "en_network_init env (en_info env ''initializing network'' w) = (ok, w2)" by fastforce
  obtain start w3 where now: "en_now env (en_info env ''ECU process started'' (en_application_init env w2)) = (start, w3)"
    by fastforce
  show ?thesis
  proof (cases ok)
    case False
    then show ?thesis using assms True init by (simp add: EcuProcess_run_def run_calls_def traced_def)
  next
    case ok: True
    let ?pre = "[EvInfo ''initializing network'', EvNetworkInit True, EvApplicationInit,
      EvInfo ''ECU process started'', EvNow start]"
    have "ecu_loop (traced env) (cfg_loop_period config) (start, w3, ?pre) = Some (Exited code, w1, calls)"
      using assms True ok init now by (simp add: EcuProcess_run_def traced_def)
    from loop_trace [OF this] obtain slots last where calls: "calls = ?pre @ concat (map cycle_calls slots) @ last"
      and slots: "slots_from (1000 * cfg_loop_period config) start slots" and last: "ecu_last_calls last code" by blast
    have step: "0 < 1000 * cfg_loop_period config" using True by (simp add: EcuProcessConfig_isValid_def)
    show ?thesis
      using True calls last slots slots_ahead [OF slots step] slots_apart [OF slots step]
      unfolding run_calls_def by fastforce
  qed
qed

text \<open>A run of two iterations: the second clock reading is past the second slot.\<close>

definition sample_env :: "nat EcuEnv" where
  "sample_env = \<lparr>en_network_init = (\<lambda>w. (True, w)), en_network_poll = (\<lambda>w. (True, w + 1)),
     en_application_init = id, en_application_periodic = id,
     en_now = (\<lambda>w. (if w = 2 then 9000 else 100, w)), en_sleepUntil = (\<lambda>d w. w),
     en_isShutdownRequested = (\<lambda>w. (w = 3, w)), en_info = (\<lambda>m w. w), en_error = (\<lambda>m w. w)\<rparr>"

definition sample_config :: EcuProcessConfig where
  "sample_config = \<lparr>cfg_ecu_name = ''ecu'', cfg_loop_period = 2\<rparr>"

definition sample_calls :: "ecu_event list" where
  "sample_calls = [EvInfo ''initializing network'', EvNetworkInit True, EvApplicationInit,
     EvInfo ''ECU process started'', EvNow 100] @ cycle_calls (100, 2100) @ cycle_calls (9000, 11000)
     @ [EvShutdown False, EvPoll True, EvPeriodic, EvShutdown True, EvInfo ''shutdown complete'']"

lemma sample_loop:
  "ecu_loop (traced sample_env) 2 (100, 0, [EvInfo ''initializing network'', EvNetworkInit True, EvApplicationInit,
     EvInfo ''ECU process started'', EvNow 100]) = Some (Exited 0, 3, sample_calls)"
  by (rule ecu_loop_returns [of _ _ 3])
    (simp add: numeral_3_eq_3 ecu_iteration_def ecu_next_deadline_def ecu_shutdown_complete_def traced_def sample_env_def
      time_plus_def in_i64_def sample_calls_def cycle_calls_def)

lemma sample_run: "EcuProcess_run (traced sample_env) sample_config (0, []) = Some (Exited 0, 3, sample_calls)"
proof -
  have "EcuProcess_run (traced sample_env) sample_config (0, []) =
    ecu_loop (traced sample_env) 2 (100, 0, [EvInfo ''initializing network'', EvNetworkInit True, EvApplicationInit,
      EvInfo ''ECU process started'', EvNow 100])"
    by (simp add: EcuProcess_run_def sample_config_def EcuProcessConfig_isValid_def traced_def sample_env_def)
  then show ?thesis using sample_loop by simp
qed

theorem process_call_order_witness:
  "EcuProcess_run (traced sample_env) sample_config (0, []) = Some (Exited 0, 3, sample_calls)
   \<and> run_calls sample_config sample_calls 0"
  using sample_run process_call_order [OF sample_run] by simp

subsection \<open>Recording the calls changes nothing\<close>

definition untraced :: "('r \<times> 'w \<times> ecu_event list) \<Rightarrow> 'r \<times> 'w" where
  "untraced = (\<lambda>(r, w, l). (r, w))"

lemma untraced_simps [simp]: "untraced (r, w, l) = (r, w)"
  by (simp add: untraced_def)

lemma traced_iteration:
  "map_sum untraced untraced (ecu_iteration (traced env) period (d, w, l)) = ecu_iteration env period (d, w)"
  by (simp add: ecu_iteration_def ecu_next_deadline_def ecu_shutdown_complete_def traced_def
      split: prod.splits option.splits)

lemma traced_iterate:
  "map_sum untraced untraced (ecu_iterate (traced env) period n (d, w, l)) = ecu_iterate env period n (d, w)"
proof (induction n arbitrary: d w l)
  case (Suc n)
  show ?case
    using traced_iteration [of env period d w l, symmetric] Suc.IH
    by (cases "ecu_iteration (traced env) period (d, w, l)") (auto simp: untraced_def split: prod.splits)
qed simp

lemma traced_loop:
  "map_option untraced (ecu_loop (traced env) period (d, w, l)) = ecu_loop env period (d, w)"
proof (cases "ecu_loop (traced env) period (d, w, l)")
  case (Some r)
  from ecu_loop_iterates [OF this] obtain n where "ecu_iterate (traced env) period n (d, w, l) = Inl r" by blast
  then have "ecu_iterate env period n (d, w) = Inl (untraced r)" using traced_iterate [of env period n d w l] by simp
  then show ?thesis using Some by (simp add: ecu_loop_returns)
next
  case None
  have "ecu_loop env period (d, w) = None"
  proof (rule ccontr)
    assume "ecu_loop env period (d, w) \<noteq> None"
    then obtain r n where "ecu_iterate env period n (d, w) = Inl r" using ecu_loop_iterates by fast
    then obtain r1 where "ecu_iterate (traced env) period n (d, w, l) = Inl r1"
      using traced_iterate [of env period n d w l] by (cases "ecu_iterate (traced env) period n (d, w, l)") auto
    then show False using None by (simp add: ecu_loop_returns)
  qed
  then show ?thesis using None by simp
qed

lemma traced_run:
  "map_option untraced (EcuProcess_run (traced env) config (w, l)) = EcuProcess_run env config w"
  by (simp add: EcuProcess_run_def traced_def [of env, THEN arg_cong [where f = en_info]]
      traced_def [of env, THEN arg_cong [where f = en_error]]
      traced_def [of env, THEN arg_cong [where f = en_network_init]]
      traced_def [of env, THEN arg_cong [where f = en_now]]
      traced_def [of env, THEN arg_cong [where f = en_application_init]] traced_loop split: prod.splits)

end
