(* ===== verification/Sim_Counter.thy ===== *)
theory Sim_Counter
  imports Sim_Process "HOL-Library.Word"
begin

section \<open>The counter ECU\<close>

text \<open>
  \<^verbatim>\<open>sim/ecu_logger.cpp\<close>, \<^verbatim>\<open>sim/signal_shutdown.cpp\<close>, \<^verbatim>\<open>sim/system_monotonic_clock.cpp\<close> and
  \<^verbatim>\<open>sim/examples/counter_ecu.cpp\<close>: the program that the interfaces of the superloop are put together
  in.  The operating system is its world: which signals arrive is a list with one entry for each
  time the flag is looked at, and how late the steady clock is read and a sleep returns is a
  function \<open>late\<close> of the number of calls made to it.
\<close>

subsection \<open>Logger\<close>

datatype FILE = Stdout | Stderr

record EcuLogger =
  el_ecu_name :: string
  el_output_stream :: "FILE option"
  el_error_stream :: "FILE option"

definition EcuLogger_init :: "string \<Rightarrow> EcuLogger" where
  "EcuLogger_init ecu_name =
     \<lparr>el_ecu_name = ecu_name, el_output_stream = Some Stdout, el_error_stream = Some Stderr\<rparr>"

type_synonym files = "FILE \<Rightarrow> string"

definition fwrite :: "string \<Rightarrow> FILE \<Rightarrow> files \<Rightarrow> files" where
  "fwrite data stream files = files(stream := files stream @ data)"

definition EcuLogger_write :: "EcuLogger \<Rightarrow> FILE option \<Rightarrow> string \<Rightarrow> files \<Rightarrow> files" where
  "EcuLogger_write logger stream message files =
     (case stream of None \<Rightarrow> files
      | Some f \<Rightarrow> fwrite [CHR 0x0A] f (fwrite message f (fwrite ''] '' f (fwrite (el_ecu_name logger) f (fwrite ''['' f files)))))"

definition EcuLogger_info :: "EcuLogger \<Rightarrow> string \<Rightarrow> files \<Rightarrow> files" where
  "EcuLogger_info logger message = EcuLogger_write logger (el_output_stream logger) message"

definition EcuLogger_error :: "EcuLogger \<Rightarrow> string \<Rightarrow> files \<Rightarrow> files" where
  "EcuLogger_error logger message = EcuLogger_write logger (el_error_stream logger) message"

subsection \<open>World\<close>

record CounterWorld =
  cw_files :: files
  cw_shutdown_requested :: bool
  cw_signals :: "bool list"
  cw_time :: int
  cw_clock_calls :: nat
  cw_periodic_count :: "64 word"

abbreviation cw_log :: "(files \<Rightarrow> files) \<Rightarrow> CounterWorld \<Rightarrow> CounterWorld" where
  "cw_log f w \<equiv> w\<lparr>cw_files := f (cw_files w)\<rparr>"

subsection \<open>Shutdown\<close>

definition SignalShutdown_handleSignal :: "CounterWorld \<Rightarrow> CounterWorld" where
  "SignalShutdown_handleSignal w = w\<lparr>cw_shutdown_requested := True\<rparr>"

definition SignalShutdown_reset :: "CounterWorld \<Rightarrow> CounterWorld" where
  "SignalShutdown_reset w = w\<lparr>cw_shutdown_requested := False\<rparr>"

text \<open>Both handlers are asked for, whatever the first answer is.\<close>

definition SignalShutdown_install :: "bool \<Rightarrow> bool \<Rightarrow> bool" where
  "SignalShutdown_install interrupt_result terminate_result \<longleftrightarrow> interrupt_result \<and> terminate_result"

definition deliver_signal :: "CounterWorld \<Rightarrow> CounterWorld" where
  "deliver_signal w =
     (case cw_signals w of [] \<Rightarrow> w
      | arrived # later \<Rightarrow>
          (if arrived then SignalShutdown_handleSignal else id) (w\<lparr>cw_signals := later\<rparr>))"

definition SignalShutdown_isShutdownRequested :: "CounterWorld \<Rightarrow> bool \<times> CounterWorld" where
  "SignalShutdown_isShutdownRequested w = (let w1 = deliver_signal w in (cw_shutdown_requested w1, w1))"

subsection \<open>Clock\<close>

definition SystemMonotonicClock_now :: "(nat \<Rightarrow> nat) \<Rightarrow> CounterWorld \<Rightarrow> int \<times> CounterWorld" where
  "SystemMonotonicClock_now late w =
     (let t = cw_time w + int (late (cw_clock_calls w))
      in (t, w\<lparr>cw_time := t, cw_clock_calls := cw_clock_calls w + 1\<rparr>))"

definition SystemMonotonicClock_sleepUntil :: "(nat \<Rightarrow> nat) \<Rightarrow> int \<Rightarrow> CounterWorld \<Rightarrow> CounterWorld" where
  "SystemMonotonicClock_sleepUntil late deadline w =
     w\<lparr>cw_time := max (cw_time w) deadline + int (late (cw_clock_calls w)), cw_clock_calls := cw_clock_calls w + 1\<rparr>"

subsection \<open>Application\<close>

text \<open>\<^verbatim>\<open>std::to_string\<close> of an unsigned number.\<close>

definition decimal_digit :: "nat \<Rightarrow> char" where
  "decimal_digit n = ''0123456789'' ! (n mod 10)"

fun decimal_text :: "nat \<Rightarrow> string" where
  "decimal_text n = (if n < 10 then [decimal_digit n] else decimal_text (n div 10) @ [decimal_digit n])"

declare decimal_text.simps [simp del]

definition kLogInterval :: "64 word" where "kLogInterval = 1000"

definition NoOpNetworkRuntime_init :: "CounterWorld \<Rightarrow> bool \<times> CounterWorld" where
  "NoOpNetworkRuntime_init w = (True, w)"

definition NoOpNetworkRuntime_poll :: "CounterWorld \<Rightarrow> bool \<times> CounterWorld" where
  "NoOpNetworkRuntime_poll w = (True, w)"

definition CounterApplication_init :: "EcuLogger \<Rightarrow> CounterWorld \<Rightarrow> CounterWorld" where
  "CounterApplication_init logger w = cw_log (EcuLogger_info logger ''counter application initialized'') w"

definition CounterApplication_periodic :: "EcuLogger \<Rightarrow> CounterWorld \<Rightarrow> CounterWorld" where
  "CounterApplication_periodic logger w =
     (let w1 = w\<lparr>cw_periodic_count := cw_periodic_count w + 1\<rparr>
      in if cw_periodic_count w1 mod kLogInterval = 0
         then cw_log (EcuLogger_info logger (''counter periodic count='' @ decimal_text (unat (cw_periodic_count w1)))) w1
         else w1)"

definition counter_env :: "(nat \<Rightarrow> nat) \<Rightarrow> EcuLogger \<Rightarrow> CounterWorld EcuEnv" where
  "counter_env late logger = \<lparr>
     en_network_init = NoOpNetworkRuntime_init, en_network_poll = NoOpNetworkRuntime_poll,
     en_application_init = CounterApplication_init logger, en_application_periodic = CounterApplication_periodic logger,
     en_now = SystemMonotonicClock_now late, en_sleepUntil = SystemMonotonicClock_sleepUntil late,
     en_isShutdownRequested = SignalShutdown_isShutdownRequested,
     en_info = (\<lambda>m. cw_log (EcuLogger_info logger m)), en_error = (\<lambda>m. cw_log (EcuLogger_error logger m))\<rparr>"

subsection \<open>Program\<close>

definition counter_executable_name :: "int \<Rightarrow> string option list option \<Rightarrow> string option" where
  "counter_executable_name argc argv = (case argv of None \<Rightarrow> None | Some a \<Rightarrow>
     if 0 < argc then (case a of [] \<Rightarrow> None | name # _ \<Rightarrow> name) else None)"

definition counter_main ::
  "(nat \<Rightarrow> nat) \<Rightarrow> bool \<Rightarrow> bool \<Rightarrow> int \<Rightarrow> string option list option \<Rightarrow> CounterWorld \<Rightarrow> (ecu_outcome \<times> CounterWorld) option" where
  "counter_main late interrupt_result terminate_result argc argv w =
     (let command_line = parseCommandLine argc argv; usage = commandLineUsage (counter_executable_name argc argv)
      in case clr_status command_line of
           CL_kHelpRequested \<Rightarrow> Some (Exited 0, cw_log (fwrite usage Stdout) w)
         | CL_kError \<Rightarrow>
             Some (Exited 2, cw_log (fwrite usage Stderr)
               (cw_log (fwrite (''error: '' @ clr_diagnostic command_line @ [CHR 0x0A]) Stderr) w))
         | CL_kOk \<Rightarrow>
             (let logger = EcuLogger_init (cfg_ecu_name (clr_config command_line)); w1 = SignalShutdown_reset w
              in if \<not> SignalShutdown_install interrupt_result terminate_result
                 then Some (Exited 3, cw_log (EcuLogger_error logger ''failed to install SIGINT/SIGTERM handlers'') w1)
                 else EcuProcess_run (counter_env late logger) (clr_config command_line) (w1\<lparr>cw_periodic_count := 0\<rparr>)))"

subsection \<open>What a session prints\<close>

definition log_line :: "string \<Rightarrow> string \<Rightarrow> string" where
  "log_line name message = ''['' @ name @ ''] '' @ message @ [CHR 0x0A]"

text \<open>The lines of the first \<open>n\<close> calls of the application.\<close>

definition counter_lines :: "string \<Rightarrow> nat \<Rightarrow> string" where
  "counter_lines name n =
     concat (map (\<lambda>k. log_line name (''counter periodic count='' @ decimal_text (1000 * k))) [1..<Suc (n div 1000)])"

definition add_output :: "string \<Rightarrow> files \<Rightarrow> files" where
  "add_output s files = files(Stdout := files Stdout @ s)"

lemma info_output: "EcuLogger_info (EcuLogger_init name) m = add_output (log_line name m)"
  by (rule ext) (simp add: EcuLogger_info_def EcuLogger_init_def EcuLogger_write_def fwrite_def add_output_def log_line_def)

lemma add_output_append [simp]: "add_output t (add_output s files) = add_output (s @ t) files"
  by (simp add: add_output_def)

lemma add_output_Nil [simp]: "add_output [] = id"
  by (rule ext) (simp add: add_output_def)

lemma counter_lines_Suc:
  "counter_lines name (Suc n) = counter_lines name n @
     (if Suc n mod 1000 = 0 then log_line name (''counter periodic count='' @ decimal_text (Suc n)) else [])"
proof (cases "Suc n mod 1000 = 0")
  case True
  then have d: "Suc n div 1000 = Suc (n div 1000)" and e: "1000 * (Suc n div 1000) = Suc n"
    by (simp add: div_Suc) (use True mult_div_mod_eq [of 1000 "Suc n"] in simp)
  then have "1000 + 1000 * (n div 1000) = Suc n" by simp
  then have "decimal_text (1000 + 1000 * (n div 1000)) = decimal_text (Suc n)" by (rule arg_cong)
  then show ?thesis using True d by (simp add: counter_lines_def)
next
  case False
  then have "Suc n div 1000 = n div 1000" by (simp add: div_Suc)
  then show ?thesis using False by (simp add: counter_lines_def)
qed

lemma counter_lines_0 [simp]: "counter_lines name 0 = []"
  by (simp add: counter_lines_def)

lemma periodic_output:
  assumes "unat (cw_periodic_count w) = n" and "Suc n < 2 ^ 64" and "cw_files w = add_output (counter_lines name n) files"
  shows "\<exists>c. CounterApplication_periodic (EcuLogger_init name) w = w\<lparr>cw_periodic_count := c,
      cw_files := add_output (counter_lines name (Suc n)) files\<rparr> \<and> unat c = Suc n"
proof -
  have c: "unat (cw_periodic_count w + 1) = Suc n" using assms(1,2) by (simp add: unat_word_ariths)
  have m: "(cw_periodic_count w + 1) mod kLogInterval = 0 \<longleftrightarrow> Suc n mod 1000 = 0"
    using c by (simp add: unat_eq_zero [symmetric] unat_mod_distrib kLogInterval_def)
  show ?thesis
    using assms(3) c m
    by (intro exI [of _ "cw_periodic_count w + 1"])
      (simp add: CounterApplication_periodic_def Let_def info_output counter_lines_Suc)
qed

text \<open>
  The state between two iterations: \<open>n\<close> calls of the application have been made, no signal has
  arrived, and the deadline has been reached.
\<close>

definition counter_state :: "string \<Rightarrow> files \<Rightarrow> nat \<Rightarrow> int \<Rightarrow> bool list \<Rightarrow> int \<times> CounterWorld \<Rightarrow> bool" where
  "counter_state name files n time signals s \<longleftrightarrow>
     unat (cw_periodic_count (snd s)) = n \<and> cw_files (snd s) = add_output (counter_lines name n) files
     \<and> \<not> cw_shutdown_requested (snd s) \<and> cw_signals (snd s) = signals
     \<and> fst s \<le> cw_time (snd s) \<and> cw_time (snd s) \<le> time \<and> 0 \<le> fst s"

lemmas counter_steps = SignalShutdown_isShutdownRequested_def deliver_signal_def SignalShutdown_handleSignal_def
  NoOpNetworkRuntime_poll_def SystemMonotonicClock_now_def SystemMonotonicClock_sleepUntil_def

lemma counter_iteration:
  assumes "counter_state name files n time (False # False # signals) s"
    and "\<And>k. late k \<le> bound" and "0 < period" and "time + 1000 * period + 2 * int bound < 2 ^ 63" and "Suc n < 2 ^ 64"
  shows "\<exists>s1. ecu_iteration (counter_env late (EcuLogger_init name)) period s = Inr s1
    \<and> counter_state name files (Suc n) (time + 1000 * period + 2 * int bound) signals s1"
proof -
  obtain d w where s: "s = (d, w)" by fastforce
  have w: "unat (cw_periodic_count w) = n" "cw_files w = add_output (counter_lines name n) files"
    "\<not> cw_shutdown_requested w" "cw_signals w = False # False # signals" "d \<le> cw_time w" "cw_time w \<le> time" "0 \<le> d"
    using assms(1) by (simp_all add: counter_state_def s)
  let ?w1 = "w\<lparr>cw_signals := False # signals\<rparr>"
  obtain c where p: "CounterApplication_periodic (EcuLogger_init name) ?w1 = ?w1\<lparr>cw_periodic_count := c,
      cw_files := add_output (counter_lines name (Suc n)) files\<rparr>" and c: "unat c = Suc n"
    using periodic_output [of ?w1 n name files] w assms(5) by auto
  define t where "t = cw_time w + int (late (cw_clock_calls w))"
  define x where "x = (if d + 1000 * period \<le> t then t + 1000 * period else d + 1000 * period)"
  have l: "int (late k) \<le> int bound" for k using assms(2) [of k] by simp
  have t: "d \<le> t" "t \<le> time + int bound" using w l [of "cw_clock_calls w"] by (simp_all add: t_def)
  have x: "t < x" "x \<le> time + 1000 * period + int bound" using t assms(3) by (auto simp: x_def)
  have fit: "time_plus d period = Some (d + 1000 * period)" "time_plus t period = Some (t + 1000 * period)"
    using t w assms(3,4) by (auto simp: time_plus_def in_i64_def)
  let ?s1 = "(x, ?w1\<lparr>cw_signals := signals, cw_periodic_count := c, cw_files := add_output (counter_lines name (Suc n)) files,
      cw_time := max t x + int (late (cw_clock_calls w + 1)), cw_clock_calls := cw_clock_calls w + 2\<rparr>)"
  have "ecu_iteration (counter_env late (EcuLogger_init name)) period s = Inr ?s1"
    using w fit p
    by (auto simp: ecu_iteration_def ecu_next_deadline_def counter_env_def counter_steps s Let_def x_def
        t_def [symmetric])
  moreover have "counter_state name files (Suc n) (time + 1000 * period + 2 * int bound) signals ?s1"
    using c w x t l [of "cw_clock_calls w + 1"] assms(3) by (auto simp: counter_state_def max_def)
  ultimately show ?thesis by blast
qed

lemma counter_iterates:
  assumes "counter_state name files n time (replicate (2 * m) False @ signals) s"
    and "\<And>k. late k \<le> bound" and "0 < period" and "time + int m * (1000 * period + 2 * int bound) < 2 ^ 63"
    and "n + m < 2 ^ 64"
  shows "\<exists>s1. (\<forall>k. ecu_iterate (counter_env late (EcuLogger_init name)) period (m + k) s
      = ecu_iterate (counter_env late (EcuLogger_init name)) period k s1)
    \<and> counter_state name files (n + m) (time + int m * (1000 * period + 2 * int bound)) signals s1"
  using assms(1,4,5)
proof (induction m arbitrary: s n time)
  case 0
  then show ?case by (intro exI [of _ s]) simp
next
  case (Suc m)
  let ?step = "1000 * period + 2 * int bound"
  have total: "time + int (Suc m) * ?step = (time + ?step) + int m * ?step" by (simp add: algebra_simps)
  have nonneg: "0 \<le> int m * ?step" using assms(3) by simp
  have "counter_state name files n time (False # False # replicate (2 * m) False @ signals) s" using Suc.prems(1) by simp
  moreover have "time + 1000 * period + 2 * int bound < 2 ^ 63" using Suc.prems(2) total nonneg by linarith
  ultimately obtain s1 where s1: "ecu_iteration (counter_env late (EcuLogger_init name)) period s = Inr s1"
    "counter_state name files (Suc n) (time + ?step) (replicate (2 * m) False @ signals) s1"
    using counter_iteration [where late = late, OF _ assms(2,3), of name files n time] Suc.prems(3) by (fastforce simp: add.assoc)
  have "(time + ?step) + int m * ?step < 2 ^ 63" "Suc n + m < 2 ^ 64" using Suc.prems(2,3) total by simp_all
  from Suc.IH [OF s1(2) this] obtain s2 where
    "\<forall>k. ecu_iterate (counter_env late (EcuLogger_init name)) period (m + k) s1
      = ecu_iterate (counter_env late (EcuLogger_init name)) period k s2"
    "counter_state name files (Suc n + m) (time + int (Suc m) * ?step) signals s2" unfolding total by blast
  then show ?case using s1(1) by (intro exI [of _ s2]) (simp del: of_nat_Suc)
qed

text \<open>The last iteration sees the signal at its first or at its second look at the flag.\<close>

lemma counter_last_even:
  assumes "counter_state name files n time (True # signals) s"
  shows "\<exists>w1. ecu_iterate (counter_env late (EcuLogger_init name)) period 1 s = Inl (Exited 0, w1)
    \<and> cw_files w1 = add_output (counter_lines name n @ log_line name ''shutdown complete'') files
    \<and> unat (cw_periodic_count w1) = n"
  using assms
  by (cases s) (auto simp: counter_state_def ecu_iteration_def ecu_shutdown_complete_def counter_env_def counter_steps
      info_output Let_def)

lemma counter_last_odd:
  assumes "counter_state name files n time (False # True # signals) s" and "Suc n < 2 ^ 64"
  shows "\<exists>w1. ecu_iterate (counter_env late (EcuLogger_init name)) period 1 s = Inl (Exited 0, w1)
    \<and> cw_files w1 = add_output (counter_lines name (Suc n) @ log_line name ''shutdown complete'') files
    \<and> unat (cw_periodic_count w1) = Suc n"
proof -
  obtain d w where s: "s = (d, w)" by fastforce
  have w: "unat (cw_periodic_count w) = n" "cw_files w = add_output (counter_lines name n) files"
    "\<not> cw_shutdown_requested w" "cw_signals w = False # True # signals"
    using assms(1) by (simp_all add: counter_state_def s)
  let ?w1 = "w\<lparr>cw_signals := True # signals\<rparr>"
  obtain c where p: "CounterApplication_periodic (EcuLogger_init name) ?w1 = ?w1\<lparr>cw_periodic_count := c,
      cw_files := add_output (counter_lines name (Suc n)) files\<rparr>" and "unat c = Suc n"
    using periodic_output [of ?w1 n name files] w assms(2) by auto
  then show ?thesis
    using w by (auto simp: s ecu_iteration_def ecu_shutdown_complete_def counter_env_def counter_steps info_output Let_def)
qed

lemma counter_loop:
  assumes "counter_state name files 0 time (replicate checks False @ True # signals) s"
    and "\<And>k. late k \<le> bound" and "0 < period"
    and "time + int (checks div 2) * (1000 * period + 2 * int bound) < 2 ^ 63"
  shows "\<exists>w1. ecu_loop (counter_env late (EcuLogger_init name)) period s = Some (Exited 0, w1)
    \<and> cw_files w1 = add_output (counter_lines name ((checks + 1) div 2) @ log_line name ''shutdown complete'') files
    \<and> unat (cw_periodic_count w1) = (checks + 1) div 2"
proof -
  let ?m = "checks div 2" and ?env = "counter_env late (EcuLogger_init name)"
  let ?step = "1000 * period + 2 * int bound"
  have "0 \<le> time" using assms(1) by (auto simp: counter_state_def)
  then have "int ?m * ?step < 2 ^ 63" using assms(4) by linarith
  moreover have "int ?m * 1 \<le> int ?m * ?step" using assms(3) by (intro mult_left_mono) auto
  ultimately have "int ?m < 2 ^ 63" by linarith
  then have m: "?m < 2 ^ 63" by simp
  have split: "replicate checks False @ True # signals
    = replicate (2 * ?m) False @ (if even checks then True # signals else False # True # signals)"
  proof (cases "even checks")
    case False
    then have "checks = 2 * ?m + 1" by presburger
    then have "replicate checks False = replicate (2 * ?m) False @ [False]"
      by (metis replicate_add replicate_Suc replicate_0 One_nat_def)
    then show ?thesis using False by simp
  qed simp
  obtain s1 where it: "\<And>k. ecu_iterate ?env period (?m + k) s = ecu_iterate ?env period k s1"
    and s1: "counter_state name files ?m (time + int ?m * ?step)
      (if even checks then True # signals else False # True # signals) s1"
    using counter_iterates [where late = late, OF assms(1) [unfolded split] assms(2,3,4)] m by auto
  have "\<exists>w1. ecu_iterate ?env period 1 s1 = Inl (Exited 0, w1)
    \<and> cw_files w1 = add_output (counter_lines name ((checks + 1) div 2) @ log_line name ''shutdown complete'') files
    \<and> unat (cw_periodic_count w1) = (checks + 1) div 2"
  proof (cases "even checks")
    case True
    then show ?thesis using counter_last_even s1 by (simp del: ecu_iterate.simps One_nat_def)
  next
    case False
    then have half: "(checks + 1) div 2 = Suc ?m" by presburger
    show ?thesis unfolding half by (rule counter_last_odd) (use s1 m False in simp_all)
  qed
  then show ?thesis using it [of 1] ecu_loop_returns by metis
qed

text \<open>C32: a session of the counter ECU, from its arguments to its output.  For every accepted command
  line, when both signal handlers can be installed, a signal arrives just before the shutdown flag
  is looked at for the time after \<open>checks\<close> others, the clock and the sleeps are late by at most
  \<open>bound\<close> and the time stays within the range of the clock, the program ends with exit code 0, has
  called the application once for every other look at the flag, and has printed the lines of the
  start, one line for every thousand calls with the count, and the line of the shutdown, all with
  the name given on the command line, and nothing to the error stream.
\<close>

theorem counter_ecu_session:
  assumes "1 \<le> argc" and "accepted_arguments (drop 1 (take (nat argc) argv)) config"
    and "cw_signals w = replicate checks False @ True # signals" and "\<And>k. late k \<le> bound" and "0 \<le> cw_time w"
    and "cw_time w + int bound + int (checks div 2) * (1000 * cfg_loop_period config + 2 * int bound) < 2 ^ 63"
  shows "\<exists>w1. counter_main late True True argc (Some argv) w = Some (Exited 0, w1)
    \<and> cw_files w1 = (cw_files w)(Stdout := cw_files w Stdout
        @ log_line (cfg_ecu_name config) ''initializing network''
        @ log_line (cfg_ecu_name config) ''counter application initialized''
        @ log_line (cfg_ecu_name config) ''ECU process started''
        @ counter_lines (cfg_ecu_name config) ((checks + 1) div 2)
        @ log_line (cfg_ecu_name config) ''shutdown complete'')
    \<and> unat (cw_periodic_count w1) = (checks + 1) div 2"
proof -
  let ?name = "cfg_ecu_name config" and ?argv = "drop 1 (take (nat argc) argv)"
  let ?start = "log_line ?name ''initializing network'' @ log_line ?name ''counter application initialized''
    @ log_line ?name ''ECU process started''"
  let ?t = "cw_time w + int (late (cw_clock_calls w))"
  have parsed: "parseCommandLine argc (Some argv) = \<lparr>clr_status = CL_kOk, clr_config = config, clr_diagnostic = []\<rparr>"
    using accepted_parses [OF assms(2)] assms(1) by (simp add: parseCommandLine_def)
  have valid: "EcuProcessConfig_isValid config"
    using assms(2) by (auto simp: EcuProcessConfig_isValid_def accepted_arguments_def period_text_def)
  let ?w = "w\<lparr>cw_shutdown_requested := False, cw_periodic_count := 0, cw_files := add_output ?start (cw_files w),
      cw_time := ?t, cw_clock_calls := cw_clock_calls w + 1\<rparr>"
  have run: "counter_main late True True argc (Some argv) w =
    ecu_loop (counter_env late (EcuLogger_init ?name)) (cfg_loop_period config) (?t, ?w)"
    by (simp add: counter_main_def Let_def parsed SignalShutdown_install_def SignalShutdown_reset_def EcuProcess_run_def valid
        counter_env_def NoOpNetworkRuntime_init_def CounterApplication_init_def SystemMonotonicClock_now_def info_output)
  have "int (late k) \<le> int bound" for k using assms(4) by simp
  then have "counter_state ?name (add_output ?start (cw_files w)) 0 (cw_time w + int bound)
      (replicate checks False @ True # signals) (?t, ?w)"
    using assms(3,5) by (auto simp: counter_state_def)
  from counter_loop [where late = late, OF this assms(4) _ assms(6)] obtain w1 where
    "ecu_loop (counter_env late (EcuLogger_init ?name)) (cfg_loop_period config) (?t, ?w) = Some (Exited 0, w1)"
    "cw_files w1 = add_output (counter_lines ?name ((checks + 1) div 2) @ log_line ?name ''shutdown complete'')
       (add_output ?start (cw_files w))" "unat (cw_periodic_count w1) = (checks + 1) div 2"
    using valid by (auto simp: EcuProcessConfig_isValid_def)
  then show ?thesis using run by (simp add: add_output_def)
qed

definition idle_world :: "bool list \<Rightarrow> CounterWorld" where
  "idle_world signals = \<lparr>cw_files = (\<lambda>f. []), cw_shutdown_requested = False, cw_signals = signals, cw_time = 0,
     cw_clock_calls = 0, cw_periodic_count = 0\<rparr>"

lemma idle_arguments:
  "accepted_arguments (drop 1 (take (nat 3) [Some ''ecu'', Some ''--name'', Some ''a'']))
     \<lparr>cfg_ecu_name = ''a'', cfg_loop_period = 1000\<rparr>"
  by (simp add: accepted_arguments_def)

theorem counter_ecu_session_witness:
  "\<exists>w1. counter_main (\<lambda>k. 5) True True 3 (Some [Some ''ecu'', Some ''--name'', Some ''a''])
      (idle_world (replicate 2001 False @ True # [])) = Some (Exited 0, w1)
    \<and> cw_files w1 = (\<lambda>f. [])(Stdout := log_line ''a'' ''initializing network'' @ log_line ''a'' ''counter application initialized''
        @ log_line ''a'' ''ECU process started'' @ log_line ''a'' ''counter periodic count=1000''
        @ log_line ''a'' ''shutdown complete'')
    \<and> unat (cw_periodic_count w1) = 1001"
proof -
  have lines: "counter_lines ''a'' 1001 = log_line ''a'' ''counter periodic count=1000''"
    by (simp add: counter_lines_def decimal_text.simps decimal_digit_def)
  show ?thesis
    using counter_ecu_session [OF _ idle_arguments, of "idle_world (replicate 2001 False @ True # [])" 2001 "[]" "\<lambda>k. 5" 5] lines
    by (simp add: idle_world_def)
qed

text \<open>C37: an accepted period that the clock cannot represent.  The command line takes every period up to
  the largest number of microseconds, but a deadline counts nanoseconds: when a thousand times the
  period is outside their range, every accepted command line leads to a signed overflow in the first
  iteration that is not stopped, at the advance of the deadline, after the application has run once.
\<close>

theorem long_period_overflows:
  assumes "1 \<le> argc" and "accepted_arguments (drop 1 (take (nat argc) argv)) config"
    and "2 ^ 63 \<le> 1000 * cfg_loop_period config" and "cw_signals w = False # False # signals"
  shows "\<exists>w1. counter_main late True True argc (Some argv) w = Some (Overflowed, w1) \<and> cw_periodic_count w1 = 1"
proof -
  let ?env = "counter_env late (EcuLogger_init (cfg_ecu_name config))"
  have parsed: "parseCommandLine argc (Some argv) = \<lparr>clr_status = CL_kOk, clr_config = config, clr_diagnostic = []\<rparr>"
    using accepted_parses [OF assms(2)] assms(1) by (simp add: parseCommandLine_def)
  have valid: "EcuProcessConfig_isValid config"
    using assms(2) by (auto simp: EcuProcessConfig_isValid_def accepted_arguments_def period_text_def)
  obtain t w2 where main: "counter_main late True True argc (Some argv) w = ecu_loop ?env (cfg_loop_period config) (t, w2)"
    and w2: "cw_signals w2 = False # False # signals" "\<not> cw_shutdown_requested w2" "cw_periodic_count w2 = 0"
    using assms(4)
    by (simp add: counter_main_def Let_def parsed SignalShutdown_install_def SignalShutdown_reset_def EcuProcess_run_def valid
        counter_env_def NoOpNetworkRuntime_init_def CounterApplication_init_def SystemMonotonicClock_now_def)
  have "time_plus t (cfg_loop_period config) = None" using assms(3) by (simp add: time_plus_def in_i64_def)
  then have "\<exists>w1. ecu_iteration ?env (cfg_loop_period config) (t, w2) = Inl (Overflowed, w1) \<and> cw_periodic_count w1 = 1"
    using w2 by (simp add: ecu_iteration_def ecu_next_deadline_def counter_env_def counter_steps Let_def
        CounterApplication_periodic_def kLogInterval_def)
  then show ?thesis unfolding main by (subst ecu_loop.simps) auto
qed

lemma long_arguments:
  "accepted_arguments (drop 1 (take (nat 5) [Some ''ecu'', Some ''--name'', Some ''a'',
       Some ''--loop-period-us'', Some ''9223372036854776'']))
     \<lparr>cfg_ecu_name = ''a'', cfg_loop_period = 9223372036854776\<rparr>"
  by (simp add: accepted_arguments_def period_text_def is_digit_def decimal_value_def digit_value_def of_char_def)

theorem long_period_overflows_witness:
  "\<exists>w1. counter_main (\<lambda>k. 0) True True 5 (Some [Some ''ecu'', Some ''--name'', Some ''a'',
       Some ''--loop-period-us'', Some ''9223372036854776'']) (idle_world [False, False]) = Some (Overflowed, w1)
    \<and> cw_periodic_count w1 = 1"
  using long_period_overflows [OF _ long_arguments, of "idle_world [False, False]" "[]" "\<lambda>k. 0"]
  by (simp add: idle_world_def)

end
