(* ===== verification/Static_String.thy ===== *)
theory Static_String
  imports WS_Prelude
begin

section \<open>Static strings\<close>

text \<open>
  \<^verbatim>\<open>foundation/static_string.h\<close>: text of at most \<open>n\<close> characters in an array of \<open>n + 1\<close>, always followed by a
  null character.  The capacity \<open>n\<close> is the template argument.  A pointer argument is the list of the
  characters it may read; an access outside an array or past that list is \<open>None\<close>.
\<close>

subsection \<open>Memory\<close>

definition kNul :: char where "kNul = CHR 0x00"

definition store_char :: "char list \<Rightarrow> nat \<Rightarrow> char \<Rightarrow> char list option" where
  "store_char buf i c = (if i < length buf then Some (buf[i := c]) else None)"

definition memcpy_at :: "char list \<Rightarrow> nat \<Rightarrow> char list \<Rightarrow> nat \<Rightarrow> char list option" where
  "memcpy_at buf i str count =
     (if count \<le> length str \<and> i + count \<le> length buf
      then Some (take i buf @ take count str @ drop (i + count) buf) else None)"

subsection \<open>Operations\<close>

record StaticString =
  ss_data :: "char list"
  ss_length :: nat

definition kDefaultStaticStringCapacity :: nat where "kDefaultStaticStringCapacity = 100"

definition StaticString_init :: "nat \<Rightarrow> StaticString" where
  "StaticString_init n = \<lparr>ss_data = (replicate (n + 1) kNul)[0 := kNul], ss_length = 0\<rparr>"

definition ss_assign :: "nat \<Rightarrow> char list \<Rightarrow> nat \<Rightarrow> StaticString \<Rightarrow> StaticString option" where
  "ss_assign n str input_length s =
     (let len = (if n < input_length then n else input_length)
      in Option.bind (if 0 < len then memcpy_at (ss_data s) 0 str len else Some (ss_data s)) (\<lambda>copied.
         Option.bind (store_char copied len kNul) (\<lambda>terminated.
         Some \<lparr>ss_data = terminated, ss_length = len\<rparr>)))"

definition ss_append :: "nat \<Rightarrow> char list \<Rightarrow> nat \<Rightarrow> StaticString \<Rightarrow> StaticString option" where
  "ss_append n str input_length s =
     (let available = n - ss_length s; to_copy = (if available < input_length then available else input_length)
      in if to_copy = 0 then Some s
         else Option.bind (memcpy_at (ss_data s) (ss_length s) str to_copy) (\<lambda>copied.
              Option.bind (store_char copied (ss_length s + to_copy) kNul) (\<lambda>terminated.
              Some \<lparr>ss_data = terminated, ss_length = ss_length s + to_copy\<rparr>)))"

text \<open>The length of a C string, looking at no more than \<open>n\<close> characters.\<close>

fun boundedLength :: "nat \<Rightarrow> char list \<Rightarrow> nat option" where
  "boundedLength 0 str = Some 0"
| "boundedLength (Suc n) [] = None"
| "boundedLength (Suc n) (c # str) = (if c = kNul then Some 0 else map_option Suc (boundedLength n str))"

definition ss_append_string :: "nat \<Rightarrow> char list \<Rightarrow> StaticString \<Rightarrow> StaticString option" where
  "ss_append_string n str s = Option.bind (boundedLength n str) (\<lambda>len. ss_append n str len s)"

definition ss_append_char :: "nat \<Rightarrow> char \<Rightarrow> StaticString \<Rightarrow> StaticString option" where
  "ss_append_char n character s =
     (if ss_length s < n
      then Option.bind (store_char (ss_data s) (ss_length s) character) (\<lambda>stored.
           Option.bind (store_char stored (ss_length s + 1) kNul) (\<lambda>terminated.
           Some \<lparr>ss_data = terminated, ss_length = ss_length s + 1\<rparr>))
      else Some s)"

definition ss_clear :: "StaticString \<Rightarrow> StaticString option" where
  "ss_clear s = Option.bind (store_char (ss_data s) 0 kNul) (\<lambda>terminated. Some \<lparr>ss_data = terminated, ss_length = 0\<rparr>)"

definition ss_at :: "StaticString \<Rightarrow> nat \<Rightarrow> char option" where
  "ss_at s position = (if position < length (ss_data s) then Some (ss_data s ! position) else None)"

text \<open>A write through the reference that \<^verbatim>\<open>operator[]\<close> gives.\<close>

definition ss_put :: "nat \<Rightarrow> char \<Rightarrow> StaticString \<Rightarrow> StaticString option" where
  "ss_put position c s = Option.bind (store_char (ss_data s) position c) (\<lambda>stored. Some (s\<lparr>ss_data := stored\<rparr>))"

text \<open>The constructors, and assignment from a string of any capacity.\<close>

definition StaticString_of :: "nat \<Rightarrow> char list \<Rightarrow> nat \<Rightarrow> StaticString option" where
  "StaticString_of n str input_length = ss_assign n str input_length (StaticString_init n)"

definition StaticString_of_string :: "nat \<Rightarrow> char list \<Rightarrow> StaticString option" where
  "StaticString_of_string n str = Option.bind (boundedLength n str) (\<lambda>len. StaticString_of n str len)"

definition StaticString_of_other :: "nat \<Rightarrow> StaticString \<Rightarrow> StaticString option" where
  "StaticString_of_other n other = ss_assign n (ss_data other) (ss_length other) (StaticString_init n)"

definition ss_assign_other :: "nat \<Rightarrow> StaticString \<Rightarrow> StaticString \<Rightarrow> StaticString option" where
  "ss_assign_other n other s = ss_assign n (ss_data other) (ss_length other) s"

definition StaticString_literal :: "char list \<Rightarrow> nat \<Rightarrow> StaticString option" where
  "StaticString_literal str len = StaticString_of kDefaultStaticStringCapacity str len"

subsection \<open>Truncated text\<close>

text \<open>The text of a string, and what holds of the array between operations.\<close>

definition ss_text :: "StaticString \<Rightarrow> string" where
  "ss_text s = take (ss_length s) (ss_data s)"

definition ss_valid :: "nat \<Rightarrow> StaticString \<Rightarrow> bool" where
  "ss_valid n s \<longleftrightarrow> length (ss_data s) = n + 1 \<and> ss_length s \<le> n \<and> ss_data s ! ss_length s = kNul"

lemma text_length: "ss_valid n s \<Longrightarrow> length (ss_text s) = ss_length s"
  by (simp add: ss_text_def ss_valid_def)

lemma init_valid: "ss_valid n (StaticString_init n)" and init_text: "ss_text (StaticString_init n) = []"
  by (simp_all add: ss_valid_def StaticString_init_def ss_text_def)

lemma assign_text:
  assumes "length (ss_data s) = n + 1" and "input_length \<le> length str"
  shows "\<exists>s1. ss_assign n str input_length s = Some s1 \<and> ss_valid n s1 \<and> ss_text s1 = take n (take input_length str)"
  using assms
  by (auto simp: ss_assign_def Let_def memcpy_at_def store_char_def ss_valid_def ss_text_def nth_append min_def
      intro!: exI)

lemma append_text:
  assumes "ss_valid n s" and "input_length \<le> length str"
  shows "\<exists>s1. ss_append n str input_length s = Some s1 \<and> ss_valid n s1
    \<and> ss_text s1 = take n (ss_text s @ take input_length str)"
  using assms
  by (auto simp: ss_append_def Let_def memcpy_at_def store_char_def ss_valid_def ss_text_def min_def)
    (metis le_antisym less_Suc_eq_le)

text \<open>A C string, as far as a string of capacity \<open>n\<close> looks at it.\<close>

definition c_text :: "nat \<Rightarrow> char list \<Rightarrow> string" where
  "c_text n str = takeWhile (\<lambda>c. c \<noteq> kNul) (take n str)"

definition c_readable :: "nat \<Rightarrow> char list \<Rightarrow> bool" where
  "c_readable n str \<longleftrightarrow> n \<le> length str \<or> kNul \<in> set str"

lemma boundedLength_text:
  "c_readable n str \<Longrightarrow> boundedLength n str = Some (length (c_text n str)) \<and> take (length (c_text n str)) str = c_text n str"
  by (induction n str rule: boundedLength.induct) (auto simp: c_readable_def c_text_def)

lemma c_text_le: "length (c_text n str) \<le> length str"
  by (simp add: c_text_def order_trans [OF length_takeWhile_le])

lemma append_char_text:
  assumes "ss_valid n s"
  shows "\<exists>s1. ss_append_char n c s = Some s1 \<and> ss_valid n s1 \<and> ss_text s1 = take n (ss_text s @ [c])"
  using assms
  by (auto simp: ss_append_char_def store_char_def ss_valid_def ss_text_def take_Suc_conv_app_nth take_update_swap
      list_update_append)

lemma clear_text:
  assumes "ss_valid n s"
  shows "\<exists>s1. ss_clear s = Some s1 \<and> ss_valid n s1 \<and> ss_text s1 = []"
  using assms by (auto simp: ss_clear_def store_char_def ss_valid_def ss_text_def)

lemma put_text:
  assumes "ss_valid n s" and "i < ss_length s"
  shows "\<exists>s1. ss_put i c s = Some s1 \<and> ss_valid n s1 \<and> ss_text s1 = (ss_text s)[i := c]"
  using assms by (auto simp: ss_put_def store_char_def ss_valid_def ss_text_def take_update_swap)

subsection \<open>Any sequence of operations\<close>

datatype ss_op = SsAssign "char list" nat | SsAppend "char list" nat | SsAppendString "char list" | SsAppendChar char
  | SsClear | SsPut nat char | SsAssignOther StaticString

fun ss_step :: "nat \<Rightarrow> ss_op \<Rightarrow> StaticString \<Rightarrow> StaticString option" where
  "ss_step n (SsAssign str len) s = ss_assign n str len s"
| "ss_step n (SsAppend str len) s = ss_append n str len s"
| "ss_step n (SsAppendString str) s = ss_append_string n str s"
| "ss_step n (SsAppendChar c) s = ss_append_char n c s"
| "ss_step n SsClear s = ss_clear s"
| "ss_step n (SsPut i c) s = ss_put i c s"
| "ss_step n (SsAssignOther other) s = ss_assign_other n other s"

fun ss_steps :: "nat \<Rightarrow> ss_op list \<Rightarrow> StaticString \<Rightarrow> StaticString option" where
  "ss_steps n [] s = Some s"
| "ss_steps n (op # ops) s = Option.bind (ss_step n op s) (ss_steps n ops)"

text \<open>What the operations mean for the text, and which of them the caller may make.\<close>

fun text_step :: "nat \<Rightarrow> ss_op \<Rightarrow> string \<Rightarrow> string" where
  "text_step n (SsAssign str len) t = take n (take len str)"
| "text_step n (SsAppend str len) t = take n (t @ take len str)"
| "text_step n (SsAppendString str) t = take n (t @ c_text n str)"
| "text_step n (SsAppendChar c) t = take n (t @ [c])"
| "text_step n SsClear t = []"
| "text_step n (SsPut i c) t = t[i := c]"
| "text_step n (SsAssignOther other) t = take n (ss_text other)"

fun text_allowed :: "nat \<Rightarrow> ss_op \<Rightarrow> string \<Rightarrow> bool" where
  "text_allowed n (SsAssign str len) t \<longleftrightarrow> len \<le> length str"
| "text_allowed n (SsAppend str len) t \<longleftrightarrow> len \<le> length str"
| "text_allowed n (SsAppendString str) t \<longleftrightarrow> c_readable n str"
| "text_allowed n (SsPut i c) t \<longleftrightarrow> i < length t"
| "text_allowed n (SsAssignOther other) t \<longleftrightarrow> ss_length other \<le> length (ss_data other)"
| "text_allowed n op t \<longleftrightarrow> True"

fun text_steps :: "nat \<Rightarrow> ss_op list \<Rightarrow> string \<Rightarrow> string" where
  "text_steps n [] t = t"
| "text_steps n (op # ops) t = text_steps n ops (text_step n op t)"

fun all_allowed :: "nat \<Rightarrow> ss_op list \<Rightarrow> string \<Rightarrow> bool" where
  "all_allowed n [] t = True"
| "all_allowed n (op # ops) t \<longleftrightarrow> text_allowed n op t \<and> all_allowed n ops (text_step n op t)"

lemma step_refines:
  assumes "ss_valid n s" and "text_allowed n op (ss_text s)"
  shows "\<exists>s1. ss_step n op s = Some s1 \<and> ss_valid n s1 \<and> ss_text s1 = text_step n op (ss_text s)"
proof (cases op)
  case (SsAssign str len)
  then show ?thesis using assms assign_text [of s n len str] by (simp add: ss_valid_def)
next
  case (SsAppend str len)
  then show ?thesis using assms append_text [of n s len str] by simp
next
  case (SsAppendString str)
  then show ?thesis
    using assms append_text [of n s "length (c_text n str)" str] boundedLength_text [of n str] c_text_le [of n str]
    by (simp add: ss_append_string_def)
next
  case (SsAppendChar c)
  then show ?thesis using assms append_char_text by simp
next
  case SsClear
  then show ?thesis using assms clear_text by simp
next
  case (SsPut i c)
  then show ?thesis using assms put_text [of n s i c] text_length [of n s] by simp
next
  case (SsAssignOther other)
  then show ?thesis
    using assms assign_text [of s n "ss_length other" "ss_data other"]
    by (simp add: ss_assign_other_def ss_text_def ss_valid_def)
qed

lemma steps_refine:
  "ss_valid n s \<Longrightarrow> all_allowed n ops (ss_text s) \<Longrightarrow>
   \<exists>s1. ss_steps n ops s = Some s1 \<and> ss_valid n s1 \<and> ss_text s1 = text_steps n ops (ss_text s)"
proof (induction ops arbitrary: s)
  case (Cons op ops)
  then obtain s1 where "ss_step n op s = Some s1" "ss_valid n s1" "ss_text s1 = text_step n op (ss_text s)"
    using step_refines by fastforce
  then show ?case using Cons.IH [of s1] Cons.prems by simp
qed simp

text \<open>What a reader of the array as a C string sees.\<close>

lemma c_text_of_valid:
  assumes "ss_valid n s" and "kNul \<notin> set (ss_text s)"
  shows "takeWhile (\<lambda>c. c \<noteq> kNul) (ss_data s) = ss_text s"
proof -
  have "ss_data s = ss_text s @ kNul # drop (Suc (ss_length s)) (ss_data s)"
    using assms(1) id_take_nth_drop [of "ss_length s" "ss_data s"] by (simp add: ss_valid_def ss_text_def)
  moreover have "takeWhile (\<lambda>c. c \<noteq> kNul) (ss_text s @ kNul # drop (Suc (ss_length s)) (ss_data s)) = ss_text s"
    using assms(2) by (subst takeWhile_append2) auto
  ultimately show ?thesis by simp
qed

text \<open>C35: a static string is a text cut at its capacity.  After any sequence of assignments, appends of
  buffers, C strings and characters, writes inside the text and clears, in which the caller passes
  no more than it has, no access leaves the array, the text is what the same operations give on
  unbounded text cut to \<open>n\<close> characters each time, the null character stands right behind it, and when
  the text holds no null character itself a reader of the array as a C string sees exactly it.
\<close>

theorem static_string_is_truncated_text:
  assumes "all_allowed n ops []"
  shows "\<exists>s. ss_steps n ops (StaticString_init n) = Some s
    \<and> ss_text s = text_steps n ops [] \<and> ss_length s \<le> n \<and> length (ss_data s) = n + 1 \<and> ss_data s ! ss_length s = kNul
    \<and> (kNul \<in> set (ss_text s) \<or> takeWhile (\<lambda>c. c \<noteq> kNul) (ss_data s) = text_steps n ops [])"
proof -
  from steps_refine [OF init_valid, of n ops] assms obtain s
    where "ss_steps n ops (StaticString_init n) = Some s" "ss_valid n s" "ss_text s = text_steps n ops []"
    by (auto simp: init_text)
  then show ?thesis using c_text_of_valid [of n s] by (auto simp: ss_valid_def)
qed

theorem static_string_is_truncated_text_witness:
  "\<exists>s. ss_steps 4 [SsAssign ''abcdef'' 3, SsAppendString [CHR ''x'', CHR 0x00], SsAppendChar CHR ''y'', SsPut 0 CHR ''z'']
        (StaticString_init 4) = Some s
     \<and> ss_text s = ''zbcx'' \<and> takeWhile (\<lambda>c. c \<noteq> kNul) (ss_data s) = ''zbcx''"
  using static_string_is_truncated_text [of 4 "[SsAssign ''abcdef'' 3, SsAppendString [CHR ''x'', CHR 0x00],
      SsAppendChar CHR ''y'', SsPut 0 CHR ''z'']"]
  by (auto simp: c_readable_def c_text_def kNul_def)

end
