(* ===== verification/Stack_Monitor.thy ===== *)
theory Stack_Monitor
  imports WS_Prelude
begin

section \<open>Stack monitor\<close>

text \<open>
  \<^verbatim>\<open>platform/avr/stack_monitor.h\<close>: the free part of the SRAM is painted, and the stack has reached as
  far down as the first byte that is not paint any more.  Memory is a function on 16-bit addresses;
  the linker's \<^verbatim>\<open>__heap_start\<close>, \<^verbatim>\<open>RAMEND\<close> and the stack pointer \<^verbatim>\<open>SP\<close> are arguments.
\<close>

subsection \<open>Operations\<close>

type_synonym sram = "16 word \<Rightarrow> 8 word"

definition kPaintPattern :: "8 word" where "kPaintPattern = 0xA5"
definition kInitializationGuardBytes :: "16 word" where "kInitializationGuardBytes = 32"

record StackMonitor =
  sm_stack_region_start :: "16 word"
  sm_capacity_bytes :: "16 word"
  sm_peak_used_bytes :: "16 word"

definition StackMonitor_init :: StackMonitor where
  "StackMonitor_init = \<lparr>sm_stack_region_start = 0, sm_capacity_bytes = 0, sm_peak_used_bytes = 0\<rparr>"

text \<open>The two loops over the addresses from \<open>cursor\<close> to \<open>end\<close>.\<close>

function sm_paint :: "16 word \<Rightarrow> 16 word \<Rightarrow> sram \<Rightarrow> sram" where
  "sm_paint cursor stop mem =
     (if cursor < stop then sm_paint (cursor + 1) stop (mem(cursor := kPaintPattern)) else mem)"
  by auto

function sm_first_used :: "16 word \<Rightarrow> 16 word \<Rightarrow> sram \<Rightarrow> 16 word" where
  "sm_first_used cursor stop mem =
     (if cursor < stop \<and> mem cursor = kPaintPattern then sm_first_used (cursor + 1) stop mem else cursor)"
  by auto

lemma cursor_next: "cursor < stop \<Longrightarrow> unat (cursor + 1) = Suc (unat cursor)" for cursor stop :: "16 word"
  using unsigned_less [of stop, where ?'a = nat] by (simp add: unat_word_ariths word_less_nat_alt)

termination sm_paint
  by (relation "measure (\<lambda>(cursor, stop, mem). unat stop - unat cursor)") (auto simp: cursor_next word_less_nat_alt)

termination sm_first_used
  by (relation "measure (\<lambda>(cursor, stop, mem). unat stop - unat cursor)") (auto simp: cursor_next word_less_nat_alt)

declare sm_paint.simps [simp del] sm_first_used.simps [simp del]

definition sm_scan :: "16 word \<Rightarrow> sram \<Rightarrow> StackMonitor \<Rightarrow> StackMonitor" where
  "sm_scan ramend mem m =
     (let stack_region_end = ramend + 1;
          first_used_address = sm_first_used (sm_stack_region_start m) stack_region_end mem;
          used_bytes = stack_region_end - first_used_address
      in if sm_peak_used_bytes m < used_bytes then m\<lparr>sm_peak_used_bytes := used_bytes\<rparr> else m)"

definition sm_paint_end :: "16 word \<Rightarrow> 16 word \<Rightarrow> 16 word" where
  "sm_paint_end stack_region_start stack_pointer =
     (if stack_region_start + kInitializationGuardBytes < stack_pointer
      then stack_pointer - kInitializationGuardBytes else stack_region_start)"

definition sm_initialize :: "16 word \<Rightarrow> 16 word \<Rightarrow> 16 word \<Rightarrow> sram \<Rightarrow> StackMonitor \<Rightarrow> StackMonitor \<times> sram" where
  "sm_initialize heap_start ramend sp mem m =
     (let stack_region_end = ramend + 1;
          m1 = m\<lparr>sm_stack_region_start := heap_start, sm_capacity_bytes := stack_region_end - heap_start\<rparr>;
          mem1 = sm_paint heap_start (sm_paint_end heap_start sp) mem
      in (sm_scan ramend mem1 m1, mem1))"

subsection \<open>The loops\<close>

lemma paint_exact:
  "sm_paint cursor stop mem a = (if cursor \<le> a \<and> a < stop then kPaintPattern else mem a)"
proof (induction cursor stop mem rule: sm_paint.induct)
  case (1 cursor stop mem)
  show ?case
  proof (cases "cursor < stop")
    case True
    then have "cursor + 1 \<le> a \<longleftrightarrow> cursor \<le> a \<and> a \<noteq> cursor"
      by (auto simp: word_le_nat_alt cursor_next word_unat_eq_iff)
    then show ?thesis using 1 True by (subst sm_paint.simps) (auto simp: fun_upd_def)
  next
    case False
    then show ?thesis by (subst sm_paint.simps) auto
  qed
qed

text \<open>The bytes from the first that is not paint to the end.\<close>

definition used_bytes :: "nat \<Rightarrow> nat \<Rightarrow> sram \<Rightarrow> nat" where
  "used_bytes start stop mem = length (dropWhile (\<lambda>a. mem (of_nat a) = kPaintPattern) [start..<stop])"

lemma first_used_exact:
  "cursor \<le> stop \<Longrightarrow> unat stop - unat (sm_first_used cursor stop mem) = used_bytes (unat cursor) (unat stop) mem
     \<and> cursor \<le> sm_first_used cursor stop mem \<and> sm_first_used cursor stop mem \<le> stop"
proof (induction cursor stop mem rule: sm_first_used.induct)
  case (1 cursor stop mem)
  show ?case
  proof (cases "cursor < stop")
    case True
    then have up: "[unat cursor..<unat stop] = unat cursor # [unat (cursor + 1)..<unat stop]"
      by (simp add: cursor_next upt_conv_Cons word_less_nat_alt)
    have le: "cursor + 1 \<le> stop" "cursor \<le> cursor + 1" using True by (simp_all add: cursor_next word_le_nat_alt word_less_nat_alt)
    show ?thesis
    proof (cases "mem cursor = kPaintPattern")
      case paint: True
      then show ?thesis
        using 1 True le up by (subst (1 2 3) sm_first_used.simps) (auto simp: used_bytes_def)
    next
      case False
      then show ?thesis using True 1 up cursor_next [OF True]
        by (subst (1 2 3) sm_first_used.simps) (simp add: used_bytes_def word_less_nat_alt)
    qed
  next
    case False
    then have "cursor = stop" using 1 by simp
    then show ?thesis by (subst (1 2 3) sm_first_used.simps) (simp add: used_bytes_def)
  qed
qed


subsection \<open>The peak\<close>

lemma scan_peak:
  assumes "sm_stack_region_start m \<le> ramend + 1"
  shows "unat (sm_peak_used_bytes (sm_scan ramend mem m)) =
      max (unat (sm_peak_used_bytes m)) (used_bytes (unat (sm_stack_region_start m)) (unat (ramend + 1)) mem)"
    and "sm_stack_region_start (sm_scan ramend mem m) = sm_stack_region_start m"
    and "sm_capacity_bytes (sm_scan ramend mem m) = sm_capacity_bytes m"
proof -
  let ?first = "sm_first_used (sm_stack_region_start m) (ramend + 1) mem"
  have "unat (ramend + 1 - ?first) = used_bytes (unat (sm_stack_region_start m)) (unat (ramend + 1)) mem"
    using first_used_exact [OF assms, of mem] by (simp add: unat_sub)
  then show "unat (sm_peak_used_bytes (sm_scan ramend mem m)) =
      max (unat (sm_peak_used_bytes m)) (used_bytes (unat (sm_stack_region_start m)) (unat (ramend + 1)) mem)"
    by (auto simp: sm_scan_def Let_def word_less_nat_alt max_def)
qed (simp_all add: sm_scan_def Let_def)

lemma used_bytes_le: "used_bytes start stop mem \<le> stop - start"
  unfolding used_bytes_def by (metis length_dropWhile_le length_upt)

text \<open>A used byte is counted with everything above it.\<close>

lemma dropWhile_keeps: "\<not> P y \<Longrightarrow> Suc (length ys) \<le> length (dropWhile P (xs @ y # ys))"
  by (induction xs) auto

lemma used_bytes_covers:
  assumes "start \<le> a" and "a < stop" and "mem (of_nat a) \<noteq> kPaintPattern"
  shows "stop - a \<le> used_bytes start stop mem"
proof -
  have "[start..<stop] = [start..<a] @ [a..<stop]" using upt_add_eq_append [of start a "stop - a"] assms by simp
  then have "[start..<stop] = [start..<a] @ a # [Suc a..<stop]" using assms(2) by (simp add: upt_conv_Cons)
  then show ?thesis
    using dropWhile_keeps [of "\<lambda>a. mem (of_nat a) = kPaintPattern" a "[Suc a..<stop]" "[start..<a]"] assms
    by (simp add: used_bytes_def)
qed

text \<open>The monitor after a scan of each of these contents of the memory, and its reference: the largest use.\<close>

definition sm_scans :: "16 word \<Rightarrow> sram list \<Rightarrow> StackMonitor \<Rightarrow> StackMonitor" where
  "sm_scans ramend mems m = fold (sm_scan ramend) mems m"

lemma scans_peak:
  "sm_stack_region_start m \<le> ramend + 1 \<Longrightarrow>
   unat (sm_peak_used_bytes (sm_scans ramend mems m)) =
     foldl max (unat (sm_peak_used_bytes m))
       (map (used_bytes (unat (sm_stack_region_start m)) (unat (ramend + 1))) mems)
   \<and> sm_capacity_bytes (sm_scans ramend mems m) = sm_capacity_bytes m"
proof (induction mems arbitrary: m)
  case (Cons mem mems)
  show ?case using Cons.IH [of "sm_scan ramend mem m"] Cons.prems scan_peak [OF Cons.prems, of mem] by (simp add: sm_scans_def)
qed (simp add: sm_scans_def)

lemma foldl_max_le: "foldl max (b::nat) xs \<le> c \<longleftrightarrow> b \<le> c \<and> list_all (\<lambda>x. x \<le> c) xs"
  by (induction xs arbitrary: b) auto

lemma foldl_max_ge: "x \<in> set (b # xs) \<Longrightarrow> x \<le> foldl max (b::nat) xs"
  using foldl_max_le [of b xs "foldl max b xs"] by (auto simp: list_all_iff)

text \<open>C34: the stack monitor finds the high-water mark.  After the initialization and a scan of any
  sequence of contents of the memory, the region below the stack pointer less its guard had been
  painted and nothing else touched, and the peak is the largest number of bytes, over the
  initialization and the scans, from the lowest byte that is not paint to the end of the memory;
  so it covers every byte above the heap that any scan saw changed, and never exceeds the capacity.
\<close>

theorem stack_peak_is_high_water_mark:
  assumes "heap_start \<le> ramend + 1" and "sm_initialize heap_start ramend sp mem StackMonitor_init = (m, painted)"
    and "peak = unat (sm_peak_used_bytes (sm_scans ramend mems m))"
  shows "painted = (\<lambda>a. if heap_start \<le> a \<and> a < sm_paint_end heap_start sp then kPaintPattern else mem a)
    \<and> peak = foldl max (used_bytes (unat heap_start) (unat (ramend + 1)) painted)
        (map (used_bytes (unat heap_start) (unat (ramend + 1))) mems)
    \<and> (\<forall>seen\<in>set mems. \<forall>a. heap_start \<le> a \<and> a < ramend + 1 \<and> seen a \<noteq> kPaintPattern
        \<longrightarrow> unat (ramend + 1) - unat a \<le> peak)
    \<and> peak \<le> unat (sm_capacity_bytes (sm_scans ramend mems m))"
proof -
  let ?used = "used_bytes (unat heap_start) (unat (ramend + 1))"
  let ?m = "StackMonitor_init\<lparr>sm_stack_region_start := heap_start, sm_capacity_bytes := ramend + 1 - heap_start\<rparr>"
  have m: "m = sm_scan ramend painted ?m" and "painted = sm_paint heap_start (sm_paint_end heap_start sp) mem"
    using assms(2) by (auto simp: sm_initialize_def Let_def)
  then have painted: "painted = (\<lambda>a. if heap_start \<le> a \<and> a < sm_paint_end heap_start sp then kPaintPattern else mem a)"
    by (auto simp: paint_exact)
  have first: "sm_stack_region_start m = heap_start" "unat (sm_peak_used_bytes m) = ?used painted"
    "unat (sm_capacity_bytes m) = unat (ramend + 1) - unat heap_start"
    using scan_peak [of ?m ramend painted] assms(1) unfolding m by (simp_all add: StackMonitor_init_def unat_sub)
  have peak: "peak = foldl max (?used painted) (map ?used mems)"
    and capacity: "unat (sm_capacity_bytes (sm_scans ramend mems m)) = unat (ramend + 1) - unat heap_start"
    using scans_peak [of m ramend mems] assms(1,3) first by simp_all
  have covers: "unat (ramend + 1) - unat a \<le> peak"
    if "seen \<in> set mems" "heap_start \<le> a" "a < ramend + 1" "seen a \<noteq> kPaintPattern" for seen a
  proof -
    have "unat (ramend + 1) - unat a \<le> ?used seen"
      using that(2-4) by (intro used_bytes_covers) (simp_all add: word_le_nat_alt word_less_nat_alt)
    also have "?used seen \<le> peak" unfolding peak using that(1) by (intro foldl_max_ge) simp
    finally show ?thesis .
  qed
  have bound: "peak \<le> unat (ramend + 1) - unat heap_start"
    unfolding peak by (simp add: foldl_max_le list_all_iff used_bytes_le)
  show ?thesis unfolding capacity by (intro conjI ballI allI impI painted peak bound) (auto intro: covers)
qed

text \<open>
  A region of 96 bytes at the end of the SRAM of an ATmega328P: after the initialization 64 bytes
  count as used, and a later write at \<open>0x8B0\<close> raises the peak to 80.
\<close>

definition sample_sram :: sram where
  "sample_sram = (\<lambda>a. 0)"

definition sample_painted :: sram where
  "sample_painted = sm_paint 0x8A0 0x8C0 sample_sram"

lemma sample_initialize:
  "sm_initialize 0x8A0 0x8FF 0x8E0 sample_sram StackMonitor_init =
     (\<lparr>sm_stack_region_start = 0x8A0, sm_capacity_bytes = 0x60, sm_peak_used_bytes = 0x40\<rparr>, sample_painted)"
  by code_simp

theorem stack_peak_is_high_water_mark_witness:
  "unat (sm_peak_used_bytes (sm_scans 0x8FF [sample_painted, sample_painted(0x8B0 := 7)]
      \<lparr>sm_stack_region_start = 0x8A0, sm_capacity_bytes = 0x60, sm_peak_used_bytes = 0x40\<rparr>)) = 80
   \<and> sample_painted = (\<lambda>a. if 0x8A0 \<le> a \<and> a < sm_paint_end 0x8A0 0x8E0 then kPaintPattern else sample_sram a)"
proof -
  have "unat (sm_peak_used_bytes (sm_scans 0x8FF [sample_painted, sample_painted(0x8B0 := 7)]
      \<lparr>sm_stack_region_start = 0x8A0, sm_capacity_bytes = 0x60, sm_peak_used_bytes = 0x40\<rparr>)) = 80" by code_simp
  then show ?thesis
    using stack_peak_is_high_water_mark [OF _ sample_initialize refl, of "[sample_painted, sample_painted(0x8B0 := 7)]"]
    by simp
qed

end
