(* ===== verification/Legacy_Hdlc.thy ===== *)
theory Legacy_Hdlc
  imports Containers Hdlc
begin

unbundle bit_operations_syntax

section \<open>Legacy HDLC framing\<close>

text \<open>
  \<^verbatim>\<open>links/uart_hdlc/legacy/hdlc.h\<close> and \<^verbatim>\<open>hdlc.cpp\<close>: the earlier framing, with its own encoder, a stateless
  decoder and a receiver over an input ring buffer.  That ring buffer's header is not part of the
  repository, so its operations are a record that the receiver's operations take.  An access outside
  a span is \<open>None\<close>.
\<close>

subsection \<open>Encoder and decoder\<close>

definition legacy_kFlag :: u8 where "legacy_kFlag = 0x7E"
definition legacy_kEscape :: u8 where "legacy_kEscape = 0x7D"
definition legacy_kXorValue :: u8 where "legacy_kXorValue = 0x20"

lemmas legacy_flags = legacy_kFlag_def legacy_kEscape_def legacy_kXorValue_def

definition span_put :: "bytes \<Rightarrow> nat \<Rightarrow> u8 \<Rightarrow> bytes option" where
  "span_put s i b = (if i < length s then Some (s[i := b]) else None)"

definition byteStuff :: "u8 \<Rightarrow> bytes \<Rightarrow> nat \<times> bytes" where
  "byteStuff byte out =
     (if length out < 1 then (0, out)
      else if byte = legacy_kFlag \<or> byte = legacy_kEscape then
        (if length out < 2 then (0, out)
         else (2, out[0 := legacy_kEscape, 1 := byte XOR legacy_kXorValue]))
      else (1, out[0 := byte]))"

text \<open>The loop of \<^verbatim>\<open>encodeFrame\<close>: whether it went through, with the frame and the index after it.\<close>

fun encode_loop :: "bytes \<Rightarrow> nat \<Rightarrow> bytes \<Rightarrow> bool \<times> nat \<times> bytes" where
  "encode_loop [] frame_index frame = (True, frame_index, frame)"
| "encode_loop (b # payload) frame_index frame =
     (case byteStuff b [0, 0] of (stuff_len, stuff) \<Rightarrow>
        if stuff_len = 0 then (False, frame_index, frame)
        else if length frame < frame_index + stuff_len then (False, frame_index, frame)
        else encode_loop payload (frame_index + stuff_len) (span_write frame_index (take stuff_len stuff) frame))"

definition legacy_encodeFrame :: "bytes \<Rightarrow> bytes \<Rightarrow> (bool \<times> bytes) option" where
  "legacy_encodeFrame payload frame =
     (if length frame < length payload + 2 then Some (False, frame)
      else Option.bind (span_put frame 0 legacy_kFlag) (\<lambda>frame1.
        case encode_loop payload 1 frame1 of (done_all, frame_index, frame2) \<Rightarrow>
          if \<not> done_all then Some (False, frame2)
          else map_option (\<lambda>frame3. (True, frame3)) (span_put frame2 frame_index legacy_kFlag)))"

fun decode_loop :: "bytes \<Rightarrow> nat \<Rightarrow> bool \<Rightarrow> bytes \<Rightarrow> bool \<times> bytes" where
  "decode_loop [] output_index stuff_flag output = (0 < output_index, output)"
| "decode_loop (b # input) output_index stuff_flag output =
     (if \<not> output_index < length output then (0 < output_index, output)
      else if b = legacy_kFlag then (0 < output_index, output)
      else if b = legacy_kEscape then decode_loop input output_index True output
      else if stuff_flag then decode_loop input (output_index + 1) False (output[output_index := b XOR legacy_kXorValue])
      else decode_loop input (output_index + 1) False (output[output_index := b]))"

definition decodePayload :: "bytes \<Rightarrow> bytes \<Rightarrow> bool \<times> bytes" where
  "decodePayload input output = decode_loop input 0 False output"

subsection \<open>The encoder is exact\<close>

text \<open>Both framings stuff bytes in the same way.\<close>

lemma byteStuff_stuff1:
  "byteStuff b [x, y] = (stuffedSize b, hdlc_stuff1 b @ drop (stuffedSize b) [x, y])"
  by (simp add: byteStuff_def hdlc_stuff1_def stuffedSize_def legacy_flags hdlc_kFlag_def hdlc_kEscape_def hdlc_kEscapeXor_def)

lemma stuffedSize_pos: "0 < stuffedSize b"
  by (simp add: stuffedSize_def)

lemma encode_loop_exact:
  assumes "frame_index \<le> length frame"
  shows "if frame_index + length (hdlc_stuff payload) \<le> length frame
    then encode_loop payload frame_index frame =
      (True, frame_index + length (hdlc_stuff payload), span_write frame_index (hdlc_stuff payload) frame)
    else \<not> fst (encode_loop payload frame_index frame)"
  using assms
proof (induction payload arbitrary: frame_index frame)
  case Nil
  then show ?case by (simp add: hdlc_stuff_def)
next
  case (Cons b payload)
  have stuff: "hdlc_stuff (b # payload) = hdlc_stuff1 b @ hdlc_stuff payload" by (simp add: hdlc_stuff_def)
  show ?case
  proof (cases "length frame < frame_index + stuffedSize b")
    case True
    then show ?thesis using stuffedSize_pos [of b] by (simp add: byteStuff_stuff1 stuff)
  next
    case False
    let ?frame = "span_write frame_index (hdlc_stuff1 b) frame"
    have "length ?frame = length frame" using False by simp
    then show ?thesis
      using Cons.IH [of "frame_index + stuffedSize b" ?frame] False stuffedSize_pos [of b]
        span_write_append [of frame_index "hdlc_stuff1 b" "hdlc_stuff payload" frame]
      by (auto simp: byteStuff_stuff1 stuff add.assoc split: if_splits)
  qed
qed

text \<open>
  The legacy encoder refuses a span shorter than the payload and two flags, and one the
  stuffed payload does not fit in; it writes the frame of the current framing, without its trailer,
  when flags and stuffed payload fit; and when the stuffed payload fills the span to the last byte,
  its closing flag goes one past the end.
\<close>

lemma legacy_encode_exact:
  "legacy_encodeFrame payload frame =
     (if length frame < length payload + 2 then Some (False, frame)
      else if length (hdlc_stuff payload) + 1 = length frame then None
      else if length (hdlc_stuff payload) + 2 \<le> length frame then Some (True, span_write 0 (hdlc_frame payload) frame)
      else Some (False, snd (snd (encode_loop payload 1 (frame[0 := legacy_kFlag])))))"
proof (cases "length frame < length payload + 2")
  case True
  then show ?thesis by (simp add: legacy_encodeFrame_def)
next
  case False
  let ?frame = "span_write 0 [legacy_kFlag] frame" and ?n = "length (hdlc_stuff payload)"
  have "0 < length frame" using False by linarith
  then have flag: "span_put frame 0 legacy_kFlag = Some ?frame" "frame[0 := legacy_kFlag] = ?frame"
    by (simp_all only: span_put_def list_update_span_write if_True)
  have len: "length ?frame = length frame" using False by simp
  have loop: "if 1 + ?n \<le> length frame
    then encode_loop payload 1 ?frame = (True, 1 + ?n, span_write 1 (hdlc_stuff payload) ?frame)
    else \<not> fst (encode_loop payload 1 ?frame)"
    using encode_loop_exact [of 1 ?frame payload] False len by auto
  show ?thesis
  proof (cases "?n + 2 \<le> length frame")
    case True
    then have body: "span_write 1 (hdlc_stuff payload) ?frame = span_write 0 (legacy_kFlag # hdlc_stuff payload) frame"
      using span_write_append [of 0 "[legacy_kFlag]" "hdlc_stuff payload" frame] by simp
    have "(span_write 0 (legacy_kFlag # hdlc_stuff payload) frame)[1 + ?n := legacy_kFlag] =
        span_write 0 (hdlc_frame payload) frame"
      using True span_write_append [of 0 "legacy_kFlag # hdlc_stuff payload" "[legacy_kFlag]" frame]
      by (subst list_update_span_write) (simp_all add: hdlc_frame_def legacy_kFlag_def hdlc_kFlag_def)
    then show ?thesis using True False loop flag body by (simp add: legacy_encodeFrame_def span_put_def)
  next
    case short: False
    then show ?thesis
      using False loop flag len
      by (auto simp: legacy_encodeFrame_def span_put_def split: prod.splits if_splits)
  qed
qed

lemma encode_fits:
  assumes "length payload + 2 \<le> length frame" and "length (hdlc_stuff payload) + 2 \<le> length frame"
  shows "legacy_encodeFrame payload frame = Some (True, span_write 0 (hdlc_frame payload) frame)"
  using assms by (subst legacy_encode_exact) auto

lemma legacy_encode_overrun:
  "legacy_encodeFrame payload frame = None \<longleftrightarrow>
     length payload + 2 \<le> length frame \<and> length (hdlc_stuff payload) + 1 = length frame"
  by (subst legacy_encode_exact) auto

subsection \<open>The decoder inverts it\<close>

lemma decode_loop_inverts:
  assumes "i \<le> length out"
  shows "decode_loop (hdlc_stuff payload @ legacy_kFlag # rest) i False out
    = (0 < min (i + length payload) (length out), span_write i (take (length out - i) payload) out)"
  using assms
proof (induction payload arbitrary: i out)
  case Nil
  then show ?case by (auto simp: hdlc_stuff_def min_def)
next
  case (Cons b payload)
  show ?case
  proof (cases "i < length out")
    case False
    obtain x xs where "hdlc_stuff (b # payload) @ legacy_kFlag # rest = x # xs"
      by (cases "hdlc_stuff (b # payload) @ legacy_kFlag # rest") auto
    then show ?thesis using False Cons.prems by simp
  next
    case True
    let ?p = "take (length out - Suc i) payload"
    have ne: "out \<noteq> []" using True by auto
    have "span_write (i + 1) ?p (out[i := b]) = span_write i (b # ?p) out"
      using True span_write_append [of i "[b]" ?p out] by (simp add: list_update_span_write)
    moreover have "b # ?p = take (length out - i) (b # payload)" using True by (simp add: take_Cons')
    ultimately have "decode_loop (hdlc_stuff payload @ legacy_kFlag # rest) (i + 1) False (out[i := b])
        = (True, span_write i (take (length out - i) (b # payload)) out)"
      using Cons.IH [of "i + 1" "out[i := b]"] True ne by simp
    then show ?thesis
      using True ne by (auto simp: hdlc_stuff_def hdlc_stuff1_def legacy_flags hdlc_kFlag_def hdlc_kEscape_def hdlc_kEscapeXor_def)
  qed
qed

subsection \<open>Receiver\<close>

datatype legacy_state = LS_IDLE | LS_FRAME_DELIMETER | LS_DATA | LS_ESCAPE

record 'q InputRing =
  ir_enqueue :: "'q \<Rightarrow> u8 \<Rightarrow> bool \<times> 'q"
  ir_dequeue :: "'q \<Rightarrow> u8 option \<times> 'q"
  ir_isEmpty :: "'q \<Rightarrow> bool"
  ir_clear :: "'q \<Rightarrow> 'q"

record 'q LegacyReceiver =
  lr_input_buffer :: 'q
  lr_payload_buffer :: bytes
  lr_payload_index :: nat
  lr_state :: legacy_state

definition legacy_reset :: "'q InputRing \<Rightarrow> 'q LegacyReceiver \<Rightarrow> 'q LegacyReceiver" where
  "legacy_reset ring r = r\<lparr>lr_state := LS_IDLE, lr_payload_index := 0, lr_input_buffer := ir_clear ring (lr_input_buffer r)\<rparr>"

definition legacy_enqueue :: "'q InputRing \<Rightarrow> u8 \<Rightarrow> 'q LegacyReceiver \<Rightarrow> bool \<times> 'q LegacyReceiver" where
  "legacy_enqueue ring b r = (case ir_enqueue ring (lr_input_buffer r) b of (ok, q) \<Rightarrow> (ok, r\<lparr>lr_input_buffer := q\<rparr>))"

fun legacy_enqueue_span :: "'q InputRing \<Rightarrow> bytes \<Rightarrow> 'q LegacyReceiver \<Rightarrow> bool \<times> 'q LegacyReceiver" where
  "legacy_enqueue_span ring [] r = (True, r)"
| "legacy_enqueue_span ring (b # bs) r =
     (case legacy_enqueue ring b r of (ok, r1) \<Rightarrow> if \<not> ok then (False, r1) else legacy_enqueue_span ring bs r1)"

text \<open>The overflow is logged, which has no effect on the receiver, and the receiver reset.\<close>

definition logPayloadBufferOverflow :: "'q InputRing \<Rightarrow> 'q LegacyReceiver \<Rightarrow> 'q LegacyReceiver" where
  "logPayloadBufferOverflow ring r = legacy_reset ring r"

text \<open>Store a byte: \<open>Inl\<close> when \<^verbatim>\<open>process\<close> returns, \<open>Inr\<close> when its loop goes on.\<close>

definition legacy_store ::
  "nat \<Rightarrow> 'q InputRing \<Rightarrow> u8 \<Rightarrow> 'q LegacyReceiver \<Rightarrow> (bool \<times> 'q LegacyReceiver) + 'q LegacyReceiver" where
  "legacy_store capacity ring b r =
     (if capacity \<le> lr_payload_index r then Inl (False, logPayloadBufferOverflow ring r)
      else Inr (r\<lparr>lr_payload_buffer := (lr_payload_buffer r)[lr_payload_index r := b],
                  lr_payload_index := lr_payload_index r + 1, lr_state := LS_DATA\<rparr>))"

definition legacy_byte ::
  "nat \<Rightarrow> 'q InputRing \<Rightarrow> u8 \<Rightarrow> 'q LegacyReceiver \<Rightarrow> (bool \<times> 'q LegacyReceiver) + 'q LegacyReceiver" where
  "legacy_byte capacity ring b r =
     (case lr_state r of
        LS_IDLE \<Rightarrow>
          (if b = legacy_kFlag then Inr (r\<lparr>lr_payload_index := 0, lr_state := LS_FRAME_DELIMETER\<rparr>) else Inr r)
      | LS_FRAME_DELIMETER \<Rightarrow>
          (if b = legacy_kFlag then Inr (r\<lparr>lr_payload_index := 0\<rparr>)
           else if b = legacy_kEscape then Inr (r\<lparr>lr_state := LS_ESCAPE\<rparr>)
           else legacy_store capacity ring b r)
      | LS_ESCAPE \<Rightarrow> legacy_store capacity ring (b XOR legacy_kXorValue) r
      | LS_DATA \<Rightarrow>
          (if b = legacy_kFlag then Inl (True, r\<lparr>lr_state := LS_FRAME_DELIMETER\<rparr>)
           else if b = legacy_kEscape then Inr (r\<lparr>lr_state := LS_ESCAPE\<rparr>)
           else legacy_store capacity ring b r))"

partial_function (option) legacy_process ::
  "nat \<Rightarrow> 'q InputRing \<Rightarrow> 'q LegacyReceiver \<Rightarrow> (bool \<times> 'q LegacyReceiver) option" where
  "legacy_process capacity ring r =
     (if ir_isEmpty ring (lr_input_buffer r) then Some (False, r)
      else (case ir_dequeue ring (lr_input_buffer r) of (taken, q) \<Rightarrow>
        (case taken of None \<Rightarrow> Some (False, r\<lparr>lr_input_buffer := q\<rparr>)
         | Some b \<Rightarrow>
             (case legacy_byte capacity ring b (r\<lparr>lr_input_buffer := q\<rparr>) of Inl result \<Rightarrow> Some result
              | Inr r1 \<Rightarrow> legacy_process capacity ring r1))))"

definition legacy_process_span ::
  "nat \<Rightarrow> 'q InputRing \<Rightarrow> bytes \<Rightarrow> 'q LegacyReceiver \<Rightarrow> (bool \<times> 'q LegacyReceiver) option" where
  "legacy_process_span capacity ring bs r =
     (case legacy_enqueue_span ring bs r of (ok, r1) \<Rightarrow> if \<not> ok then Some (False, r1) else legacy_process capacity ring r1)"

text \<open>The number of bytes, the output and the receiver.\<close>

definition receivePayload :: "bytes \<Rightarrow> 'q LegacyReceiver \<Rightarrow> nat \<times> bytes \<times> 'q LegacyReceiver" where
  "receivePayload output r =
     (if lr_state r \<noteq> LS_FRAME_DELIMETER then (0, output, r)
      else if lr_payload_index r = 0 \<or> length output < lr_payload_index r then (0, output, r)
      else (lr_payload_index r, span_write 0 (take (lr_payload_index r) (lr_payload_buffer r)) output,
            r\<lparr>lr_payload_index := 0, lr_state := LS_IDLE\<rparr>))"

subsection \<open>What the receiver makes of a frame\<close>

text \<open>What the receiver relies on: a first-in first-out buffer that can be tested and emptied.\<close>

locale input_ring =
  bounded_fifo "ir_enqueue ring" "ir_dequeue ring" contents invar cap
  for ring :: "'q InputRing" and contents and invar :: "'q \<Rightarrow> bool" and cap +
  assumes isEmpty_iff: "invar q \<Longrightarrow> ir_isEmpty ring q \<longleftrightarrow> contents q = []"
    and clear_empties: "invar q \<Longrightarrow> invar (ir_clear ring q) \<and> contents (ir_clear ring q) = []"
begin

lemma process_byte:
  assumes "invar (lr_input_buffer r)" and "contents (lr_input_buffer r) = b # bs"
  shows "\<exists>q. invar q \<and> contents q = bs \<and> legacy_process capacity ring r =
    (case legacy_byte capacity ring b (r\<lparr>lr_input_buffer := q\<rparr>) of Inl result \<Rightarrow> Some result
     | Inr r1 \<Rightarrow> legacy_process capacity ring r1)"
proof -
  obtain taken q where d: "ir_dequeue ring (lr_input_buffer r) = (taken, q)" by fastforce
  then have "taken = Some b" "invar q" "contents q = bs" using deq_nonempty [OF assms] by simp_all
  then show ?thesis using isEmpty_iff [OF assms(1)] assms(2) d
    by (intro exI [of _ q]) (simp add: legacy_process.simps [of capacity ring r])
qed

text \<open>Reading the stuffed form of a byte, and of a payload, in the data states.\<close>

lemma process_stuff1:
  assumes r: "invar (lr_input_buffer r)" "contents (lr_input_buffer r) = hdlc_stuff1 b @ rest"
    and state: "lr_state r = LS_DATA \<or> lr_state r = LS_FRAME_DELIMETER" and room: "lr_payload_index r < capacity"
  shows "\<exists>q. invar q \<and> contents q = rest \<and> legacy_process capacity ring r = legacy_process capacity ring
    (r\<lparr>lr_input_buffer := q, lr_payload_buffer := (lr_payload_buffer r)[lr_payload_index r := b],
       lr_payload_index := lr_payload_index r + 1, lr_state := LS_DATA\<rparr>)"
proof (cases "b = legacy_kFlag \<or> b = legacy_kEscape")
  case True
  then have "contents (lr_input_buffer r) = legacy_kEscape # (b XOR legacy_kXorValue) # rest"
    using r(2) by (auto simp: hdlc_stuff1_def legacy_flags hdlc_kFlag_def hdlc_kEscape_def hdlc_kEscapeXor_def)
  from process_byte [OF r(1) this, of capacity] obtain q where q: "invar q" "contents q = (b XOR legacy_kXorValue) # rest"
    "legacy_process capacity ring r = legacy_process capacity ring (r\<lparr>lr_input_buffer := q, lr_state := LS_ESCAPE\<rparr>)"
    using state by (auto simp: legacy_byte_def legacy_flags)
  let ?r = "r\<lparr>lr_input_buffer := q, lr_state := LS_ESCAPE\<rparr>"
  from process_byte [of ?r, of "b XOR legacy_kXorValue" rest capacity] q(1,2) obtain q1 where "invar q1" "contents q1 = rest"
    "legacy_process capacity ring ?r = (case legacy_byte capacity ring (b XOR legacy_kXorValue) (?r\<lparr>lr_input_buffer := q1\<rparr>) of
      Inl result \<Rightarrow> Some result | Inr r1 \<Rightarrow> legacy_process capacity ring r1)"
    by auto
  then show ?thesis
    using q(3) room by (intro exI [of _ q1]) (simp add: legacy_byte_def legacy_store_def xor.assoc)
next
  case False
  then have plain: "contents (lr_input_buffer r) = b # rest" "b \<noteq> legacy_kFlag" "b \<noteq> legacy_kEscape"
    using r(2) by (auto simp: hdlc_stuff1_def legacy_flags hdlc_kFlag_def hdlc_kEscape_def)
  from process_byte [OF r(1) plain(1), of capacity] show ?thesis
    using state room plain(2,3) by (auto simp: legacy_byte_def legacy_store_def)
qed

lemma process_stuffed:
  assumes "invar (lr_input_buffer r)" and "contents (lr_input_buffer r) = hdlc_stuff payload @ rest"
    and "lr_state r = LS_DATA \<or> lr_state r = LS_FRAME_DELIMETER" and "length (lr_payload_buffer r) = capacity"
    and "lr_payload_index r + length payload \<le> capacity"
  shows "\<exists>q. invar q \<and> contents q = rest \<and> legacy_process capacity ring r = legacy_process capacity ring
    (r\<lparr>lr_input_buffer := q, lr_payload_buffer := span_write (lr_payload_index r) payload (lr_payload_buffer r),
       lr_payload_index := lr_payload_index r + length payload, lr_state := (if payload = [] then lr_state r else LS_DATA)\<rparr>)"
  using assms
proof (induction payload arbitrary: r)
  case Nil
  then show ?case by (intro exI [of _ "lr_input_buffer r"]) (simp add: hdlc_stuff_def)
next
  case (Cons b payload)
  have head: "contents (lr_input_buffer r) = hdlc_stuff1 b @ hdlc_stuff payload @ rest"
    using Cons.prems(2) by (simp add: hdlc_stuff_def)
  from process_stuff1 [OF Cons.prems(1) head Cons.prems(3), of capacity] Cons.prems(5) obtain q
    where q: "invar q" "contents q = hdlc_stuff payload @ rest" and first: "legacy_process capacity ring r =
      legacy_process capacity ring (r\<lparr>lr_input_buffer := q, lr_payload_buffer := (lr_payload_buffer r)[lr_payload_index r := b],
        lr_payload_index := lr_payload_index r + 1, lr_state := LS_DATA\<rparr>)" by auto
  let ?r = "r\<lparr>lr_input_buffer := q, lr_payload_buffer := (lr_payload_buffer r)[lr_payload_index r := b],
    lr_payload_index := lr_payload_index r + 1, lr_state := LS_DATA\<rparr>"
  have "span_write (lr_payload_index r + 1) payload ((lr_payload_buffer r)[lr_payload_index r := b])
      = span_write (lr_payload_index r) (b # payload) (lr_payload_buffer r)"
    using Cons.prems(4,5) span_write_append [of "lr_payload_index r" "[b]" payload "lr_payload_buffer r"]
    by (simp add: list_update_span_write)
  then show ?case using Cons.IH [of ?r] q first Cons.prems(4,5) by auto
qed

text \<open>A byte too many: the receiver drops the frame and everything behind it.\<close>

lemma process_overflow:
  assumes r: "invar (lr_input_buffer r)" "contents (lr_input_buffer r) = hdlc_stuff1 b @ rest"
    and state: "lr_state r = LS_DATA \<or> lr_state r = LS_FRAME_DELIMETER" and full: "capacity \<le> lr_payload_index r"
  shows "\<exists>r1. legacy_process capacity ring r = Some (False, r1) \<and> contents (lr_input_buffer r1) = []
    \<and> lr_state r1 = LS_IDLE \<and> lr_payload_index r1 = 0"
proof (cases "b = legacy_kFlag \<or> b = legacy_kEscape")
  case True
  then have "contents (lr_input_buffer r) = legacy_kEscape # (b XOR legacy_kXorValue) # rest"
    using r(2) by (auto simp: hdlc_stuff1_def legacy_flags hdlc_kFlag_def hdlc_kEscape_def hdlc_kEscapeXor_def)
  from process_byte [OF r(1) this, of capacity] obtain q where q: "invar q" "contents q = (b XOR legacy_kXorValue) # rest"
    "legacy_process capacity ring r = legacy_process capacity ring (r\<lparr>lr_input_buffer := q, lr_state := LS_ESCAPE\<rparr>)"
    using state by (auto simp: legacy_byte_def legacy_flags)
  let ?r = "r\<lparr>lr_input_buffer := q, lr_state := LS_ESCAPE\<rparr>"
  from process_byte [of ?r, of "b XOR legacy_kXorValue" rest capacity] q(1,2) obtain q1 where q1: "invar q1"
    "legacy_process capacity ring ?r = (case legacy_byte capacity ring (b XOR legacy_kXorValue) (?r\<lparr>lr_input_buffer := q1\<rparr>) of
      Inl result \<Rightarrow> Some result | Inr r1 \<Rightarrow> legacy_process capacity ring r1)"
    by auto
  then show ?thesis
    using q(3) full clear_empties [OF q1(1)] by (simp add: legacy_byte_def legacy_store_def logPayloadBufferOverflow_def legacy_reset_def)
next
  case False
  then have plain: "contents (lr_input_buffer r) = b # rest" "b \<noteq> legacy_kFlag" "b \<noteq> legacy_kEscape"
    using r(2) by (auto simp: hdlc_stuff1_def legacy_flags hdlc_kFlag_def hdlc_kEscape_def)
  from process_byte [OF r(1) plain(1), of capacity] obtain q where "invar q"
    "legacy_process capacity ring r = (case legacy_byte capacity ring b (r\<lparr>lr_input_buffer := q\<rparr>) of
      Inl result \<Rightarrow> Some result | Inr r1 \<Rightarrow> legacy_process capacity ring r1)" by blast
  then show ?thesis
    using state full plain(2,3) clear_empties [of q]
    by (auto simp: legacy_byte_def legacy_store_def logPayloadBufferOverflow_def legacy_reset_def)
qed

text \<open>The opening flag of a frame.\<close>

lemma process_opening:
  assumes r: "invar (lr_input_buffer r)" "contents (lr_input_buffer r) = hdlc_frame payload @ rest"
    and state: "lr_state r = LS_IDLE \<or> lr_state r = LS_FRAME_DELIMETER"
  shows "\<exists>q. invar q \<and> contents q = hdlc_stuff payload @ legacy_kFlag # rest
    \<and> legacy_process capacity ring r = legacy_process capacity ring
        (r\<lparr>lr_input_buffer := q, lr_payload_index := 0, lr_state := LS_FRAME_DELIMETER\<rparr>)"
proof -
  have start: "contents (lr_input_buffer r) = legacy_kFlag # hdlc_stuff payload @ legacy_kFlag # rest"
    using r(2) by (simp add: hdlc_frame_def legacy_flags hdlc_kFlag_def)
  have "legacy_byte capacity ring legacy_kFlag (r\<lparr>lr_input_buffer := q\<rparr>) =
    Inr (r\<lparr>lr_input_buffer := q, lr_payload_index := 0, lr_state := LS_FRAME_DELIMETER\<rparr>)" for q
    using state by (cases r) (auto simp: legacy_byte_def)
  with process_byte [OF r(1) start, of capacity] show ?thesis by auto
qed

text \<open>
  A whole frame.  With a payload that fits the receiver answers that it has a frame and holds its
  payload; it skips an empty frame; and it drops one that is too long.
\<close>

lemma legacy_frame_processed:
  assumes r: "invar (lr_input_buffer r)" "contents (lr_input_buffer r) = hdlc_frame payload @ rest"
    and state: "lr_state r = LS_IDLE \<or> lr_state r = LS_FRAME_DELIMETER" and buf: "length (lr_payload_buffer r) = capacity"
    and payload: "payload \<noteq> []" "length payload \<le> capacity"
  shows "\<exists>q. invar q \<and> contents q = rest \<and> legacy_process capacity ring r = Some (True,
    r\<lparr>lr_input_buffer := q, lr_payload_buffer := span_write 0 payload (lr_payload_buffer r),
      lr_payload_index := length payload, lr_state := LS_FRAME_DELIMETER\<rparr>)"
proof -
  from process_opening [OF r state, of capacity] obtain q1 where
    q1: "invar q1" "contents q1 = hdlc_stuff payload @ legacy_kFlag # rest"
      "legacy_process capacity ring r = legacy_process capacity ring
        (r\<lparr>lr_input_buffer := q1, lr_payload_index := 0, lr_state := LS_FRAME_DELIMETER\<rparr>)" by blast
  let ?r1 = "r\<lparr>lr_input_buffer := q1, lr_payload_index := 0, lr_state := LS_FRAME_DELIMETER\<rparr>"
  let ?data = "\<lambda>q s. r\<lparr>lr_input_buffer := q, lr_payload_buffer := span_write 0 payload (lr_payload_buffer r),
    lr_payload_index := length payload, lr_state := s\<rparr>"
  from process_stuffed [of ?r1 payload "legacy_kFlag # rest" capacity] q1 buf payload obtain q2 where
    q2: "invar q2" "contents q2 = legacy_kFlag # rest"
      "legacy_process capacity ring ?r1 = legacy_process capacity ring (?data q2 LS_DATA)" by auto
  from process_byte [of "?data q2 LS_DATA" legacy_kFlag rest capacity] q2 obtain q3 where
    q3: "invar q3" "contents q3 = rest"
      "legacy_process capacity ring (?data q2 LS_DATA) = Some (True, ?data q3 LS_FRAME_DELIMETER)"
    by (auto simp: legacy_byte_def)
  then show ?thesis using q1(3) q2(3) by auto
qed

lemma legacy_frame_skipped:
  assumes r: "invar (lr_input_buffer r)" "contents (lr_input_buffer r) = hdlc_frame [] @ rest"
    and state: "lr_state r = LS_IDLE \<or> lr_state r = LS_FRAME_DELIMETER"
  shows "\<exists>q. contents q = rest \<and> legacy_process capacity ring r = legacy_process capacity ring
    (r\<lparr>lr_input_buffer := q, lr_payload_index := 0, lr_state := LS_FRAME_DELIMETER\<rparr>)"
proof -
  from process_opening [OF r state, of capacity] obtain q1 where
    q1: "invar q1" "contents q1 = legacy_kFlag # rest" "legacy_process capacity ring r = legacy_process capacity ring
        (r\<lparr>lr_input_buffer := q1, lr_payload_index := 0, lr_state := LS_FRAME_DELIMETER\<rparr>)"
    by (auto simp: hdlc_stuff_def)
  note step = process_byte [of "r\<lparr>lr_input_buffer := q1, lr_payload_index := 0, lr_state := LS_FRAME_DELIMETER\<rparr>" legacy_kFlag rest capacity,
      simplified, OF q1(1,2)]
  from step obtain q where "contents q = rest" "legacy_process capacity ring
      (r\<lparr>lr_input_buffer := q1, lr_payload_index := 0, lr_state := LS_FRAME_DELIMETER\<rparr>) =
    legacy_process capacity ring (r\<lparr>lr_state := LS_FRAME_DELIMETER, lr_input_buffer := q, lr_payload_index := 0\<rparr>)"
    by (auto simp: legacy_byte_def)
  moreover have "r\<lparr>lr_state := LS_FRAME_DELIMETER, lr_input_buffer := q, lr_payload_index := 0\<rparr>
      = r\<lparr>lr_input_buffer := q, lr_payload_index := 0, lr_state := LS_FRAME_DELIMETER\<rparr>" for q by (cases r) simp
  ultimately show ?thesis using q1(3) by metis
qed

lemma legacy_frame_dropped:
  assumes r: "invar (lr_input_buffer r)" "contents (lr_input_buffer r) = hdlc_frame payload @ rest"
    and state: "lr_state r = LS_IDLE \<or> lr_state r = LS_FRAME_DELIMETER" and buf: "length (lr_payload_buffer r) = capacity"
    and long: "capacity < length payload"
  shows "\<exists>r1. legacy_process capacity ring r = Some (False, r1) \<and> contents (lr_input_buffer r1) = []
    \<and> lr_state r1 = LS_IDLE \<and> lr_payload_index r1 = 0"
proof -
  let ?fit = "take capacity payload" and ?b = "payload ! capacity" and ?more = "drop (Suc capacity) payload"
  have "payload = ?fit @ ?b # ?more" using long by (simp add: id_take_nth_drop)
  then have "hdlc_stuff payload = hdlc_stuff ?fit @ hdlc_stuff1 ?b @ hdlc_stuff ?more"
    by (metis hdlc_stuff_def concat.simps(2) concat_append list.simps(9) map_append)
  with process_opening [OF r state, of capacity] obtain q1 where
    q1: "invar q1" "contents q1 = hdlc_stuff ?fit @ hdlc_stuff1 ?b @ hdlc_stuff ?more @ legacy_kFlag # rest"
      "legacy_process capacity ring r = legacy_process capacity ring
        (r\<lparr>lr_input_buffer := q1, lr_payload_index := 0, lr_state := LS_FRAME_DELIMETER\<rparr>)" by auto
  let ?r1 = "r\<lparr>lr_input_buffer := q1, lr_payload_index := 0, lr_state := LS_FRAME_DELIMETER\<rparr>"
  from process_stuffed [of ?r1 ?fit "hdlc_stuff1 ?b @ hdlc_stuff ?more @ legacy_kFlag # rest" capacity] q1 buf long
  obtain q2 where q2: "invar q2" "contents q2 = hdlc_stuff1 ?b @ hdlc_stuff ?more @ legacy_kFlag # rest"
    "legacy_process capacity ring ?r1 = legacy_process capacity ring (?r1\<lparr>lr_input_buffer := q2,
       lr_payload_buffer := span_write 0 ?fit (lr_payload_buffer r), lr_payload_index := capacity,
       lr_state := (if ?fit = [] then LS_FRAME_DELIMETER else LS_DATA)\<rparr>)" by auto
  let ?r2 = "?r1\<lparr>lr_input_buffer := q2, lr_payload_buffer := span_write 0 ?fit (lr_payload_buffer r), lr_payload_index := capacity,
       lr_state := (if ?fit = [] then LS_FRAME_DELIMETER else LS_DATA)\<rparr>"
  have "\<exists>r1. legacy_process capacity ring ?r2 = Some (False, r1) \<and> contents (lr_input_buffer r1) = []
      \<and> lr_state r1 = LS_IDLE \<and> lr_payload_index r1 = 0"
    by (rule process_overflow [of ?r2 ?b "hdlc_stuff ?more @ legacy_kFlag # rest"]) (use q2 in auto)
  then show ?thesis using q1(3) q2(3) by metis
qed

text \<open>The loop returns, whatever is in the buffer.\<close>

lemma process_returns:
  assumes "invar (lr_input_buffer r)"
  shows "\<exists>result. legacy_process capacity ring r = Some result"
  using assms
proof (induction "length (contents (lr_input_buffer r))" arbitrary: r)
  case 0
  then show ?case using isEmpty_iff by (auto simp: legacy_process.simps [of capacity ring r])
next
  case (Suc n)
  then obtain b bs where bs: "contents (lr_input_buffer r) = b # bs" by (cases "contents (lr_input_buffer r)") auto
  from process_byte [OF Suc.prems this, of capacity] obtain q where q: "invar q" "contents q = bs"
    "legacy_process capacity ring r = (case legacy_byte capacity ring b (r\<lparr>lr_input_buffer := q\<rparr>) of
      Inl result \<Rightarrow> Some result | Inr r1 \<Rightarrow> legacy_process capacity ring r1)" by blast
  show ?case
  proof (cases "legacy_byte capacity ring b (r\<lparr>lr_input_buffer := q\<rparr>)")
    case (Inr r1)
    then have "lr_input_buffer r1 = q"
      by (auto simp: legacy_byte_def legacy_store_def split: legacy_state.splits if_splits)
    then show ?thesis using Suc q bs Inr by simp
  qed (use q in simp)
qed

end

text \<open>The ring buffer of the repository meets what the receiver relies on.\<close>

definition ring_input :: "nat \<Rightarrow> (u8, 'i::len word) RingBuffer InputRing" where
  "ring_input cap = \<lparr>ir_enqueue = RingBuffer_enqueue cap, ir_dequeue = RingBuffer_dequeue cap,
     ir_isEmpty = RingBuffer_isEmpty, ir_clear = (\<lambda>q. the (RingBuffer_clear cap q))\<rparr>"

lemma ring_input_isEmpty:
  fixes q :: "(u8, 'i::len word) RingBuffer"
  assumes "RingBuffer_invar cap q"
  shows "ir_isEmpty (ring_input cap) q \<longleftrightarrow> RingBuffer_contents cap q = []"
  unfolding length_0_conv [symmetric] RingBuffer_length_contents
  using assms by (simp add: ring_input_def RingBuffer_isEmpty_iff)

lemma ring_input_clear:
  fixes q :: "(u8, 'i::len word) RingBuffer"
  assumes "RingBuffer_invar cap q"
  shows "RingBuffer_invar cap (ir_clear (ring_input cap) q) \<and> RingBuffer_contents cap (ir_clear (ring_input cap) q) = []"
  using RingBuffer_clear_returns [OF assms] by (auto simp: ring_input_def)

lemma ring_input_fifo:
  "bounded_fifo (ir_enqueue (ring_input cap)) (ir_dequeue (ring_input cap))
     (RingBuffer_contents cap :: (u8, 'i::len word) RingBuffer \<Rightarrow> bytes) (RingBuffer_invar cap) cap"
  using ring_fifo.bounded_fifo_axioms by (simp add: ring_input_def)

interpretation legacy_ring: input_ring "ring_input cap" "RingBuffer_contents cap" "RingBuffer_invar cap" cap
  for cap
  by (intro input_ring.intro ring_input_fifo input_ring_axioms.intro ring_input_isEmpty ring_input_clear)

text \<open>C36: what the legacy framing makes of any payload.  When the stuffed payload and both flags fit in
  the span, the encoder puts the frame at its start and leaves the rest.  The decoder, given the span
  behind the opening flag, gives back the payload, cut where its output ends; it reports failure for an
  empty payload or an empty output.  A receiver between frames, with that frame in the ring buffer of
  the repository and anything behind it: it skips an empty frame; it announces a payload that fits its
  payload buffer, leaves what follows in the ring, and hands the payload out when the output has room
  for all of it and nothing otherwise; and with a longer payload it reports failure and starts afresh,
  its ring emptied.
\<close>

theorem legacy_hdlc_round_trip:
  fixes r :: "(u8, 'i::len word) RingBuffer LegacyReceiver"
  assumes "length (hdlc_stuff payload) + 2 \<le> length frame"
    and "encoded = hdlc_frame payload @ drop (length (hdlc_stuff payload) + 2) frame"
    and "RingBuffer_invar cap (lr_input_buffer r)" and "lr_state r = LS_IDLE \<or> lr_state r = LS_FRAME_DELIMETER"
    and "length (lr_payload_buffer r) = capacity" and "RingBuffer_contents cap (lr_input_buffer r) = hdlc_frame payload @ rest"
  shows "legacy_encodeFrame payload frame = Some (True, encoded)
    \<and> decodePayload (drop 1 encoded) out = (payload \<noteq> [] \<and> out \<noteq> [], span_write 0 (take (length out) payload) out)
    \<and> (if payload = [] then \<exists>q. RingBuffer_contents cap q = rest \<and> legacy_process capacity (ring_input cap) r =
           legacy_process capacity (ring_input cap) (r\<lparr>lr_input_buffer := q, lr_payload_index := 0, lr_state := LS_FRAME_DELIMETER\<rparr>)
       else if length payload \<le> capacity
       then \<exists>r1. legacy_process capacity (ring_input cap) r = Some (True, r1) \<and> RingBuffer_contents cap (lr_input_buffer r1) = rest
         \<and> receivePayload out r1 = (if length payload \<le> length out
             then (length payload, span_write 0 payload out, r1\<lparr>lr_payload_index := 0, lr_state := LS_IDLE\<rparr>) else (0, out, r1))
       else \<exists>r1. legacy_process capacity (ring_input cap) r = Some (False, r1) \<and> RingBuffer_contents cap (lr_input_buffer r1) = []
         \<and> lr_state r1 = LS_IDLE \<and> lr_payload_index r1 = 0)"
proof (intro conjI)
  have "length payload \<le> length (hdlc_stuff payload)"
    by (induction payload) (auto simp: hdlc_stuff_def stuffedSize_def)
  then show "legacy_encodeFrame payload frame = Some (True, encoded)"
    using assms(1,2) by (simp add: encode_fits hdlc_frame_def span_write_def)
  show "decodePayload (drop 1 encoded) out = (payload \<noteq> [] \<and> out \<noteq> [], span_write 0 (take (length out) payload) out)"
    using decode_loop_inverts [of 0 out payload "drop (length (hdlc_stuff payload) + 2) frame"] assms(2)
    by (simp add: decodePayload_def hdlc_frame_def legacy_kFlag_def hdlc_kFlag_def)
  show "if payload = [] then \<exists>q. RingBuffer_contents cap q = rest \<and> legacy_process capacity (ring_input cap) r =
           legacy_process capacity (ring_input cap) (r\<lparr>lr_input_buffer := q, lr_payload_index := 0, lr_state := LS_FRAME_DELIMETER\<rparr>)
       else if length payload \<le> capacity
       then \<exists>r1. legacy_process capacity (ring_input cap) r = Some (True, r1) \<and> RingBuffer_contents cap (lr_input_buffer r1) = rest
         \<and> receivePayload out r1 = (if length payload \<le> length out
             then (length payload, span_write 0 payload out, r1\<lparr>lr_payload_index := 0, lr_state := LS_IDLE\<rparr>) else (0, out, r1))
       else \<exists>r1. legacy_process capacity (ring_input cap) r = Some (False, r1) \<and> RingBuffer_contents cap (lr_input_buffer r1) = []
         \<and> lr_state r1 = LS_IDLE \<and> lr_payload_index r1 = 0"
  proof (cases "payload = [] \<or> capacity < length payload")
    case True
    then show ?thesis
      using legacy_ring.legacy_frame_skipped [OF assms(3) _ assms(4), of rest capacity]
        legacy_ring.legacy_frame_dropped [OF assms(3,6,4,5)] assms(6) by auto
  next
    case False
    with legacy_ring.legacy_frame_processed [OF assms(3,6,4,5)] obtain q where q: "RingBuffer_contents cap q = rest"
      "legacy_process capacity (ring_input cap) r = Some (True, r\<lparr>lr_input_buffer := q,
        lr_payload_buffer := span_write 0 payload (lr_payload_buffer r), lr_payload_index := length payload,
        lr_state := LS_FRAME_DELIMETER\<rparr>)" by auto
    then show ?thesis using False assms(5) by (simp add: receivePayload_def)
  qed
qed

definition sample_receiver :: "(u8, 8 word) RingBuffer LegacyReceiver" where
  "sample_receiver = \<lparr>lr_input_buffer = snd (RingBuffer_enqueue_span 9 (RingBuffer_init 9 0) [0x7E, 0x7D, 0x5E, 0x11, 0x7E, 0x33]),
     lr_payload_buffer = replicate 4 0, lr_payload_index = 0, lr_state = LS_IDLE\<rparr>"

lemma sample_receiver_facts:
  "RingBuffer_invar 9 (lr_input_buffer sample_receiver)" "lr_state sample_receiver = LS_IDLE"
  "length (lr_payload_buffer sample_receiver) = 4"
  "RingBuffer_contents 9 (lr_input_buffer sample_receiver) = hdlc_frame [0x7E, 0x11] @ [0x33]"
  by code_simp+

theorem legacy_hdlc_round_trip_witness:
  "legacy_encodeFrame [0x7E, 0x11] (replicate 6 9) = Some (True, [0x7E, 0x7D, 0x5E, 0x11, 0x7E, 9])
   \<and> decodePayload [0x7D, 0x5E, 0x11, 0x7E, 9] [0, 0, 0] = (True, [0x7E, 0x11, 0])
   \<and> (\<exists>r1. legacy_process 4 (ring_input 9) sample_receiver = Some (True, r1) \<and> RingBuffer_contents 9 (lr_input_buffer r1) = [0x33]
       \<and> receivePayload [0, 0, 0] r1 = (2, [0x7E, 0x11, 0], r1\<lparr>lr_payload_index := 0, lr_state := LS_IDLE\<rparr>))"
proof -
  have stuffed: "hdlc_stuff [0x7E, 0x11] = [0x7D, 0x5E, 0x11]" "hdlc_frame [0x7E, 0x11] = [0x7E, 0x7D, 0x5E, 0x11, 0x7E]"
    by code_simp+
  have "length (hdlc_stuff [0x7E, 0x11]) + 2 \<le> length (replicate 6 (9 :: u8))" unfolding stuffed by simp
  from legacy_hdlc_round_trip [OF this refl sample_receiver_facts(1) disjI1 [OF sample_receiver_facts(2)]
      sample_receiver_facts(3,4), of "[0, 0, 0]", unfolded stuffed]
  show ?thesis by (simp add: span_write_def flip: numeral_2_eq_2)
qed

end
