(* ===== verification/Avr_Platform.thy ===== *)
theory Avr_Platform
  imports Can_Driver Uart_Link
begin

unbundle bit_operations_syntax

section \<open>The board\<close>

text \<open>
  \<^verbatim>\<open>platform/avr/init.h\<close>, \<^verbatim>\<open>millisecond_clock.cpp\<close>, \<^verbatim>\<open>builtin_led.h\<close> and \<^verbatim>\<open>builtin_led.cpp\<close>, with the set-up of
  \<^verbatim>\<open>uart0.h\<close> and \<^verbatim>\<open>spi0.h\<close>: the registers the platform writes and its three interrupt handlers.  When
  the timers run out is up to the hardware, so the handlers are steps of a relation, each possible
  while its interrupt is enabled; what runs in an atomic block is one step.
\<close>

subsection \<open>Registers\<close>

record AvrRegisters =
  ar_led :: LedRegisters
  ar_ddrb :: u8
  ar_tccr0a :: u8
  ar_tccr0b :: u8
  ar_ocr0a :: u8
  ar_timsk0 :: u8
  ar_tccr1a :: u8
  ar_tccr1b :: u8
  ar_spcr :: u8
  ar_spsr :: u8
  ar_ubrr0h :: u8
  ar_ubrr0l :: u8
  ar_ucsr0a :: u8
  ar_ucsr0b :: u8
  ar_ucsr0c :: u8
  ar_milliseconds :: u32

abbreviation update_led :: "(LedRegisters \<Rightarrow> LedRegisters) \<Rightarrow> AvrRegisters \<Rightarrow> AvrRegisters" where
  "update_led f s \<equiv> s\<lparr>ar_led := f (ar_led s)\<rparr>"

text \<open>\<^verbatim>\<open>unsigned long\<close> has 32 bits here; a baud rate of zero divides by zero in the source.\<close>

definition uart0_baud_divider :: "u32 \<Rightarrow> u32 \<Rightarrow> u16" where
  "uart0_baud_divider f_cpu baud_rate = ucast (f_cpu div (8 * baud_rate) - 1)"

definition uart0Init :: "u32 \<Rightarrow> u32 \<Rightarrow> AvrRegisters \<Rightarrow> AvrRegisters" where
  "uart0Init f_cpu baud_rate s =
     (let baud_divider = uart0_baud_divider f_cpu baud_rate
      in s\<lparr>ar_ubrr0h := ucast (drop_bit 8 baud_divider), ar_ubrr0l := ucast baud_divider, ar_ucsr0a := 0x02,
           ar_ucsr0b := 0x10 OR 0x08, ar_ucsr0c := 0x04 OR 0x02\<rparr>)"

definition spi0Init :: "AvrRegisters \<Rightarrow> AvrRegisters" where
  "spi0Init s =
     (let s1 = s\<lparr>ar_ddrb := ar_ddrb s OR (0x04 OR 0x08 OR 0x20)\<rparr>;
          s2 = s1\<lparr>ar_ddrb := ar_ddrb s1 AND NOT 0x10\<rparr>;
          s3 = update_led (\<lambda>r. r\<lparr>led_portb := led_portb r OR kPortB2\<rparr>) s2
      in s3\<lparr>ar_spcr := 0x40 OR 0x10, ar_spsr := 0\<rparr>)"

definition millisecondClockInit :: "AvrRegisters \<Rightarrow> AvrRegisters" where
  "millisecondClockInit s = s\<lparr>ar_tccr0a := 0x02, ar_tccr0b := 0x02 OR 0x01, ar_ocr0a := 249, ar_timsk0 := 0x02\<rparr>"

definition builtinLedInit :: "AvrRegisters \<Rightarrow> AvrRegisters" where
  "builtinLedInit s =
     (let s1 = update_led (\<lambda>r. r\<lparr>led_portb := led_portb r AND NOT kPortB5\<rparr>) (s\<lparr>ar_ddrb := ar_ddrb s OR 0x20\<rparr>)
      in update_led (\<lambda>r. r\<lparr>led_ocr1a := 0, led_timsk1 := 0\<rparr>)
           (s1\<lparr>ar_tccr1a := 0x01, ar_tccr1b := 0x08 OR 0x02 OR 0x01\<rparr>))"

definition avr_initialize :: "u32 \<Rightarrow> u32 \<Rightarrow> AvrRegisters \<Rightarrow> AvrRegisters" where
  "avr_initialize f_cpu baud_rate s = builtinLedInit (millisecondClockInit (spi0Init (uart0Init f_cpu baud_rate s)))"

subsection \<open>Interrupt handlers\<close>

definition TIMER0_COMPA :: "AvrRegisters \<Rightarrow> AvrRegisters" where
  "TIMER0_COMPA s = s\<lparr>ar_milliseconds := ar_milliseconds s + 1\<rparr>"

definition TIMER1_COMPA :: "AvrRegisters \<Rightarrow> AvrRegisters" where
  "TIMER1_COMPA s = update_led (\<lambda>r. r\<lparr>led_portb := led_portb r AND NOT kPortB5\<rparr>) s"

definition TIMER1_OVF :: "AvrRegisters \<Rightarrow> AvrRegisters" where
  "TIMER1_OVF s = update_led (\<lambda>r. r\<lparr>led_portb := led_portb r OR kPortB5\<rparr>) s"

definition MillisecondClock_now :: "AvrRegisters \<Rightarrow> u32" where
  "MillisecondClock_now s = ar_milliseconds s"

subsection \<open>Steps\<close>

text \<open>
  The hardware runs a handler while its interrupt is enabled in the mask register, and moves the
  counter and the flags of Timer 1 as it likes; the program sets the brightness and reads the clock.
\<close>

datatype avr_event = EvTimer0 | EvTimer1Compare | EvTimer1Overflow | EvTimer1Counts u16 u8
  | EvSetBrightness u8 | EvReadClock u32

inductive avr_step :: "AvrRegisters \<Rightarrow> avr_event \<Rightarrow> AvrRegisters \<Rightarrow> bool" where
  timer0: "ar_timsk0 s AND 0x02 \<noteq> 0 \<Longrightarrow> avr_step s EvTimer0 (TIMER0_COMPA s)"
| timer1_compare: "led_timsk1 (ar_led s) AND 0x02 \<noteq> 0 \<Longrightarrow> avr_step s EvTimer1Compare (TIMER1_COMPA s)"
| timer1_overflow: "led_timsk1 (ar_led s) AND 0x01 \<noteq> 0 \<Longrightarrow> avr_step s EvTimer1Overflow (TIMER1_OVF s)"
| timer1_counts: "avr_step s (EvTimer1Counts c f) (update_led (\<lambda>r. r\<lparr>led_tcnt1 := c, led_tifr1 := f\<rparr>) s)"
| set_brightness: "avr_step s (EvSetBrightness b) (update_led (setBuiltinLedBrightness b) s)"
| read_clock: "avr_step s (EvReadClock (MillisecondClock_now s)) s"

inductive avr_steps :: "AvrRegisters \<Rightarrow> avr_event list \<Rightarrow> AvrRegisters \<Rightarrow> bool" where
  no_step: "avr_steps s [] s"
| then_step: "avr_steps s evs s1 \<Longrightarrow> avr_step s1 ev s2 \<Longrightarrow> avr_steps s (evs @ [ev]) s2"

inductive_cases avr_step_cases: "avr_step s ev s1"

code_pred (modes: i \<Rightarrow> i \<Rightarrow> o \<Rightarrow> bool) avr_step .

subsection \<open>What the board shows\<close>

text \<open>The last brightness asked for, and the number of milliseconds.\<close>

fun board_event :: "avr_event \<Rightarrow> u8 \<times> nat \<Rightarrow> u8 \<times> nat" where
  "board_event (EvSetBrightness b) board = (b, snd board)"
| "board_event EvTimer0 board = (fst board, Suc (snd board))"
| "board_event ev board = board"

definition board_after :: "avr_event list \<Rightarrow> u8 \<times> nat" where
  "board_after events = fold board_event events (0, 0)"

text \<open>
  How the registers show it: nothing but bit 5 of the port B latch moves; the ends of the scale are
  set without interrupts; between them both interrupts are on and the compare value is set.  The SPI
  master stays on.
\<close>

definition board_shows :: "u8 \<Rightarrow> u32 \<Rightarrow> u8 \<times> nat \<Rightarrow> AvrRegisters \<Rightarrow> bool" where
  "board_shows pins start board s \<longleftrightarrow>
     led_portb (ar_led s) AND NOT kPortB5 = pins AND NOT kPortB5
     \<and> (if fst board = 0 then led_timsk1 (ar_led s) = 0 \<and> led_portb (ar_led s) AND kPortB5 = 0
        else if fst board = 0xFF then led_timsk1 (ar_led s) = 0 \<and> led_portb (ar_led s) AND kPortB5 = kPortB5
        else led_timsk1 (ar_led s) = 0x03 \<and> led_ocr1a (ar_led s) = ucast (fst board))
     \<and> ar_timsk0 s = 0x02 \<and> ar_milliseconds s = start + of_nat (snd board) \<and> ar_spcr s = 0x50"

text \<open>
  The level of the LED's pin, PB5: it is also the clock of the SPI, which takes precedence over the
  port while the SPI is on as master, as \<^verbatim>\<open>spi0.h\<close> notes.
\<close>

definition pb5_level :: "bool \<Rightarrow> AvrRegisters \<Rightarrow> bool" where
  "pb5_level sck s = (if ar_spcr s AND 0x50 = 0x50 then sck else led_portb (ar_led s) AND kPortB5 \<noteq> 0)"

lemma pin_bits [simp]:
  "(p AND NOT k) AND NOT k = p AND NOT k" "(p OR k) AND NOT k = p AND NOT k"
  "(p OR k) AND k = k" "(p AND NOT k) AND k = 0" for p k :: u8
  by (intro bit_eqI; auto simp: bit_simps)+

lemma other_pin: "NOT kPortB5 AND kPortB2 = kPortB2"
  by code_simp

lemma initialize_shows:
  "board_shows (led_portb (ar_led s) OR kPortB2) (ar_milliseconds s) (board_after []) (avr_initialize f_cpu baud_rate s)"
  by (simp add: board_shows_def board_after_def avr_initialize_def uart0Init_def spi0Init_def millisecondClockInit_def
      builtinLedInit_def Let_def)

lemma board_step:
  assumes "avr_step s ev s1" and "board_shows pins start board s"
  shows "board_shows pins start (board_event ev board) s1"
  using assms
  by cases (auto simp: board_shows_def TIMER0_COMPA_def TIMER1_COMPA_def TIMER1_OVF_def setBuiltinLedBrightness_def Let_def
      split: if_splits)

lemma board_steps:
  assumes "avr_steps s events s1" and "board_shows pins start (board_after []) s"
  shows "board_shows pins start (board_after events) s1"
  using assms
proof (induction rule: avr_steps.induct)
  case (then_step s evs s1 ev s2)
  then show ?case using board_step [of s1 ev s2] by (simp add: board_after_def)
qed

text \<open>A run can be cut at any event.\<close>

lemma steps_snoc: "avr_steps s (evs @ [ev]) s2 \<longleftrightarrow> (\<exists>s1. avr_steps s evs s1 \<and> avr_step s1 ev s2)"
  by (subst avr_steps.simps) auto

lemma steps_append: "avr_steps s (evs @ evs') s2 \<Longrightarrow> \<exists>s1. avr_steps s evs s1 \<and> avr_steps s1 evs' s2"
proof (induction evs' arbitrary: s2 rule: rev_induct)
  case Nil
  then show ?case using avr_steps.no_step by fastforce
next
  case (snoc ev evs')
  then show ?case using steps_snoc [of s "evs @ evs'"] steps_snoc by (metis append_assoc)
qed

lemma steps_Cons: "avr_steps s1 evs s2 \<Longrightarrow> avr_step s ev s1 \<Longrightarrow> avr_steps s (ev # evs) s2"
proof (induction rule: avr_steps.induct)
  case (no_step s1)
  then show ?case using avr_steps.then_step [OF avr_steps.no_step] by fastforce
next
  case (then_step s1 evs s2 ev' s3)
  then show ?case using avr_steps.then_step [of s "ev # evs" s2 ev' s3] by simp
qed

lemma reading:
  assumes "avr_steps s (pre @ EvReadClock t # post) s1" and "board_shows pins start (board_after []) s"
  shows "t = start + of_nat (snd (board_after pre))"
proof -
  obtain s2 s3 where "avr_steps s pre s2" "avr_step s2 (EvReadClock t) s3"
    using steps_append [of s "pre @ [EvReadClock t]" post s1] assms(1) steps_snoc by auto
  then show ?thesis
    using board_steps [OF _ assms(2)] by (auto simp: board_shows_def MillisecondClock_now_def elim: avr_step_cases)
qed

lemma board_ticks:
  "snd (fold board_event events board) = snd board + length (filter (\<lambda>ev. ev = EvTimer0) events)"
proof (induction events arbitrary: board)
  case (Cons ev events)
  then show ?case by (cases ev) auto
qed simp

text \<open>C38: the registers of the board after its initialization.  However interrupts, settings of the
  brightness and readings of the clock are interleaved, the latch of port B stays as the initialization
  left it but for bit 5, the chip select high; a brightness of 0 or 255 holds bit 5 of the latch low or
  high with the PWM interrupts off, and any other brightness has both of them on and the compare value
  set to it; the difference of two readings of the clock is the number of timer interrupts between
  them, also when the counter wraps.  The SPI master, which the initialization turns on, stays on, so
  the LED's pin follows the SPI clock and not the latch, whatever the brightness.
\<close>

theorem board_refines_brightness_and_time:
  assumes "avr_steps (avr_initialize f_cpu baud_rate s0) events s"
  shows "board_shows (led_portb (ar_led s0) OR kPortB2) (ar_milliseconds s0) (board_after events) s
    \<and> led_portb (ar_led s) AND kPortB2 = kPortB2 \<and> pb5_level sck s = sck
    \<and> (\<forall>pre mid post t t'. events = pre @ EvReadClock t # mid @ EvReadClock t' # post
        \<longrightarrow> t' - t = of_nat (length (filter (\<lambda>ev. ev = EvTimer0) mid)))"
proof (intro conjI allI impI)
  note init = initialize_shows [of s0 f_cpu baud_rate]
  show held: "board_shows (led_portb (ar_led s0) OR kPortB2) (ar_milliseconds s0) (board_after events) s"
    by (rule board_steps [OF assms init])
  have "led_portb (ar_led s) AND kPortB2 = (led_portb (ar_led s) AND NOT kPortB5) AND kPortB2"
    by (simp only: and.assoc other_pin)
  also have "\<dots> = ((led_portb (ar_led s0) OR kPortB2) AND NOT kPortB5) AND kPortB2" using held by (simp add: board_shows_def)
  also have "\<dots> = kPortB2" by (simp only: and.assoc other_pin pin_bits)
  finally show "led_portb (ar_led s) AND kPortB2 = kPortB2" .
  show "pb5_level sck s = sck" using held by (simp add: board_shows_def pb5_level_def)
  fix pre mid post t t'
  assume events: "events = pre @ EvReadClock t # mid @ EvReadClock t' # post"
  have "t = ar_milliseconds s0 + of_nat (snd (board_after pre))"
    using reading [OF _ init] assms events by blast
  moreover have "t' = ar_milliseconds s0 + of_nat (snd (board_after (pre @ EvReadClock t # mid)))"
    using reading [OF _ init, of "pre @ EvReadClock t # mid" t' post s] assms events by simp
  ultimately show "t' - t = of_nat (length (filter (\<lambda>ev. ev = EvTimer0) mid))"
    by (simp add: board_after_def board_ticks)
qed

definition sample_registers :: AvrRegisters where
  "sample_registers = \<lparr>ar_led = \<lparr>led_portb = 0x01, led_ocr1a = 0, led_tcnt1 = 0, led_tifr1 = 0, led_timsk1 = 0\<rparr>,
     ar_ddrb = 0, ar_tccr0a = 0, ar_tccr0b = 0, ar_ocr0a = 0, ar_timsk0 = 0, ar_tccr1a = 0, ar_tccr1b = 0, ar_spcr = 0,
     ar_spsr = 0, ar_ubrr0h = 0, ar_ubrr0l = 0, ar_ucsr0a = 0, ar_ucsr0b = 0, ar_ucsr0c = 0, ar_milliseconds = 0xFFFFFFFF\<rparr>"

definition sample_board_events :: "avr_event list" where
  "sample_board_events = [EvSetBrightness 100, EvReadClock 0xFFFFFFFF, EvTimer0, EvTimer1Compare, EvTimer0,
     EvReadClock 1, EvSetBrightness 255]"

lemma sample_board_steps: "\<exists>s. avr_steps (avr_initialize 16000000 115200 sample_registers) sample_board_events s"
proof -
  let ?s = "avr_initialize 16000000 115200 sample_registers"
  let ?s1 = "update_led (setBuiltinLedBrightness 100) ?s"
  let ?s2 = "TIMER0_COMPA ?s1" and ?s3 = "TIMER1_COMPA (TIMER0_COMPA ?s1)"
  let ?s4 = "TIMER0_COMPA ?s3"
  have on: "ar_timsk0 ?s1 AND 0x02 \<noteq> 0" "led_timsk1 (ar_led ?s2) AND 0x02 \<noteq> 0" "ar_timsk0 ?s3 AND 0x02 \<noteq> 0" by code_simp+
  have "MillisecondClock_now ?s1 = 0xFFFFFFFF" "MillisecondClock_now ?s4 = 1" by code_simp+
  then have reads: "avr_step ?s1 (EvReadClock 0xFFFFFFFF) ?s1" "avr_step ?s4 (EvReadClock 1) ?s4"
    using avr_step.read_clock [of ?s1] avr_step.read_clock [of ?s4] by simp_all
  show ?thesis
    unfolding sample_board_events_def
    using avr_step.set_brightness [of ?s 100] reads(1) avr_step.timer0 [OF on(1)] avr_step.timer1_compare [OF on(2)]
      avr_step.timer0 [OF on(3)] reads(2) avr_step.set_brightness [of ?s4 255] avr_steps.no_step
    by (meson steps_Cons)
qed

theorem board_refines_brightness_and_time_witness:
  "\<exists>s. avr_steps (avr_initialize 16000000 115200 sample_registers) sample_board_events s
     \<and> led_timsk1 (ar_led s) = 0 \<and> led_portb (ar_led s) AND kPortB5 = kPortB5 \<and> led_portb (ar_led s) AND kPortB2 = kPortB2
     \<and> \<not> pb5_level False s"
proof -
  obtain s where s: "avr_steps (avr_initialize 16000000 115200 sample_registers) sample_board_events s"
    using sample_board_steps by blast
  have "board_after sample_board_events = (255, 2)" by code_simp
  then show ?thesis
    using board_refines_brightness_and_time [OF s, of False] s by (auto simp: board_shows_def)
qed

end
