(* ===== verification/Spec2Isabelle.thy ===== *)
theory Spec2Isabelle
  imports Core_Properties Link_Properties Demo_Run Bits_Properties Bits_Lockstep Bits_Echo_Invariant Can_Console Sim_Counter
    Static_String Stack_Monitor Legacy_Hdlc Avr_Platform
begin

text \<open>
  WireSpaces: a verification library

  WireSpaces is a C++17 messaging library for small devices.  Hosts are joined by numbered
  wires; a packet carries a six-byte header (control, wire, source, destination, endpoint)
  and a payload.  A link turns packets into frames, a router forwards them between links and
  hands local ones to a dispatcher, endpoint receivers queue them and services answer them.
  The BITS transport moves an object of up to 65536 segments over lossy packets with a
  sliding window and selective acknowledgement.

  Method.  Every operation is a total HOL function on the source's data: integers are machine
  words of the source's width, fixed arrays and spans are lists, objects are records, a failure
  is the value the code returns.  Code reached through an interface (links, callbacks, other
  receivers) is an argument of the operation and acts on an arbitrary memory \<open>'w\<close>; what the
  clients need of it is a locale, interpreted on the code that provides it.

  The theories and what they model (paths under \<^verbatim>\<open>src/\<close>):

  \<^item> \<open>WS_Prelude\<close>: word and list lemmas, byte order, \<^verbatim>\<open>foundation/span.h\<close>, and the collections
    \<open>ws_simps\<close>, \<open>ws_unats\<close> and \<open>ws_invars\<close> the component proofs draw on.
  \<^item> \<open>Containers\<close>: \<^verbatim>\<open>containers/queue.h\<close> and \<^verbatim>\<open>ring_buffer.h\<close>.  The locale \<open>bounded_fifo\<close> states
    the contract of a bounded FIFO and proves once that an implementation answers every sequence
    of calls as the list does; both containers interpret it.  \<open>Spsc\<close> cuts the ring buffer's two
    operations at their accesses of shared memory and proves that no interleaving of one
    producer and one consumer loses, repeats or reorders an item.
  \<^item> \<open>Packet\<close>: \<^verbatim>\<open>core/packet.h\<close> and \<^verbatim>\<open>packet.cpp\<close>: header fields and their packed layout, packet buffers.
  \<^item> \<open>Dispatch\<close>: \<^verbatim>\<open>core/host.cpp\<close>, \<^verbatim>\<open>dispatch.cpp\<close>, \<^verbatim>\<open>mailbox.cpp\<close>, \<^verbatim>\<open>endpoint_queue.h\<close>.  A dispatcher
    works on any receivers; the locale \<open>receiver_memory\<close> says that distinct receivers do not share
    state and gives the broadcast and unicast theorems.
  \<^item> \<open>Routing\<close>: \<^verbatim>\<open>core/router.cpp\<close>, \<^verbatim>\<open>forwarding.h\<close>, \<^verbatim>\<open>domain.cpp\<close> and the forwarder of \<^verbatim>\<open>demo_wiring.h\<close>.
  \<^item> \<open>Crc\<close> and \<open>Hdlc\<close>: \<^verbatim>\<open>crc/crc.h\<close> for every width, and \<^verbatim>\<open>links/uart_hdlc/encoder.h\<close> and \<^verbatim>\<open>decoder.h\<close>;
    the burst theorem of the CRC carries over to damaged frames.
  \<^item> \<open>Services\<close>: ping, LED control, heartbeat and stack report.
  \<^item> \<open>Uart_Link\<close>: \<^verbatim>\<open>examples/arduino-uno/uart_hdlc_link.h\<close> and one pass of the main loop of
    \<^verbatim>\<open>main.cpp\<close>, from the bytes on the serial line to the bytes put on it.
  \<^item> \<open>Demo_Run\<close>: the main loop over any passes, refined to a specification on packets.  The locale
    \<open>demo_service\<close> says what a service of the board does with one packet; both services interpret it.
  \<^item> \<open>Bits_Codec\<close>, \<open>Bits_Engine\<close>: \<^verbatim>\<open>transports/bits/codec.cpp\<close> and \<^verbatim>\<open>receiver_engine.cpp\<close>, for every
    setting of the compile-time window width (the width-one variant included).
  \<^item> \<open>Bits_Invariant\<close>, \<open>Bits_Transfer\<close>: the window invariant of the engine under any sequence of
    calls, and the locale \<open>object_sink\<close> of a sink that stores what it accepts: such a sink holds
    the object whenever the engine reports completion.
  \<^item> \<open>Bits_Endpoint\<close>, \<open>Bits_Transmitter\<close>: the two classes of \<^verbatim>\<open>transports/bits/bits.cpp\<close>;
    \<open>Bits_Sender\<close> has the transmitter's invariant and what it may put on the wire.
  \<^item> \<open>Bits_Ram\<close>: the receivers of \<^verbatim>\<open>bits_ram_transfer.cpp\<close> and \<^verbatim>\<open>bits_boot_profile_ram.cpp\<close>, both
    interpretations of \<open>object_sink\<close>.
  \<^item> \<open>Bits_Completion\<close>: the locale \<open>willing_receiver\<close> of a receiver that admits a fitting transfer
    and whose sends do not fail; an in-order transfer to it always completes.
  \<^item> \<open>Boot_Run\<close>: the main program of the boot profile over any passes of its loop, as the engine run on
    the messages that the bytes on its line carry; an upload of one frame in each pass is such a run.
  \<^item> \<open>Bits_Lockstep\<close>: the transmitter and the RAM receiver endpoint against each other, packet by
    packet, over a network that loses nothing; the two ends advance in lock step to completion.
  \<^item> \<open>Bits_Echo\<close>, \<open>Bits_Echo_Invariant\<close>: the whole application of \<^verbatim>\<open>bits_ram_transfer.cpp\<close>, a receiver
    and a transmitter over one store.  The locale \<open>ram_callbacks\<close> says how the callbacks act on the
    store; over any passes of the loop, however the bytes of a frame are spread over them, the store and both
    ends stay consistent, and what is echoed is what was uploaded.
  \<^item> \<open>Can_Driver\<close>, \<open>Can_Console\<close>: \<^verbatim>\<open>platform/avr/spi0.h\<close>, \<^verbatim>\<open>mcp2515.h\<close>, \<^verbatim>\<open>mcp2515_can.h\<close> in the state monad
    over any controller, and the console of \<^verbatim>\<open>mcp2515_can_test.cpp\<close>; no operation leaves the bus
    claimed, a command line is sent as the frame its text names or answered as malformed or busy, and
    with controllers that follow their data sheet a frame typed on one console is printed by the other.
  \<^item> \<open>Sim_Command_Line\<close>, \<open>Sim_Process\<close>, \<open>Sim_Counter\<close>: the desktop simulator under \<^verbatim>\<open>sim/\<close>: its command
    line, the superloop over any network, application, clock and shutdown source, and the counter
    program from its arguments to its output.
  \<^item> \<open>Static_String\<close>: \<^verbatim>\<open>foundation/static_string.h\<close>, refined to text cut at its capacity.
  \<^item> \<open>Stack_Monitor\<close>: \<^verbatim>\<open>platform/avr/stack_monitor.h\<close> and the high-water mark it finds.
  \<^item> \<open>Avr_Platform\<close>: the set-up of the board in \<^verbatim>\<open>platform/avr\<close> and its interrupt handlers, as a step
    relation refined to the brightness last asked for and the milliseconds passed.  The brightness is what
    the LED registers hold; the pin itself carries the SPI clock, which the set-up turns on.
  \<^item> \<open>Legacy_Hdlc\<close>: the earlier framing under \<^verbatim>\<open>links/uart_hdlc/legacy\<close>.  The locale \<open>input_ring\<close> extends
    \<open>bounded_fifo\<close> by what its receiver needs of a ring buffer; the repository's interprets it.
  \<^item> \<open>Core_Properties\<close>, \<open>Link_Properties\<close>, \<open>Bits_Properties\<close> and this theory: the properties of the
    library proper, each with an instance at concrete values; the two applications, the CAN console,
    the simulator, the board and the three smaller components state theirs in their own theories.

  Bounds.  Loops over arrays and windows recurse over the list or the index range they scan;
  the engine's drain and grant loops, the painting and scanning loops and the population count are
  recursive functions with termination proofs; the service loop, the superloop, the receive loop of
  the CAN console and the legacy receiver's loop are partial functions with the value \<open>None\<close> for no
  return.  All are proved to return, the superloop for the counter program once a signal arrives and
  the console's loop while the controller receives nothing new.  No fuel is
  used.  Times of the simulator are integers, and leaving the 64-bit range, which C++ leaves
  undefined, is an outcome of its own.

  Not modelled: what the timers and the serial line of the board do by themselves (each reading of
  the clock is an argument of the operation that takes it, the bytes received one of the passes of a program), the
  endless loops of the programs for the board beyond their passes, the interfaces under \<^verbatim>\<open>links/can_classic\<close>, which
  have no implementation, and the Python code generator.
\<close>

section \<open>End to end\<close>

text \<open>C1: an object handed to a transmitter and received by the RAM application: whatever the network
  loses, duplicates, delays or reorders of the packets sent, and whatever else the two ends do
  meanwhile, if the receiver reports the transfer complete then its storage holds the object.\<close>

theorem transfer_end_to_end:
  assumes "tx_invar t" and "startTransfer obj z sid isn t = (ST_kStarted, t0)"
    and "\<forall>ev \<in> set tx_events. tx_event_wf ev"
    and "tx_run (record_env env) tx_events (t0, w, []) = (t1, w1, sent)"
    and "\<forall>p. Some p \<in> set slots \<longrightarrow> packet_invar p" and "packet_invar d"
    and "\<forall>p. RecvEvent p \<in> set rx_events \<longrightarrow> packet_invar p \<and> payload p \<in> payload ` set sent"
    and "endpoint_run (ram_env conn (network_forward forward)) rx_events
      (BitsReceiver_init 16 conn slots d timeout, pk, ram, n) = (b', w')"
    and "re_state (br_engine b') = TS_kCompleted"
  shows "take (length obj) (rc_storage (fst (snd w'))) = obj"
proof -
  let ?s = "ts_setup (bt_session t0)"
  have inv: "session_window (bt_session t0)"
    using startTransfer_started(1,3) [OF assms(1,2)] by (simp add: tx_invar_def session_invar_def)
  then have v: "setup_valid ?s" "length obj = unat (setupTotalSize ?s)"
    using startTransfer_started(2) [OF assms(1,2)] by (auto simp: session_window_def)
  have sent: "honest_message ?s obj (payload p)" if "p \<in> set sent" for p
    using transmitter_packets_honest [OF assms(1-4)] that by blast
  have hon: "\<forall>ev \<in> set rx_events. honest_endpoint_event ?s obj ev"
  proof
    fix ev assume ev: "ev \<in> set rx_events"
    show "honest_endpoint_event ?s obj ev"
    proof (cases ev)
      case (RecvEvent p)
      with ev assms(7) obtain q where "packet_invar p" "payload p = payload q" "q \<in> set sent" by auto
      then show ?thesis using RecvEvent sent [of q] by simp
    qed simp_all
  qed
  have m: "ee_max_window (ram_env conn (network_forward forward)) = 16" by (simp add: ram_env_def endpoint_env_def)
  have run: "endpoint_run (ram_env conn (network_forward forward)) rx_events
      (BitsReceiver_init (ee_max_window (ram_env conn (network_forward forward))) conn slots d timeout, pk, ram, n) = (b', w')"
    using assms(8) m by simp
  show ?thesis by (rule ram_sink.endpoint_completed_object [OF v assms(5,6) _ hon run assms(9)]) simp
qed

definition example_rx_events :: "endpoint_event list" where
  "example_rx_events = concat (map (\<lambda>p. [RecvEvent p, ProcEvent 0]) example_sent)"

definition example_rx_run :: "BitsReceiver \<times> PacketBuffer \<times> RamReceiverCallbacks \<times> nat" where
  "example_rx_run = endpoint_run example_ram_env example_rx_events (example_rx, example_memory)"

theorem transfer_end_to_end_witness:
  "re_state (br_engine (fst example_rx_run)) = TS_kCompleted
   \<and> take 3 (rc_storage (fst (snd (snd example_rx_run)))) = [10, 20, 30]"
proof -
  obtain b' w' where r: "example_rx_run = (b', w')" by (rule prod.exhaust)
  have c: "re_state (br_engine (fst example_rx_run)) = TS_kCompleted" by code_simp
  have sent: "\<forall>p \<in> set example_sent. packet_invar p"
    using transmitter_packets_honest [OF example_tx_invar example_starts example_events_wf example_tx_run_eq] by blast
  have "take (length example_object) (rc_storage (fst (snd w'))) = example_object"
  proof (rule transfer_end_to_end [OF example_tx_invar example_starts example_events_wf example_tx_run_eq])
    show "endpoint_run (ram_env example_rx_conn (network_forward (\<lambda>p n. (RR_kAccepted, n + 1)))) example_rx_events
        (BitsReceiver_init 16 example_rx_conn [Some (PacketBuffer_new 6)] (PacketBuffer_new 10) 0, PacketBuffer_new 6,
         \<lparr>rc_storage = replicate 4 0, rc_received_size = 0, rc_object_complete = False\<rparr>, 0) = (b', w')"
      using r by (simp add: example_rx_run_def example_rx_def example_memory_def example_ram_env_def)
    show "re_state (br_engine b') = TS_kCompleted" using c by (simp add: r)
    show "\<forall>p. RecvEvent p \<in> set example_rx_events \<longrightarrow> packet_invar p \<and> payload p \<in> payload ` set example_sent"
      using sent by (auto simp: example_rx_events_def)
  qed simp_all
  with c show ?thesis by (simp add: r example_object_def numeral_3_eq_3)
qed

text \<open>C2: over a network that delivers every packet, a transfer from a transmitter to the RAM
  receiver completes: after one round for the SETUP, one for each segment and one for the last
  acknowledgement both ends report completion and the receiver's storage holds the object.
  The receiver must have room for the object and slots for the segment size, the rounds must
  be closer than its inactivity timeout, and the reserved control bits of the two transmit
  packets must be clear, since the headers keep them.\<close>

theorem lossless_transfer_completes:
  assumes t: "tx_invar t" "\<not> bt_datagram_occupied t" "6 \<le> pb_capacity (bt_datagram_ingress t)"
      "clean (bt_transmit_packet t)" "bt_connection t = mirrored conn"
    and start: "startTransfer obj z sid isn t = (ST_kStarted, t0)"
    and slots: "\<forall>p. Some p \<in> set slots \<longrightarrow> packet_invar p" and d: "packet_invar d" "10 \<le> pb_capacity d"
    and z: "z \<le> ec_maximum_segment_size (receiverEngineConfig slots timeout)"
    and w: "clean pk" "6 \<le> pb_capacity pk" "length obj \<le> length (rc_storage ram)" "\<not> rc_object_complete ram"
    and clk: "\<And>i. timeout = 0 \<or> clk (Suc i) - clk i < timeout"
  shows "\<exists>t' b' pk' ram'. exchange_rounds conn clk (unat (ts_segment_count (bt_session t0)) + 2)
        (t0, BitsReceiver_init 16 conn slots d timeout, pk, ram) = (t', b', pk', ram')
    \<and> ts_state (bt_session t') = TS_kCompleted \<and> re_state (br_engine b') = TS_kCompleted
    \<and> take (length obj) (rc_storage ram') = obj"
proof -
  let ?b = "BitsReceiver_init 16 conn slots d timeout" and ?s = "ts_setup (bt_session t0)"
  let ?x = "(t0, ?b, pk, ram)"
  note s = startTransfer_started [OF t(1) start] and f = startTransfer_fresh [OF start]
  have cap: "10 \<le> unat (pb_capacity d)" "6 \<le> unat (pb_capacity (bt_datagram_ingress t0))"
    using d(2) t(3) f(5) by (simp_all add: word_le_nat_alt)
  note b = receiver_init_idle [OF slots d(1) cap(1) f(8) z]
  have ok: "ram_sink.endpoint_ok conn lossless ?s obj ?b (pk, ram, [])"
    using ram_sink.endpoint_init_ok [where w = "(pk, ram, [])" and t = timeout, OF slots d(1)] by simp
  have ready: "ram_ready (length obj) (pk, ram, [])" using w by (simp add: ram_ready_def ram_sendable_def clean_def)
  have cfg: "setupTotalSize ?s \<le> ec_maximum_object_size (receiverEngineConfig slots timeout)"
    "ec_inactivity_timeout_ms (receiverEngineConfig slots timeout) = timeout"
    using unsigned_less [of "setupTotalSize ?s", where ?'a = nat]
    by (simp_all add: receiverEngineConfig_def word_le_nat_alt split: prod.splits)
  have first: "lockstep conn ?s obj timeout (clk 0) 0 (exchange_rounds conn clk 1 ?x)"
    using lockstep_setup [OF s(1) _ s(3) f(1) _ f(2,3) refl s(2) _ cap(2) _ ok _ _ _ _ _ ready w(4),
        where timeout = timeout and now = "clk 0"] t f(4,6,7) s(4) b cfg z
    by (simp add: exchange_rounds_def BitsReceiver_init_def BitsReceiverEngine_init_def del: exchange_round.simps lockstep.simps)
  obtain t1 b1 pk1 ram1 where y: "exchange_rounds conn clk (Suc (segments ?s)) ?x = (t1, b1, pk1, ram1)" by (metis prod_cases4)
  have l: "lockstep conn ?s obj timeout (clk (segments ?s)) (segments ?s) (t1, b1, pk1, ram1)"
    using lockstep_rounds [OF first clk order_refl] y by simp
  have n: "unat (ts_segment_count (bt_session t0)) = segments ?s"
    using s(1,3) by (auto simp: tx_invar_def session_invar_def session_window_def unat_setupSegmentCount segments_def)
  from lockstep_done(1) [OF l, of "clk (Suc (segments ?s))"] lockstep_done(2,3) [OF l] show ?thesis
    unfolding n add_2_eq_Suc' exchange_rounds_Suc [of conn clk "Suc (segments ?s)"] y by blast
qed

definition example_ram :: RamReceiverCallbacks where
  "example_ram = \<lparr>rc_storage = replicate 4 0, rc_received_size = 0, rc_object_complete = False\<rparr>"

definition example_exchange :: exchange where
  "example_exchange = (example_started, BitsReceiver_init 16 example_rx_conn
     [Some (PacketBuffer_new 6), None, Some (PacketBuffer_new 6)] (PacketBuffer_new 10) 5, PacketBuffer_new 6, example_ram)"

theorem lossless_transfer_completes_witness:
  "\<exists>t' b' pk' ram'. exchange_rounds example_rx_conn of_nat 4 example_exchange = (t', b', pk', ram')
    \<and> ts_state (bt_session t') = TS_kCompleted \<and> re_state (br_engine b') = TS_kCompleted
    \<and> take 3 (rc_storage ram') = [10, 20, 30]"
proof -
  let ?slots = "[Some (PacketBuffer_new 6), None, Some (PacketBuffer_new 6)]"
  have n: "unat (ts_segment_count (bt_session example_started)) + 2 = 4" by code_simp
  have z: "2 \<le> ec_maximum_segment_size (receiverEngineConfig ?slots 5)" by code_simp
  have c: "clean (PacketBuffer_new m)" for m by (simp add: clean_def) (simp add: PacketBuffer_new_def Header_zero_def)
  have cap: "pb_capacity (PacketBuffer_new m) = m" for m by (simp add: PacketBuffer_new_def)
  have t: "\<not> bt_datagram_occupied example_tx" "6 \<le> pb_capacity (bt_datagram_ingress example_tx)"
    "clean (bt_transmit_packet example_tx)" "bt_connection example_tx = mirrored example_rx_conn"
    using c cap by (simp_all add: example_tx_def BitsTransmitter_init_def mirrored_def example_tx_conn_def example_rx_conn_def)
  have sl: "\<forall>p. Some p \<in> set ?slots \<longrightarrow> packet_invar p" by simp
  show ?thesis
    using lossless_transfer_completes [where clk = of_nat, OF example_tx_invar t example_starts sl packet_invar_new _ z c, of 10 6 example_ram]
    unfolding n example_exchange_def by (simp add: example_object_def example_ram_def cap numeral_3_eq_3)
qed

end
